(* ===== verification/PL_Prelude.thy ===== *)
theory PL_Prelude
  imports Main "HOL-Library.Word"
begin

text \<open>
  Shared vocabulary of the development: the machine-integer types of the C++ sources, byte
  slices (\<open>std::span::subspan\<close>, \<open>memcpy\<close> into the middle of a buffer), the ordering searches
  of the standard library, and the named collections that carry the component proofs.
\<close>

unbundle bit_operations_syntax

section \<open>Types\<close>

type_synonym byte = "8 word"
type_synonym u8 = "8 word"
type_synonym u16 = "16 word"
type_synonym u32 = "32 word"
type_synonym u64 = "64 word"

text \<open>
  \<open>std::int64_t\<close> quantities that the code never lets wrap (offsets, epochs, milliseconds) are
  \<open>int\<close>; \<open>std::size_t\<close> positions and lengths are \<open>nat\<close>, with \<open>wrap64\<close> written out at every
  place where the code can add beyond \<open>2 ^ 64\<close>.
\<close>

type_synonym offset = int
type_synonym timestamp_ms = int
type_synonym leader_epoch = int
type_synonym bytes = "byte list"

definition wrap64 :: "nat \<Rightarrow> nat" where
  "wrap64 n = n mod 2 ^ 64"

lemma wrap64_small [simp]: "n < 2 ^ 64 \<Longrightarrow> wrap64 n = n"
  by (simp add: wrap64_def)

lemma wrap64_le: "wrap64 n \<le> n"
  by (simp add: wrap64_def)

text \<open>Unsigned 64-bit subtraction, and the conversion of a signed 64-bit value to unsigned.\<close>

definition sub64 :: "nat \<Rightarrow> nat \<Rightarrow> nat" where
  "sub64 a b = (if b \<le> a then a - b else 2 ^ 64 - (b - a))"

definition to_u64 :: "int \<Rightarrow> nat" where
  "to_u64 i = nat (i mod 2 ^ 64)"

lemma sub64_le [simp]: "b \<le> a \<Longrightarrow> sub64 a b = a - b"
  by (simp add: sub64_def)

lemma to_u64_nonneg: "0 \<le> i \<Longrightarrow> i < 2 ^ 64 \<Longrightarrow> to_u64 i = nat i"
  by (simp add: to_u64_def)

section \<open>Collections\<close>

named_theorems codec_simps \<open>decoding what was encoded\<close>
named_theorems buffer_simps \<open>readable region of a buffer after an operation\<close>
named_theorems parses_intros \<open>reader steps on encoded input\<close>
named_theorems parses_chain \<open>a reader step followed by further steps\<close>
named_theorems seg_simps \<open>segment fields after an operation\<close>

section \<open>Slices and overwrites\<close>

definition slice :: "nat \<Rightarrow> nat \<Rightarrow> 'a list \<Rightarrow> 'a list" where
  "slice pos n xs = take n (drop pos xs)"

definition overwrite :: "nat \<Rightarrow> 'a list \<Rightarrow> 'a list \<Rightarrow> 'a list" where
  "overwrite pos ys xs = take pos xs @ ys @ drop (pos + length ys) xs"

lemma length_slice [simp]: "length (slice pos n xs) = min n (length xs - pos)"
  by (simp add: slice_def min.commute)

lemma slice_append_mid:
  "slice (length pre) (length ys) (pre @ ys @ post) = ys"
  by (simp add: slice_def)

lemma slice_append_left: "pos + n \<le> length xs \<Longrightarrow> slice pos n (xs @ ys) = slice pos n xs"
  by (simp add: slice_def)

lemma slice_append_right:
  "length xs \<le> pos \<Longrightarrow> slice pos n (xs @ ys) = slice (pos - length xs) n ys"
  by (simp add: slice_def)

lemma slice_shift: "slice (length pre + pos) n (pre @ xs) = slice pos n xs"
  by (simp add: slice_def)

lemma slice_all [simp]: "length xs = n \<Longrightarrow> slice 0 n xs = xs"
  by (simp add: slice_def)

lemma slice_0: "slice 0 n xs = take n xs"
  by (simp add: slice_def)

lemma slice_slice:
  "p + n \<le> m \<Longrightarrow> slice p n (slice q m xs) = slice (q + p) n xs"
  by (simp add: slice_def drop_take min_def add.commute)

lemma slice_add: "slice p (a + b) xs = slice p a xs @ slice (p + a) b xs"
  by (simp add: slice_def take_add add.commute)

lemma length_overwrite [simp]:
  "pos + length ys \<le> length xs \<Longrightarrow> length (overwrite pos ys xs) = length xs"
  by (simp add: overwrite_def)

lemma overwrite_append:
  "length pre = pos \<Longrightarrow> length old = length ys \<Longrightarrow>
   overwrite pos ys (pre @ old @ post) = pre @ ys @ post"
  by (simp add: overwrite_def)

lemma overwrite_skip:
  "length pre \<le> n \<Longrightarrow> overwrite n ys (pre @ xs) = pre @ overwrite (n - length pre) ys xs"
  by (simp add: overwrite_def)

lemma overwrite_Suc_Cons: "overwrite (Suc n) ys (x # xs) = x # overwrite n ys xs"
  by (simp add: overwrite_def)

lemma overwrite_front: "overwrite 0 ys xs = ys @ drop (length ys) xs"
  by (simp add: overwrite_def)

lemma slice_overwrite_same:
  "pos + length ys \<le> length xs \<Longrightarrow> length ys = n \<Longrightarrow> slice pos n (overwrite pos ys xs) = ys"
  by (simp add: slice_def overwrite_def)

lemma slice_overwrite_before:
  assumes "p + n \<le> pos" "pos + length ys \<le> length xs"
  shows "slice p n (overwrite pos ys xs) = slice p n xs"
proof -
  have "slice p n (overwrite pos ys xs) = slice p n (take pos xs)"
    unfolding overwrite_def using assms by (intro slice_append_left) simp
  also have "\<dots> = slice p n (take pos xs @ drop pos xs)"
    using assms by (intro slice_append_left [symmetric]) simp
  finally show ?thesis by simp
qed

lemma slice_overwrite_after:
  assumes "pos + length ys \<le> p" "pos + length ys \<le> length xs"
  shows "slice p n (overwrite pos ys xs) = slice p n xs"
proof -
  have "drop p (overwrite pos ys xs) = drop (p - pos - length ys) (drop (pos + length ys) xs)"
    using assms by (simp add: overwrite_def)
  also have "\<dots> = drop p xs"
    using assms by simp
  finally show ?thesis by (simp add: slice_def)
qed

lemma nth_overwrite:
  "i < length xs \<Longrightarrow> pos + length ys \<le> length xs \<Longrightarrow>
   overwrite pos ys xs ! i = (if pos \<le> i \<and> i < pos + length ys then ys ! (i - pos) else xs ! i)"
  by (auto simp: overwrite_def nth_append)

lemma take_overwrite_before: "n \<le> pos \<Longrightarrow> pos \<le> length xs \<Longrightarrow> take n (overwrite pos ys xs) = take n xs"
  by (simp add: overwrite_def min_def)

lemma slice_split:
  "a + b \<le> length xs - p \<Longrightarrow> slice p (a + b) xs = slice p a xs @ slice (p + a) b xs"
  by (simp add: slice_def take_add add.commute)

section \<open>Ordered searches of the standard library\<close>

text \<open>
  \<open>std::lower_bound\<close> and \<open>std::upper_bound\<close> on a range that the predicate partitions return the
  first position where the predicate fails.
\<close>

definition partition_index :: "('a \<Rightarrow> bool) \<Rightarrow> 'a list \<Rightarrow> nat" where
  "partition_index P xs = length (takeWhile P xs)"

lemma partition_index_le: "partition_index P xs \<le> length xs"
  by (simp add: partition_index_def length_takeWhile_le)

lemma partition_index_before:
  "i < partition_index P xs \<Longrightarrow> P (xs ! i)"
  by (metis nth_mem partition_index_def set_takeWhileD takeWhile_nth)

lemma partition_index_at:
  "partition_index P xs < length xs \<Longrightarrow> \<not> P (xs ! partition_index P xs)"
  by (simp add: partition_index_def nth_length_takeWhile)

lemma partition_index_sorted_after:
  assumes "sorted_wrt R xs" and "\<And>x y. R x y \<Longrightarrow> P y \<Longrightarrow> P x"
    and "partition_index P xs \<le> i" and "i < length xs"
  shows "\<not> P (xs ! i)"
proof (cases "i = partition_index P xs")
  case True
  with assms(4) show ?thesis using partition_index_at by blast
next
  case False
  with assms(3) have lt: "partition_index P xs < i" by simp
  with assms(1,4) have "R (xs ! partition_index P xs) (xs ! i)"
    by (simp add: sorted_wrt_nth_less)
  with assms(2) partition_index_at lt assms(4) show ?thesis
    by (meson order.strict_trans)
qed

lemma filter_eq_take_partition:
  assumes "sorted_wrt R xs" and "\<And>x y. R x y \<Longrightarrow> P y \<Longrightarrow> P x"
  shows "filter P xs = take (partition_index P xs) xs"
  using assms
proof (induction xs)
  case Nil
  then show ?case by (simp add: partition_index_def)
next
  case (Cons x xs)
  show ?case
  proof (cases "P x")
    case True
    with Cons show ?thesis by (simp add: partition_index_def)
  next
    case False
    with Cons.prems have "\<forall>y \<in> set xs. \<not> P y" by auto
    with False show ?thesis by (simp add: partition_index_def)
  qed
qed

section \<open>Sums of lengths\<close>

lemma length_concat_take_mono:
  "i \<le> j \<Longrightarrow> length (concat (take i xs)) \<le> length (concat (take j xs))"
proof -
  assume "i \<le> j"
  then obtain k where "j = i + k" using le_Suc_ex by blast
  then show ?thesis by (simp add: take_add)
qed

lemma length_concat_take_le: "length (concat (take i xs)) \<le> length (concat xs)"
  by (metis append_take_drop_id concat_append length_append le_add1)

lemma length_concat_take_Suc:
  "i < length xs \<Longrightarrow>
   length (concat (take (Suc i) xs)) = length (concat (take i xs)) + length (xs ! i)"
  by (simp add: take_Suc_conv_app_nth)

lemma drop_concat_take:
  "drop (length (concat (take i xs))) (concat xs) = concat (drop i xs)"
  by (metis append_eq_conv_conj append_take_drop_id concat_append)

end
