(* ===== verification/PL_Text.thy ===== *)
theory PL_Text
  imports PL_Prelude "HOL-Library.Char_ord" "HOL-Library.List_Lexorder"
begin

text \<open>
  The text conversions of the C++ standard library that the sources use: \<open>std::to_string\<close>,
  \<open>std::from_chars\<close> in base ten, and the reinterpretation of a string as bytes
  (\<open>AsBytes\<close>, \<open>AsStringView\<close> of \<open>include/pulselog/base/buffer.h\<close>).
\<close>

section \<open>Strings as bytes\<close>

definition AsBytes :: "string \<Rightarrow> bytes" where
  "AsBytes s = map of_char s"

definition AsStringView :: "bytes \<Rightarrow> string" where
  "AsStringView b = map (\<lambda>w. char_of (unat w)) b"

lemma of_char_byte_inverse: "char_of (unat (of_char c :: byte)) = c"
proof -
  have "(of_char c :: byte) = word_of_nat (of_char c)"
    by (simp only: of_nat_of_char)
  then have "unat (of_char c :: byte) = take_bit LENGTH(8) (of_char c)"
    by (simp only: unsigned_of_nat) simp
  moreover have "of_char c < (2 :: nat) ^ LENGTH(8)" by simp
  ultimately show ?thesis by (simp only: take_bit_nat_eq_self) simp
qed

lemma AsStringView_AsBytes [simp, codec_simps]: "AsStringView (AsBytes s) = s"
  by (induction s) (simp_all add: AsBytes_def AsStringView_def of_char_byte_inverse)

lemma length_AsBytes [simp]: "length (AsBytes s) = length s"
  by (simp add: AsBytes_def)

lemma length_AsStringView [simp]: "length (AsStringView s) = length s"
  by (simp add: AsStringView_def)

section \<open>Decimal numbers\<close>

definition digit_char :: "nat \<Rightarrow> char" where
  "digit_char d = char_of (48 + d)"

definition is_digit :: "char \<Rightarrow> bool" where
  "is_digit c \<longleftrightarrow> 48 \<le> (of_char c :: nat) \<and> (of_char c :: nat) \<le> 57"

definition digit_val :: "char \<Rightarrow> nat" where
  "digit_val c = of_char c - 48"

fun nat_digits :: "nat \<Rightarrow> string" where
  "nat_digits n = (if n < 10 then [digit_char n] else nat_digits (n div 10) @ [digit_char (n mod 10)])"

declare nat_digits.simps [simp del]

definition to_string :: "int \<Rightarrow> string" where
  "to_string i = (if i < 0 then CHR ''-'' # nat_digits (nat (- i)) else nat_digits (nat i))"

definition digits_value :: "string \<Rightarrow> nat" where
  "digits_value s = foldl (\<lambda>acc c. 10 * acc + digit_val c) 0 s"

text \<open>
  \<open>std::from_chars\<close> for an integer type with range \<open>lo \<dots> hi\<close>: the longest run of digits after
  an optional minus sign (signed types only), its value and the unread rest; \<open>None\<close> when there
  is no digit or the value does not fit.
\<close>

definition from_chars :: "int \<Rightarrow> int \<Rightarrow> string \<Rightarrow> (int \<times> string) option" where
  "from_chars lo hi s =
     (let neg = (lo < 0 \<and> s \<noteq> [] \<and> hd s = CHR ''-'');
          body = (if neg then tl s else s);
          ds = takeWhile is_digit body;
          v = (if neg then - int (digits_value ds) else int (digits_value ds))
      in if ds = [] \<or> v < lo \<or> v > hi then None else Some (v, dropWhile is_digit body))"

lemma is_digit_digit_char [simp]: "d < 10 \<Longrightarrow> is_digit (digit_char d)"
  by (simp add: is_digit_def digit_char_def)

lemma digit_val_digit_char [simp]: "d < 10 \<Longrightarrow> digit_val (digit_char d) = d"
  by (simp add: digit_val_def digit_char_def)

lemma nat_digits_digits: "c \<in> set (nat_digits n) \<Longrightarrow> is_digit c"
proof (induction n rule: nat_digits.induct)
  case (1 n)
  from "1.prems" show ?case
    by (subst (asm) nat_digits.simps) (auto split: if_splits dest: "1.IH")
qed

lemma nat_digits_nonempty [simp]: "nat_digits n \<noteq> []"
  by (subst nat_digits.simps) simp

lemma digits_value_snoc: "digits_value (s @ [c]) = 10 * digits_value s + digit_val c"
  by (simp add: digits_value_def)

lemma digits_value_nat_digits [simp]: "digits_value (nat_digits n) = n"
proof (induction n rule: nat_digits.induct)
  case (1 n)
  show ?case
  proof (cases "n < 10")
    case True
    then show ?thesis by (subst nat_digits.simps) (simp add: digits_value_def)
  next
    case False
    with 1 show ?thesis by (subst nat_digits.simps) (simp add: digits_value_snoc)
  qed
qed

lemma nat_digits_inj: "nat_digits m = nat_digits n \<Longrightarrow> m = n"
  by (metis digits_value_nat_digits)

lemma takeWhile_digits_append:
  "(\<forall>c \<in> set ds. is_digit c) \<Longrightarrow> rest = [] \<or> \<not> is_digit (hd rest) \<Longrightarrow>
   takeWhile is_digit (ds @ rest) = ds \<and> dropWhile is_digit (ds @ rest) = rest"
  by (induction ds) (cases rest, auto)+

lemma not_is_digit_minus [simp]: "\<not> is_digit (CHR ''-'')"
  by (simp add: is_digit_def)

lemma hd_nat_digits_not_minus: "hd (nat_digits n) \<noteq> CHR ''-''"
  using nat_digits_digits [of "hd (nat_digits n)" n] by auto

lemma from_chars_to_string:
  assumes "lo \<le> v" "v \<le> hi" and "rest = [] \<or> \<not> is_digit (hd rest)"
  shows "from_chars lo hi (to_string v @ rest) = Some (v, rest)"
proof -
  have split: "takeWhile is_digit (nat_digits n @ rest) = nat_digits n"
    "dropWhile is_digit (nat_digits n @ rest) = rest" for n
    using takeWhile_digits_append [of "nat_digits n" rest] nat_digits_digits assms(3) by blast+
  show ?thesis
    using assms hd_nat_digits_not_minus [of "nat v"]
    by (auto simp: from_chars_def to_string_def split hd_append Let_def)
qed

end
