(* ===== verification/PL_Base.thy ===== *)
theory PL_Base
  imports PL_Text
begin

text \<open>
  Error codes, statuses and the small value types every component shares
  (\<open>include/pulselog/base/status.h\<close>, \<open>src/base/status.cc\<close>, \<open>include/pulselog/base/types.h\<close>,
  \<open>src/base/types.cc\<close>).  A fallible operation returns \<open>'a result\<close>: \<open>Inl\<close> carries the error
  code, which is all that \<open>Status::operator==\<close> compares; the diagnostic text of a status is
  modelled only where the program itself computes with it.
\<close>

section \<open>Error codes\<close>

datatype error_code =
    kOk | kUnknown | kInvalidArgument | kNotFound | kAlreadyExists | kOutOfRange | kCorruption
  | kIoError | kUnavailable | kTimeout | kBackpressure | kNotLeader | kNotEnoughReplicas
  | kProtocolError | kUnsupportedVersion | kPermissionDenied | kResourceExhausted
  | kRebalanceInProgress | kUnknownMember | kIllegalGeneration | kClosed | kWouldBlock | kInternal

type_synonym 'a result = "error_code + 'a"

definition declared_codes :: "error_code list" where
  "declared_codes =
     [kOk, kUnknown, kInvalidArgument, kNotFound, kAlreadyExists, kOutOfRange, kCorruption,
      kIoError, kUnavailable, kTimeout, kBackpressure, kNotLeader, kNotEnoughReplicas,
      kProtocolError, kUnsupportedVersion, kPermissionDenied, kResourceExhausted,
      kRebalanceInProgress, kUnknownMember, kIllegalGeneration, kClosed, kWouldBlock, kInternal]"

fun error_u16 :: "error_code \<Rightarrow> u16" where
  "error_u16 kOk = 0" | "error_u16 kUnknown = 1" | "error_u16 kInvalidArgument = 2"
| "error_u16 kNotFound = 3" | "error_u16 kAlreadyExists = 4" | "error_u16 kOutOfRange = 5"
| "error_u16 kCorruption = 6" | "error_u16 kIoError = 7" | "error_u16 kUnavailable = 8"
| "error_u16 kTimeout = 9" | "error_u16 kBackpressure = 10" | "error_u16 kNotLeader = 11"
| "error_u16 kNotEnoughReplicas = 12" | "error_u16 kProtocolError = 13"
| "error_u16 kUnsupportedVersion = 14" | "error_u16 kPermissionDenied = 15"
| "error_u16 kResourceExhausted = 16" | "error_u16 kRebalanceInProgress = 17"
| "error_u16 kUnknownMember = 18" | "error_u16 kIllegalGeneration = 19" | "error_u16 kClosed = 20"
| "error_u16 kWouldBlock = 21" | "error_u16 kInternal = 22"

text \<open>
  Reading a code off the wire (\<open>ResponseHeader::Decode\<close>): a value above \<open>kInternal\<close> degrades to
  \<open>kUnknown\<close>.
\<close>

definition error_of_u16 :: "u16 \<Rightarrow> error_code" where
  "error_of_u16 v = (if unat v \<le> 22 then declared_codes ! unat v else kUnknown)"

lemma error_of_u16_error_u16 [simp, codec_simps]: "error_of_u16 (error_u16 c) = c"
  by (cases c) (simp_all add: error_of_u16_def declared_codes_def)

fun ErrorCodeName :: "error_code \<Rightarrow> string" where
  "ErrorCodeName kOk = ''OK''"
| "ErrorCodeName kUnknown = ''UNKNOWN''"
| "ErrorCodeName kInvalidArgument = ''INVALID_ARGUMENT''"
| "ErrorCodeName kNotFound = ''NOT_FOUND''"
| "ErrorCodeName kAlreadyExists = ''ALREADY_EXISTS''"
| "ErrorCodeName kOutOfRange = ''OUT_OF_RANGE''"
| "ErrorCodeName kCorruption = ''CORRUPTION''"
| "ErrorCodeName kIoError = ''IO_ERROR''"
| "ErrorCodeName kUnavailable = ''UNAVAILABLE''"
| "ErrorCodeName kTimeout = ''TIMEOUT''"
| "ErrorCodeName kBackpressure = ''BACKPRESSURE''"
| "ErrorCodeName kNotLeader = ''NOT_LEADER''"
| "ErrorCodeName kNotEnoughReplicas = ''NOT_ENOUGH_REPLICAS''"
| "ErrorCodeName kProtocolError = ''PROTOCOL_ERROR''"
| "ErrorCodeName kUnsupportedVersion = ''UNSUPPORTED_VERSION''"
| "ErrorCodeName kPermissionDenied = ''PERMISSION_DENIED''"
| "ErrorCodeName kResourceExhausted = ''RESOURCE_EXHAUSTED''"
| "ErrorCodeName kRebalanceInProgress = ''REBALANCE_IN_PROGRESS''"
| "ErrorCodeName kUnknownMember = ''UNKNOWN_MEMBER''"
| "ErrorCodeName kIllegalGeneration = ''ILLEGAL_GENERATION''"
| "ErrorCodeName kClosed = ''CLOSED''"
| "ErrorCodeName kWouldBlock = ''WOULD_BLOCK''"
| "ErrorCodeName kInternal = ''INTERNAL''"

definition IsRetryable :: "error_code \<Rightarrow> bool" where
  "IsRetryable c \<longleftrightarrow>
     c \<in> {kUnavailable, kTimeout, kBackpressure, kNotLeader, kNotEnoughReplicas,
          kRebalanceInProgress, kWouldBlock}"

section \<open>Statuses and results\<close>

record status =
  st_code :: error_code
  st_message :: string

definition OkStatus :: status where
  "OkStatus = \<lparr>st_code = kOk, st_message = []\<rparr>"

definition Status_ok :: "status \<Rightarrow> bool" where
  "Status_ok s \<longleftrightarrow> st_code s = kOk"

definition Status_ToString :: "status \<Rightarrow> string" where
  "Status_ToString s =
     (if Status_ok s then ''OK''
      else ErrorCodeName (st_code s) @ (if st_message s = [] then [] else '': '' @ st_message s))"

definition WithContext :: "string \<Rightarrow> status \<Rightarrow> status" where
  "WithContext context s =
     (if Status_ok s then s
      else \<lparr>st_code = st_code s, st_message = context @ '': '' @ st_message s\<rparr>)"

text \<open>
  \<open>ErrnoToStatus\<close>: the errno values are those of Linux; \<open>strerror\<close> is the C library's
  description of an error number.
\<close>

definition ErrnoToCode :: "int \<Rightarrow> error_code" where
  "ErrnoToCode err =
     (if err = 2 then kNotFound
      else if err = 17 then kAlreadyExists
      else if err = 13 \<or> err = 1 then kPermissionDenied
      else if err = 28 \<or> err = 122 \<or> err = 24 \<or> err = 23 then kResourceExhausted
      else if err = 11 then kWouldBlock
      else if err = 110 then kTimeout
      else if err = 22 then kInvalidArgument
      else if err = 104 \<or> err = 32 \<or> err = 107 then kClosed
      else kIoError)"

definition ErrnoToStatus :: "(int \<Rightarrow> string) \<Rightarrow> string \<Rightarrow> int \<Rightarrow> status" where
  "ErrnoToStatus strerror what err =
     \<lparr>st_code = ErrnoToCode err,
      st_message = what @ '': '' @ strerror err @ '' (errno='' @ to_string err @ '')''\<rparr>"

text \<open>\<open>Result(Status)\<close> never carries an OK status without a value.\<close>

definition result_of_status :: "error_code \<Rightarrow> 'a result" where
  "result_of_status c = Inl (if c = kOk then kInternal else c)"

definition bind_result :: "'a result \<Rightarrow> ('a \<Rightarrow> 'b result) \<Rightarrow> 'b result" where
  "bind_result r f = (case r of Inl e \<Rightarrow> Inl e | Inr x \<Rightarrow> f x)"

lemma bind_result_simps [simp]:
  "bind_result (Inl e) f = Inl e" "bind_result (Inr x) f = f x"
  by (simp_all add: bind_result_def)

lemma bind_result_Inr: "bind_result r f = Inr y \<longleftrightarrow> (\<exists>x. r = Inr x \<and> f x = Inr y)"
  by (cases r) simp_all

section \<open>Value types\<close>

definition kInvalidOffset :: offset where "kInvalidOffset = - 1"
definition kEarliestOffset :: offset where "kEarliestOffset = - 2"
definition kLatestOffset :: offset where "kLatestOffset = - 1"
definition kMaxTopicNameLength :: nat where "kMaxTopicNameLength = 200"

datatype ack_mode = AckNone | AckLeader | AckQuorum

definition AckModeName :: "ack_mode \<Rightarrow> string" where
  "AckModeName m = (case m of AckNone \<Rightarrow> ''none'' | AckLeader \<Rightarrow> ''leader'' | AckQuorum \<Rightarrow> ''quorum'')"

definition ParseAckMode :: "string \<Rightarrow> ack_mode option" where
  "ParseAckMode text =
     (if text = ''none'' \<or> text = ''0'' then Some AckNone
      else if text = ''leader'' \<or> text = ''1'' then Some AckLeader
      else if text = ''quorum'' \<or> text = ''all'' \<or> text = ''-1'' then Some AckQuorum
      else None)"

datatype compression = CompressionNone | Lz4Like

definition CompressionName :: "compression \<Rightarrow> string" where
  "CompressionName c = (case c of CompressionNone \<Rightarrow> ''none'' | Lz4Like \<Rightarrow> ''lz4like'')"

definition ParseCompression :: "string \<Rightarrow> compression option" where
  "ParseCompression text =
     (if text = ''none'' \<or> text = ''0'' then Some CompressionNone
      else if text = ''lz4like'' \<or> text = ''lz4'' \<or> text = ''1'' then Some Lz4Like
      else None)"

lemma ParseAckMode_AckModeName: "ParseAckMode (AckModeName m) = Some m"
  by (cases m) (simp_all add: AckModeName_def ParseAckMode_def)

lemma ParseCompression_CompressionName: "ParseCompression (CompressionName c) = Some c"
  by (cases c) (simp_all add: CompressionName_def ParseCompression_def)

definition topic_char :: "char \<Rightarrow> bool" where
  "topic_char c \<longleftrightarrow>
     (CHR ''a'' \<le> c \<and> c \<le> CHR ''z'') \<or> (CHR ''A'' \<le> c \<and> c \<le> CHR ''Z'') \<or>
     (CHR ''0'' \<le> c \<and> c \<le> CHR ''9'') \<or> c = CHR ''.'' \<or> c = CHR ''_'' \<or> c = CHR ''-''"

definition IsValidTopicName :: "string \<Rightarrow> bool" where
  "IsValidTopicName name =
     (if name = [] \<or> length name > kMaxTopicNameLength then False
      else if name = ''.'' \<or> name = ''..'' then False
      else list_all topic_char name)"

text \<open>\<open>TopicPartition\<close> with its ordering: topic first, then partition index.\<close>

datatype topic_partition = TopicPartition (tp_topic: string) (tp_partition: int)

definition TopicPartition_ToString :: "topic_partition \<Rightarrow> string" where
  "TopicPartition_ToString tp = tp_topic tp @ ''-'' @ to_string (tp_partition tp)"

lemma topic_partition_eq_iff:
  "a = b \<longleftrightarrow> tp_topic a = tp_topic b \<and> tp_partition a = tp_partition b"
  by (cases a; cases b) simp

instantiation topic_partition :: linorder
begin

definition less_topic_partition :: "topic_partition \<Rightarrow> topic_partition \<Rightarrow> bool" where
  "less_topic_partition lhs rhs =
     (if tp_topic lhs \<noteq> tp_topic rhs then tp_topic lhs < tp_topic rhs
      else tp_partition lhs < tp_partition rhs)"

definition less_eq_topic_partition :: "topic_partition \<Rightarrow> topic_partition \<Rightarrow> bool" where
  "less_eq_topic_partition lhs rhs \<longleftrightarrow> lhs < rhs \<or> lhs = rhs"

instance
  by standard
    (auto simp: less_topic_partition_def less_eq_topic_partition_def topic_partition_eq_iff
      split: if_splits)

end

end
