(* ===== verification/PL_Buffer.thy ===== *)
theory PL_Buffer
  imports PL_Prelude
begin

text \<open>
  \<open>ByteBuffer\<close> and \<open>BufferPool\<close> (\<open>include/pulselog/base/buffer.h\<close>, \<open>src/base/buffer.cc\<close>): the
  growable buffer with its read and write cursors, and the bounded free list of buffers.  The
  abstraction of a buffer is its readable region; the locale \<open>byte_queue\<close> states what clients
  rely on and is interpreted on the buffer.
\<close>

section \<open>ByteBuffer\<close>

record byte_buffer =
  storage :: bytes
  read_pos :: nat
  write_pos :: nat

definition EmptyBuffer :: byte_buffer where
  "EmptyBuffer = \<lparr>storage = [], read_pos = 0, write_pos = 0\<rparr>"

text \<open>\<open>std::vector::resize\<close>: shorten, or extend with zero bytes.\<close>

definition resize :: "nat \<Rightarrow> bytes \<Rightarrow> bytes" where
  "resize n xs = take n xs @ replicate (n - length xs) 0"

definition ReadableBytes :: "byte_buffer \<Rightarrow> nat" where
  "ReadableBytes b = write_pos b - read_pos b"

definition Readable :: "byte_buffer \<Rightarrow> bytes" where
  "Readable b = slice (read_pos b) (ReadableBytes b) (storage b)"

definition Buffer_Empty :: "byte_buffer \<Rightarrow> bool" where
  "Buffer_Empty b \<longleftrightarrow> read_pos b = write_pos b"

definition Consume :: "nat \<Rightarrow> byte_buffer \<Rightarrow> byte_buffer" where
  "Consume n b =
     (let b' = b\<lparr>read_pos := read_pos b + n\<rparr>
      in if read_pos b' = write_pos b' then b'\<lparr>read_pos := 0, write_pos := 0\<rparr> else b')"

definition WritableBytes :: "byte_buffer \<Rightarrow> nat" where
  "WritableBytes b = length (storage b) - write_pos b"

text \<open>Storing bytes through \<open>WritePtr()\<close>, at distance \<open>at\<close> from it.\<close>

definition poke :: "nat \<Rightarrow> bytes \<Rightarrow> byte_buffer \<Rightarrow> byte_buffer" where
  "poke at d b = b\<lparr>storage := overwrite (write_pos b + at) d (storage b)\<rparr>"

text \<open>Running a routine on the writable region, as when \<open>WritePtr()\<close> is passed on.\<close>

definition with_write_ptr :: "(bytes \<Rightarrow> bytes) \<Rightarrow> byte_buffer \<Rightarrow> byte_buffer" where
  "with_write_ptr f b = b\<lparr>storage := take (write_pos b) (storage b) @ f (drop (write_pos b) (storage b))\<rparr>"

definition Commit :: "nat \<Rightarrow> byte_buffer \<Rightarrow> byte_buffer" where
  "Commit n b = b\<lparr>write_pos := write_pos b + n\<rparr>"

definition Compact :: "byte_buffer \<Rightarrow> byte_buffer" where
  "Compact b =
     (if read_pos b = 0 then b
      else let readable = ReadableBytes b;
               st = (if readable > 0
                     then overwrite 0 (slice (read_pos b) readable (storage b)) (storage b)
                     else storage b)
           in b\<lparr>storage := st, read_pos := 0, write_pos := readable\<rparr>)"

text \<open>
  The doubling loop of \<open>EnsureWritable\<close>; its start is 1024 or a non-empty storage size, so never
  zero.
\<close>

function grow_size :: "nat \<Rightarrow> nat \<Rightarrow> nat" where
  "grow_size new_size required =
     (if 0 < new_size \<and> new_size < required then grow_size (2 * new_size) required else new_size)"
  by auto
termination
  by (relation "measure (\<lambda>(new_size, required). required - new_size)") auto

declare grow_size.simps [simp del]

definition EnsureWritable :: "nat \<Rightarrow> byte_buffer \<Rightarrow> byte_buffer" where
  "EnsureWritable n b =
     (if WritableBytes b \<ge> n then b
      else if read_pos b > 0 \<and> length (storage b) - ReadableBytes b \<ge> n then Compact b
      else let required = ReadableBytes b + n;
               new_size = grow_size (if storage b = [] then 1024 else length (storage b)) required;
               b' = Compact b
           in b'\<lparr>storage := resize new_size (storage b')\<rparr>)"

definition Reserve :: "nat \<Rightarrow> byte_buffer \<Rightarrow> byte_buffer" where
  "Reserve capacity b =
     (if length (storage b) < capacity then b\<lparr>storage := resize capacity (storage b)\<rparr> else b)"

definition Append :: "bytes \<Rightarrow> byte_buffer \<Rightarrow> byte_buffer" where
  "Append d b =
     (if d = [] then b
      else Commit (length d) (poke 0 d (EnsureWritable (length d) b)))"

definition AppendByte :: "byte \<Rightarrow> byte_buffer \<Rightarrow> byte_buffer" where
  "AppendByte x b = Commit 1 (poke 0 [x] (EnsureWritable 1 b))"

definition Clear :: "byte_buffer \<Rightarrow> byte_buffer" where
  "Clear b = b\<lparr>read_pos := 0, write_pos := 0\<rparr>"

definition Shrink :: "nat \<Rightarrow> byte_buffer \<Rightarrow> byte_buffer" where
  "Shrink target_capacity b =
     (let b' = Compact b
      in if length (storage b') > target_capacity
         then b'\<lparr>storage := resize target_capacity (storage b')\<rparr> else b')"

definition NewBuffer :: "nat \<Rightarrow> byte_buffer" where
  "NewBuffer initial_capacity = Reserve initial_capacity EmptyBuffer"

subsection \<open>Invariant and readable region\<close>

definition buf_ok :: "byte_buffer \<Rightarrow> bool" where
  "buf_ok b \<longleftrightarrow> read_pos b \<le> write_pos b \<and> write_pos b \<le> length (storage b)"

lemma length_resize [simp]: "length (resize n xs) = n"
  by (simp add: resize_def)

lemma slice_resize: "p + n \<le> length xs \<Longrightarrow> p + n \<le> m \<Longrightarrow> slice p n (resize m xs) = slice p n xs"
  by (simp add: slice_def resize_def drop_take min_def)

lemma buf_ok_Empty [simp]: "buf_ok EmptyBuffer" "Readable EmptyBuffer = []"
  by (simp_all add: buf_ok_def EmptyBuffer_def Readable_def ReadableBytes_def slice_def)

lemma length_Readable: "buf_ok b \<Longrightarrow> length (Readable b) = ReadableBytes b"
  by (auto simp: buf_ok_def Readable_def ReadableBytes_def)

lemma buf_ok_Consume [simp]: "buf_ok b \<Longrightarrow> n \<le> ReadableBytes b \<Longrightarrow> buf_ok (Consume n b)"
  by (auto simp: buf_ok_def Consume_def ReadableBytes_def Let_def)

lemma Readable_Consume [buffer_simps]:
  "buf_ok b \<Longrightarrow> n \<le> ReadableBytes b \<Longrightarrow> Readable (Consume n b) = drop n (Readable b)"
  by (auto simp: buf_ok_def Consume_def ReadableBytes_def Readable_def Let_def slice_def drop_take
      add.commute)

lemma buf_ok_Compact [simp]: "buf_ok b \<Longrightarrow> buf_ok (Compact b)"
  by (auto simp: buf_ok_def Compact_def ReadableBytes_def Let_def)

lemma length_storage_Compact [simp]: "buf_ok b \<Longrightarrow> length (storage (Compact b)) = length (storage b)"
  by (auto simp: buf_ok_def Compact_def ReadableBytes_def Let_def)

lemma Readable_Compact [buffer_simps]: "buf_ok b \<Longrightarrow> Readable (Compact b) = Readable b"
  by (auto simp: buf_ok_def Compact_def ReadableBytes_def Readable_def Let_def
      slice_def overwrite_def)

lemma write_pos_Compact: "buf_ok b \<Longrightarrow> write_pos (Compact b) = ReadableBytes b"
  by (auto simp: Compact_def ReadableBytes_def Let_def)

lemma read_pos_Compact [simp]: "read_pos (Compact b) = 0"
  by (auto simp: Compact_def Let_def)

lemma grow_size_ge: "0 < s \<Longrightarrow> s \<le> grow_size s r \<and> r \<le> grow_size s r"
proof (induction s r rule: grow_size.induct)
  case (1 s r)
  then show ?case by (subst (1 2) grow_size.simps) auto
qed

lemma buf_ok_EnsureWritable [simp]: "buf_ok b \<Longrightarrow> buf_ok (EnsureWritable n b)"
proof -
  assume ok: "buf_ok b"
  let ?s = "if storage b = [] then 1024 else length (storage b)"
  have "ReadableBytes b + n \<le> grow_size ?s (ReadableBytes b + n)"
    using grow_size_ge [of ?s "ReadableBytes b + n"] by auto
  then show ?thesis using ok buf_ok_Compact [OF ok] write_pos_Compact [OF ok]
    by (auto simp: EnsureWritable_def buf_ok_def Let_def)
qed

lemma WritableBytes_EnsureWritable: "buf_ok b \<Longrightarrow> n \<le> WritableBytes (EnsureWritable n b)"
proof -
  assume ok: "buf_ok b"
  let ?s = "if storage b = [] then 1024 else length (storage b)"
  have "ReadableBytes b + n \<le> grow_size ?s (ReadableBytes b + n)"
    using grow_size_ge [of ?s "ReadableBytes b + n"] by auto
  then show ?thesis using ok write_pos_Compact [OF ok]
    by (auto simp: EnsureWritable_def WritableBytes_def Let_def)
qed

lemma Readable_EnsureWritable [buffer_simps]: "buf_ok b \<Longrightarrow> Readable (EnsureWritable n b) = Readable b"
proof -
  assume ok: "buf_ok b"
  let ?s = "if storage b = [] then 1024 else length (storage b)"
  let ?g = "grow_size ?s (ReadableBytes b + n)"
  have g: "ReadableBytes b + n \<le> ?g"
    using grow_size_ge [of ?s "ReadableBytes b + n"] by auto
  have r: "ReadableBytes b \<le> length (storage b)"
    using ok by (auto simp: buf_ok_def ReadableBytes_def)
  have "Readable (Compact b\<lparr>storage := resize ?g (storage (Compact b))\<rparr>) = Readable (Compact b)"
    using ok g r write_pos_Compact [OF ok]
    by (simp add: Readable_def ReadableBytes_def slice_resize)
  then show ?thesis using ok
    by (auto simp: EnsureWritable_def Let_def Readable_Compact)
qed

lemma poke_Commit:
  assumes "buf_ok b" "length d \<le> WritableBytes b"
  shows "buf_ok (Commit (length d) (poke 0 d b))"
    and "Readable (Commit (length d) (poke 0 d b)) = Readable b @ d"
proof -
  show "buf_ok (Commit (length d) (poke 0 d b))"
    using assms by (auto simp: buf_ok_def Commit_def poke_def WritableBytes_def)
  let ?r = "write_pos b - read_pos b"
  have "slice (read_pos b) (?r + length d) (overwrite (write_pos b) d (storage b)) =
      slice (read_pos b) ?r (overwrite (write_pos b) d (storage b)) @
      slice (read_pos b + ?r) (length d) (overwrite (write_pos b) d (storage b))"
    using assms by (intro slice_split) (auto simp: buf_ok_def WritableBytes_def)
  then show "Readable (Commit (length d) (poke 0 d b)) = Readable b @ d"
    using assms
    by (auto simp: buf_ok_def Commit_def poke_def WritableBytes_def Readable_def ReadableBytes_def
        slice_overwrite_before slice_overwrite_same)
qed

lemma with_write_ptr_poke:
  assumes "buf_ok b" "length d \<le> WritableBytes b"
    and "f (drop (write_pos b) (storage b)) = d @ drop (length d) (drop (write_pos b) (storage b))"
  shows "with_write_ptr f b = poke 0 d b"
  using assms by (simp add: with_write_ptr_def poke_def overwrite_def add.commute)

lemma buf_ok_Append [simp]: "buf_ok b \<Longrightarrow> buf_ok (Append d b)"
  by (simp add: Append_def poke_Commit(1) WritableBytes_EnsureWritable)

lemma Readable_Append [simp, buffer_simps]: "buf_ok b \<Longrightarrow> Readable (Append d b) = Readable b @ d"
  by (simp add: Append_def poke_Commit(2) WritableBytes_EnsureWritable Readable_EnsureWritable)

lemma AppendByte_Append: "AppendByte x b = Append [x] b"
  by (simp add: AppendByte_def Append_def)

lemma buf_ok_Clear [simp]: "buf_ok (Clear b)" "Readable (Clear b) = []"
  by (simp_all add: buf_ok_def Clear_def Readable_def ReadableBytes_def slice_def)

lemma buf_ok_Reserve [simp]: "buf_ok b \<Longrightarrow> buf_ok (Reserve n b)"
  by (auto simp: buf_ok_def Reserve_def)

lemma Readable_Reserve [buffer_simps]: "buf_ok b \<Longrightarrow> Readable (Reserve n b) = Readable b"
  by (auto simp: buf_ok_def Reserve_def Readable_def ReadableBytes_def slice_resize)

section \<open>The contract of a byte queue\<close>

text \<open>
  What the codec, the connections and the log reader rely on: appended bytes join the tail of
  the readable region, consumed bytes leave its head, and making room changes nothing.
\<close>

locale byte_queue =
  fixes inv :: "'b \<Rightarrow> bool" and readable :: "'b \<Rightarrow> bytes"
    and append :: "bytes \<Rightarrow> 'b \<Rightarrow> 'b" and consume :: "nat \<Rightarrow> 'b \<Rightarrow> 'b"
    and ensure :: "nat \<Rightarrow> 'b \<Rightarrow> 'b"
  assumes inv_append: "inv b \<Longrightarrow> inv (append d b)"
    and inv_consume: "inv b \<Longrightarrow> n \<le> length (readable b) \<Longrightarrow> inv (consume n b)"
    and inv_ensure: "inv b \<Longrightarrow> inv (ensure n b)"
    and readable_append: "inv b \<Longrightarrow> readable (append d b) = readable b @ d"
    and readable_consume:
      "inv b \<Longrightarrow> n \<le> length (readable b) \<Longrightarrow> readable (consume n b) = drop n (readable b)"
    and readable_ensure: "inv b \<Longrightarrow> readable (ensure n b) = readable b"

datatype buf_op = OpAppend bytes | OpConsume nat | OpEnsure nat

fun spec_run :: "bytes \<Rightarrow> buf_op list \<Rightarrow> bytes option" where
  "spec_run q [] = Some q"
| "spec_run q (OpAppend d # ops) = spec_run (q @ d) ops"
| "spec_run q (OpConsume n # ops) = (if n \<le> length q then spec_run (drop n q) ops else None)"
| "spec_run q (OpEnsure n # ops) = spec_run q ops"

fun run_ops :: "(bytes \<Rightarrow> 'b \<Rightarrow> 'b) \<Rightarrow> (nat \<Rightarrow> 'b \<Rightarrow> 'b) \<Rightarrow> (nat \<Rightarrow> 'b \<Rightarrow> 'b) \<Rightarrow> buf_op list \<Rightarrow> 'b \<Rightarrow> 'b" where
  "run_ops app cons ens [] b = b"
| "run_ops app cons ens (OpAppend d # ops) b = run_ops app cons ens ops (app d b)"
| "run_ops app cons ens (OpConsume n # ops) b = run_ops app cons ens ops (cons n b)"
| "run_ops app cons ens (OpEnsure n # ops) b = run_ops app cons ens ops (ens n b)"

context byte_queue
begin

lemma run_refines:
  "inv b \<Longrightarrow> spec_run (readable b) ops = Some q \<Longrightarrow>
   inv (run_ops append consume ensure ops b) \<and> readable (run_ops append consume ensure ops b) = q"
proof (induction ops arbitrary: b)
  case Nil
  then show ?case by simp
next
  case (Cons op ops)
  then show ?case
    by (cases op) (auto simp: inv_append inv_consume inv_ensure readable_append readable_consume
        readable_ensure split: if_splits)
qed

end

interpretation buffer: byte_queue buf_ok Readable Append Consume EnsureWritable
  by unfold_locales (simp_all add: buffer_simps length_Readable)

section \<open>BufferPool\<close>

record pool_options =
  max_pooled :: nat
  default_capacity :: nat
  max_retained_capacity :: nat

record pool_stats =
  acquires :: nat
  hits :: nat
  releases :: nat
  discards :: nat
  pooled :: nat

record buffer_pool =
  free_list :: "byte_buffer list"
  pool_opts :: pool_options
  pool_stat :: pool_stats

definition DefaultPoolOptions :: pool_options where
  "DefaultPoolOptions =
     \<lparr>max_pooled = 256, default_capacity = 64 * 1024, max_retained_capacity = 1024 * 1024\<rparr>"

definition NewPool :: "pool_options \<Rightarrow> buffer_pool" where
  "NewPool opts =
     \<lparr>free_list = [], pool_opts = opts,
      pool_stat = \<lparr>acquires = 0, hits = 0, releases = 0, discards = 0, pooled = 0\<rparr>\<rparr>"

definition Acquire :: "nat \<Rightarrow> buffer_pool \<Rightarrow> byte_buffer \<times> buffer_pool" where
  "Acquire min_capacity p =
     (let capacity = max min_capacity (default_capacity (pool_opts p));
          s = (pool_stat p)\<lparr>acquires := acquires (pool_stat p) + 1\<rparr>
      in if free_list p \<noteq> []
         then let buffer = last (free_list p);
                  rest = butlast (free_list p);
                  s' = s\<lparr>hits := hits s + 1, pooled := length rest\<rparr>
              in (Reserve capacity (Clear buffer), p\<lparr>free_list := rest, pool_stat := s'\<rparr>)
         else (NewBuffer capacity, p\<lparr>pool_stat := s\<rparr>))"

definition Release :: "byte_buffer option \<Rightarrow> buffer_pool \<Rightarrow> buffer_pool" where
  "Release buffer p =
     (case buffer of None \<Rightarrow> p
      | Some b0 \<Rightarrow>
          let b = Clear b0;
              s = (pool_stat p)\<lparr>releases := releases (pool_stat p) + 1\<rparr>
          in if length (free_list p) \<ge> max_pooled (pool_opts p)
             then p\<lparr>pool_stat := s\<lparr>discards := discards s + 1\<rparr>\<rparr>
             else let b' = (if length (storage b) > max_retained_capacity (pool_opts p)
                            then Shrink (default_capacity (pool_opts p)) b else b);
                      fl = free_list p @ [b']
                  in p\<lparr>free_list := fl, pool_stat := s\<lparr>pooled := length fl\<rparr>\<rparr>)"

definition GetStats :: "buffer_pool \<Rightarrow> pool_stats" where
  "GetStats p = (pool_stat p)\<lparr>pooled := length (free_list p)\<rparr>"

definition pool_ok :: "buffer_pool \<Rightarrow> bool" where
  "pool_ok p \<longleftrightarrow>
     length (free_list p) \<le> max_pooled (pool_opts p) \<and>
     hits (pool_stat p) \<le> acquires (pool_stat p) \<and>
     discards (pool_stat p) \<le> releases (pool_stat p) \<and>
     list_all (\<lambda>b. buf_ok b \<and> Readable b = [] \<and>
        length (storage b) \<le> max (max_retained_capacity (pool_opts p)) (default_capacity (pool_opts p)))
       (free_list p)"

datatype pool_op = OpAcquire nat | OpRelease byte_buffer

fun pool_step :: "pool_op \<Rightarrow> buffer_pool \<Rightarrow> buffer_pool" where
  "pool_step (OpAcquire n) p = snd (Acquire n p)"
| "pool_step (OpRelease b) p = Release (Some b) p"

lemma pool_ok_New [simp]: "pool_ok (NewPool opts)"
  by (simp add: pool_ok_def NewPool_def)

lemma pool_ok_Acquire: "pool_ok p \<Longrightarrow> pool_ok (snd (Acquire n p))"
  by (auto simp: pool_ok_def Acquire_def Let_def list_all_iff dest: in_set_butlastD)

lemma Shrink_Clear:
  "buf_ok (Shrink n (Clear b))" "Readable (Shrink n (Clear b)) = []"
  "length (storage (Shrink n (Clear b))) \<le> n"
  by (auto simp: Shrink_def Clear_def Compact_def Let_def buf_ok_def Readable_def ReadableBytes_def
      slice_def)

lemma length_storage_Clear [simp]: "length (storage (Clear b)) = length (storage b)"
  by (simp add: Clear_def)

lemma pool_ok_Release: "pool_ok p \<Longrightarrow> pool_ok (Release b p)"
  using Shrink_Clear(3) [of "default_capacity (pool_opts p)"]
  by (auto simp: pool_ok_def Release_def Let_def Shrink_Clear le_max_iff_disj list_all_iff
      split: option.split)

lemma Acquire_buffer:
  assumes "pool_ok p"
  shows "buf_ok (fst (Acquire n p))" and "Readable (fst (Acquire n p)) = []"
    and "max n (default_capacity (pool_opts p)) \<le> length (storage (fst (Acquire n p)))"
  by (auto simp: Acquire_def Let_def NewBuffer_def Readable_Reserve Reserve_def EmptyBuffer_def)
    (auto simp: buf_ok_def Clear_def Readable_def ReadableBytes_def slice_def)

lemma pool_run_ok: "pool_ok p \<Longrightarrow> pool_ok (fold pool_step ops p)"
proof (induction ops arbitrary: p)
  case (Cons op ops)
  then show ?case by (cases op) (simp_all add: pool_ok_Acquire pool_ok_Release)
qed simp

lemma pool_opts_run: "pool_opts (fold pool_step ops p) = pool_opts p"
proof (induction ops arbitrary: p)
  case (Cons op ops)
  then show ?case by (cases op) (simp_all add: Acquire_def Release_def Let_def)
qed simp

section \<open>Properties\<close>

text \<open>
  C31: a \<open>ByteBuffer\<close> is a first-in first-out byte queue.  Whatever sequence of appends, consumes
  (never more than is readable) and reservations runs on an empty buffer, its cursors stay in
  bounds and its readable region is exactly the bytes appended and not yet consumed, through
  every compaction and reallocation.
\<close>

theorem ByteBuffer_is_byte_queue:
  assumes "spec_run [] ops = Some q"
  shows "buf_ok (run_ops Append Consume EnsureWritable ops EmptyBuffer) \<and>
         Readable (run_ops Append Consume EnsureWritable ops EmptyBuffer) = q"
  using buffer.run_refines [of EmptyBuffer ops q] assms by simp

theorem ByteBuffer_is_byte_queue_witness:
  "Readable (run_ops Append Consume EnsureWritable
      [OpAppend [1, 2, 3], OpConsume 2, OpAppend [4], OpEnsure 2000, OpConsume 1] EmptyBuffer) = [4]"
  using ByteBuffer_is_byte_queue
    [of "[OpAppend [1, 2, 3], OpConsume 2, OpAppend [4], OpEnsure 2000, OpConsume 1]" "[4]"]
  by simp

text \<open>
  C40: the buffer pool stays bounded.  After any sequence of acquisitions and releases it retains
  at most \<open>max_pooled\<close> buffers, none larger than the retention limit (or the default capacity),
  and the next acquisition returns an empty buffer of at least the requested capacity.
\<close>

theorem BufferPool_bounded:
  "let p = fold pool_step ops (NewPool opts); b = fst (Acquire n p)
   in length (free_list p) \<le> max_pooled opts \<and>
      list_all (\<lambda>b. length (storage b) \<le> max (max_retained_capacity opts) (default_capacity opts))
        (free_list p) \<and>
      Readable b = [] \<and> n \<le> length (storage b)"
proof -
  let ?p = "fold pool_step ops (NewPool opts)"
  have ok: "pool_ok ?p" by (rule pool_run_ok) simp
  have "pool_opts ?p = opts" by (simp add: pool_opts_run) (simp add: NewPool_def)
  with ok Acquire_buffer [OF ok, of n] show ?thesis
    by (simp add: Let_def pool_ok_def list_all_iff)
qed

end
