(* ===== verification/PL_Endian.thy ===== *)
theory PL_Endian
  imports PL_Prelude
begin

text \<open>
  Little-endian loads and stores and the zig-zag transform
  (\<open>include/pulselog/base/endian.h\<close>).  \<open>StoreLe_host\<close> and \<open>LoadLe_host\<close> follow the template
  functions on either kind of host; the theorems show that both kinds produce the same bytes,
  so the other theories use \<open>StoreLe16\<close>, \<open>StoreLe32\<close>, \<open>StoreLe64\<close> and their loads.
\<close>

section \<open>Bytes of a word\<close>

definition le_bytes :: "nat \<Rightarrow> 'a::len word \<Rightarrow> bytes" where
  "le_bytes n w = map (\<lambda>i. ucast (drop_bit (8 * i) w)) [0..<n]"

definition le_word :: "bytes \<Rightarrow> 'a::len word" where
  "le_word bs = foldr (\<lambda>b acc. push_bit 8 acc OR ucast b) bs 0"

lemma length_le_bytes [simp]: "length (le_bytes n w) = n"
  by (simp add: le_bytes_def)

lemma bit_le_word:
  "bit (le_word bs :: 'a::len word) k \<longleftrightarrow>
     k < LENGTH('a) \<and> k div 8 < length bs \<and> bit (bs ! (k div 8)) (k mod 8)"
proof (induction bs arbitrary: k)
  case Nil
  then show ?case by (simp add: le_word_def)
next
  case (Cons b bs)
  have step: "(le_word (b # bs) :: 'a word) = push_bit 8 (le_word bs) OR ucast b"
    by (simp add: le_word_def)
  show ?case
  proof (cases "k < 8")
    case True
    then show ?thesis
      by (auto simp: step bit_or_iff bit_push_bit_iff bit_ucast_iff)
  next
    case False
    then have "\<not> bit b k"
      using bit_imp_le_length [of b k] by auto
    moreover have "k div 8 = Suc ((k - 8) div 8)" and "(k - 8) mod 8 = k mod 8"
      using False by (simp_all add: le_div_geq le_mod_geq)
    ultimately show ?thesis using False Cons.IH [of "k - 8"]
      by (auto simp: step bit_or_iff bit_push_bit_iff bit_ucast_iff)
  qed
qed

lemma le_word_le_bytes:
  assumes "LENGTH('a::len) \<le> 8 * n"
  shows "le_word (le_bytes n (w :: 'a word)) = w"
proof (rule bit_word_eqI)
  fix k assume "k < LENGTH('a)"
  with assms have "k div 8 < n" by (simp add: less_mult_imp_div_less mult.commute)
  then show "bit (le_word (le_bytes n w) :: 'a word) k = bit w k"
    using \<open>k < LENGTH('a)\<close>
    by (simp add: bit_le_word le_bytes_def bit_ucast_iff bit_drop_bit_eq)
qed

lemma le_bytes_le_word:
  assumes "length bs = n" "LENGTH('a::len) = 8 * n"
  shows "le_bytes n (le_word bs :: 'a word) = bs"
proof (rule nth_equalityI)
  show "length (le_bytes n (le_word bs :: 'a word)) = length bs"
    using assms by simp
next
  fix i assume "i < length (le_bytes n (le_word bs :: 'a word))"
  then have i: "i < n" by simp
  show "le_bytes n (le_word bs :: 'a word) ! i = bs ! i"
  proof (rule bit_word_eqI)
    fix k assume k: "k < LENGTH(8)"
    then have "(8 * i + k) div 8 = i" "(8 * i + k) mod 8 = k" "8 * i + k < 8 * n"
      using i by simp_all
    then show "bit (le_bytes n (le_word bs :: 'a word) ! i) k = bit (bs ! i) k"
      using i k assms by (simp add: le_bytes_def bit_ucast_iff bit_drop_bit_eq bit_le_word)
  qed
qed

section \<open>Host order\<close>

datatype endian = Little | Big

text \<open>The object representation \<open>memcpy\<close> sees.\<close>

definition native_bytes :: "endian \<Rightarrow> nat \<Rightarrow> 'a::len word \<Rightarrow> bytes" where
  "native_bytes e n v = (case e of Little \<Rightarrow> le_bytes n v | Big \<Rightarrow> rev (le_bytes n v))"

definition native_word :: "endian \<Rightarrow> bytes \<Rightarrow> 'a::len word" where
  "native_word e bs = (case e of Little \<Rightarrow> le_word bs | Big \<Rightarrow> le_word (rev bs))"

definition ByteSwap :: "nat \<Rightarrow> 'a::len word \<Rightarrow> 'a word" where
  "ByteSwap n v = le_word (rev (le_bytes n v))"

definition StoreLe_host :: "endian \<Rightarrow> nat \<Rightarrow> 'a::len word \<Rightarrow> bytes" where
  "StoreLe_host e n value =
     (let value = (if e = Big then ByteSwap n value else value) in native_bytes e n value)"

definition LoadLe_host :: "endian \<Rightarrow> nat \<Rightarrow> bytes \<Rightarrow> 'a::len word" where
  "LoadLe_host e n src =
     (let value = native_word e (take n src) in if e = Big then ByteSwap n value else value)"

definition StoreLe16 :: "u16 \<Rightarrow> bytes" where "StoreLe16 v = le_bytes 2 v"
definition StoreLe32 :: "u32 \<Rightarrow> bytes" where "StoreLe32 v = le_bytes 4 v"
definition StoreLe64 :: "u64 \<Rightarrow> bytes" where "StoreLe64 v = le_bytes 8 v"
definition LoadLe16 :: "bytes \<Rightarrow> u16" where "LoadLe16 src = le_word (take 2 src)"
definition LoadLe32 :: "bytes \<Rightarrow> u32" where "LoadLe32 src = le_word (take 4 src)"
definition LoadLe64 :: "bytes \<Rightarrow> u64" where "LoadLe64 src = le_word (take 8 src)"

definition StoreLeI16 :: "int \<Rightarrow> bytes" where "StoreLeI16 v = StoreLe16 (word_of_int v)"
definition StoreLeI32 :: "int \<Rightarrow> bytes" where "StoreLeI32 v = StoreLe32 (word_of_int v)"
definition StoreLeI64 :: "int \<Rightarrow> bytes" where "StoreLeI64 v = StoreLe64 (word_of_int v)"
definition LoadLeI16 :: "bytes \<Rightarrow> int" where "LoadLeI16 src = sint (LoadLe16 src)"
definition LoadLeI32 :: "bytes \<Rightarrow> int" where "LoadLeI32 src = sint (LoadLe32 src)"
definition LoadLeI64 :: "bytes \<Rightarrow> int" where "LoadLeI64 src = sint (LoadLe64 src)"

definition is_i64 :: "int \<Rightarrow> bool" where "is_i64 v \<longleftrightarrow> - (2 ^ 63) \<le> v \<and> v < 2 ^ 63"
definition is_i32 :: "int \<Rightarrow> bool" where "is_i32 v \<longleftrightarrow> - (2 ^ 31) \<le> v \<and> v < 2 ^ 31"
definition is_i16 :: "int \<Rightarrow> bool" where "is_i16 v \<longleftrightarrow> - (2 ^ 15) \<le> v \<and> v < 2 ^ 15"

lemma host_independent:
  assumes "LENGTH('a::len) = 8 * n"
  shows "StoreLe_host e n (v :: 'a word) = le_bytes n v"
    and "n \<le> length src \<Longrightarrow> (LoadLe_host e n src :: 'a word) = le_word (take n src)"
proof -
  show "StoreLe_host e n (v :: 'a word) = le_bytes n v"
    using assms by (cases e) (simp_all add: StoreLe_host_def native_bytes_def ByteSwap_def le_bytes_le_word)
  show "(LoadLe_host e n src :: 'a word) = le_word (take n src)" if "n \<le> length src"
    using assms that
    by (cases e) (simp_all add: LoadLe_host_def native_word_def ByteSwap_def le_bytes_le_word)
qed

lemma length_StoreLe [simp]:
  "length (StoreLe16 a) = 2" "length (StoreLe32 b) = 4" "length (StoreLe64 c) = 8"
  "length (StoreLeI16 x) = 2" "length (StoreLeI32 y) = 4" "length (StoreLeI64 z) = 8"
  by (simp_all add: StoreLe16_def StoreLe32_def StoreLe64_def StoreLeI16_def StoreLeI32_def
      StoreLeI64_def)

lemma Load_Store [simp, codec_simps]:
  "LoadLe16 (StoreLe16 a @ r) = a" "LoadLe32 (StoreLe32 b @ r) = b" "LoadLe64 (StoreLe64 c @ r) = c"
  by (simp_all add: LoadLe16_def LoadLe32_def LoadLe64_def StoreLe16_def StoreLe32_def
      StoreLe64_def le_word_le_bytes)

lemma Load_Store_exact [simp, codec_simps]:
  "LoadLe16 (StoreLe16 a) = a" "LoadLe32 (StoreLe32 b) = b" "LoadLe64 (StoreLe64 c) = c"
  using Load_Store [where r = "[]"] by simp_all

lemma Store_Load:
  "length bs = 2 \<Longrightarrow> StoreLe16 (LoadLe16 bs) = bs"
  "length bs = 4 \<Longrightarrow> StoreLe32 (LoadLe32 bs) = bs"
  "length bs = 8 \<Longrightarrow> StoreLe64 (LoadLe64 bs) = bs"
  by (simp_all add: LoadLe16_def LoadLe32_def LoadLe64_def StoreLe16_def StoreLe32_def
      StoreLe64_def le_bytes_le_word)

lemma sint_word_of_int_range:
  "- (2 ^ (LENGTH('a) - 1)) \<le> v \<Longrightarrow> v < 2 ^ (LENGTH('a) - 1) \<Longrightarrow>
   sint (word_of_int v :: 'a::len word) = v"
  by (simp add: signed_of_int signed_take_bit_int_eq_self)

lemma LoadI_StoreI [simp, codec_simps]:
  "is_i16 x \<Longrightarrow> LoadLeI16 (StoreLeI16 x @ r) = x"
  "is_i32 y \<Longrightarrow> LoadLeI32 (StoreLeI32 y @ r) = y"
  "is_i64 z \<Longrightarrow> LoadLeI64 (StoreLeI64 z @ r) = z"
  by (simp_all add: LoadLeI16_def LoadLeI32_def LoadLeI64_def StoreLeI16_def StoreLeI32_def
      StoreLeI64_def is_i16_def is_i32_def is_i64_def sint_word_of_int_range)

lemma LoadI_StoreI_exact [simp, codec_simps]:
  "is_i16 x \<Longrightarrow> LoadLeI16 (StoreLeI16 x) = x"
  "is_i32 y \<Longrightarrow> LoadLeI32 (StoreLeI32 y) = y"
  "is_i64 z \<Longrightarrow> LoadLeI64 (StoreLeI64 z) = z"
  using LoadI_StoreI [where r = "[]"] by simp_all

lemma is_i_sint [simp]: "is_i16 (sint (a :: u16))" "is_i32 (sint (b :: u32))" "is_i64 (sint (c :: u64))"
  using sint_range_size [of a] sint_range_size [of b] sint_range_size [of c]
  by (simp_all add: is_i16_def is_i32_def is_i64_def word_size)

section \<open>Zig-zag\<close>

definition ZigZagEncode :: "int \<Rightarrow> u64" where
  "ZigZagEncode v = push_bit 1 (word_of_int v) XOR word_of_int (drop_bit 63 v)"

definition ZigZagDecode :: "u64 \<Rightarrow> int" where
  "ZigZagDecode v = sint (drop_bit 1 v XOR (NOT (v AND 1) + 1))"

lemma neg_bit_word: "NOT ((w :: 'a::len word) AND 1) + 1 = (if odd w then - 1 else 0)"
  by (simp add: and_one_eq mod_2_eq_odd minus_eq_not_plus_1 [symmetric])

lemma ZigZag_word_roundtrip:
  fixes w :: u64
  shows "drop_bit 1 (push_bit 1 w XOR (if bit w 63 then - 1 else 0)) XOR (if bit w 63 then - 1 else 0) = w"
proof (rule bit_word_eqI)
  fix k assume k: "k < LENGTH(64)"
  show "bit (drop_bit 1 (push_bit 1 w XOR (if bit w 63 then - 1 else 0)) XOR
             (if bit w 63 then - 1 else 0)) k = bit w k"
  proof (cases "k = 63")
    case True
    then show ?thesis
      by (auto simp: bit_xor_iff bit_drop_bit_eq bit_push_bit_iff dest: bit_imp_le_length)
  next
    case False
    with k have "Suc k < 64" by simp
    with k show ?thesis
      by (auto simp: bit_xor_iff bit_drop_bit_eq bit_double_iff mult.commute [of w 2])
  qed
qed

lemma ZigZagEncode_alt:
  assumes "is_i64 v"
  shows "ZigZagEncode v = push_bit 1 (word_of_int v) XOR (if bit (word_of_int v :: u64) 63 then - 1 else 0)"
proof -
  have "bit (word_of_int v :: u64) 63 \<longleftrightarrow> v < 0"
    using assms bit_last_iff [of "word_of_int v :: u64"]
    by (simp add: is_i64_def sint_word_of_int_range)
  moreover have "drop_bit 63 v = (if v < 0 then - 1 else 0)"
    using assms by (auto simp: is_i64_def drop_bit_eq_div intro: div_eq_minus1)
  ultimately show ?thesis by (simp add: ZigZagEncode_def)
qed

lemma ZigZag_roundtrip:
  assumes "is_i64 v"
  shows "ZigZagDecode (ZigZagEncode v) = v"
proof -
  let ?w = "word_of_int v :: u64"
  have odd: "odd (ZigZagEncode v) \<longleftrightarrow> bit ?w 63"
    by (auto simp: ZigZagEncode_alt [OF assms] even_xor_iff)
  have "ZigZagDecode (ZigZagEncode v) = sint ?w"
    unfolding ZigZagDecode_def neg_bit_word odd
    unfolding ZigZagEncode_alt [OF assms] ZigZag_word_roundtrip ..
  with assms show ?thesis by (simp add: sint_word_of_int_range is_i64_def)
qed

end
