(* ===== verification/PL_Crc32c.thy ===== *)
theory PL_Crc32c
  imports PL_Endian
begin

text \<open>
  CRC-32C (\<open>src/base/crc32c.cc\<close>): the slicing-by-8 tables and software loop, the SSE4.2 and
  AArch64 loops with their instructions as parameters, and the dispatcher.  The reference is the
  bit-serial shift register \<open>crc32c_ref\<close>; every implementation is proved equal to it.
\<close>

section \<open>Definitions\<close>

definition kPoly :: u32 where
  "kPoly = 0x82F63B78"

definition bit_step :: "u32 \<Rightarrow> u32" where
  "bit_step crc = drop_bit 1 crc XOR (kPoly AND (NOT (crc AND 1) + 1))"

definition table0 :: "u32 \<Rightarrow> u32" where
  "table0 i = (bit_step ^^ 8) i"

definition table_next :: "u32 \<Rightarrow> u32" where
  "table_next crc = table0 (crc AND 0xFF) XOR drop_bit 8 crc"

text \<open>The entry \<open>kTables[k][i]\<close> that \<open>MakeTables\<close> computes.\<close>

definition kTables :: "nat \<Rightarrow> u32 \<Rightarrow> u32" where
  "kTables k i = (table_next ^^ k) (table0 i)"

definition slice8_step :: "u32 \<Rightarrow> bytes \<Rightarrow> u32" where
  "slice8_step crc0 p =
     (let crc = crc0 XOR LoadLe32 p;
          nxt = LoadLe32 (drop 4 p)
      in kTables 7 (crc AND 0xFF) XOR kTables 6 (drop_bit 8 crc AND 0xFF) XOR
         kTables 5 (drop_bit 16 crc AND 0xFF) XOR kTables 4 (drop_bit 24 crc AND 0xFF) XOR
         kTables 3 (nxt AND 0xFF) XOR kTables 2 (drop_bit 8 nxt AND 0xFF) XOR
         kTables 1 (drop_bit 16 nxt AND 0xFF) XOR kTables 0 (drop_bit 24 nxt AND 0xFF))"

fun slice8_loop :: "u32 \<Rightarrow> bytes \<Rightarrow> u32 \<times> bytes" where
  "slice8_loop crc p = (if 8 \<le> length p then slice8_loop (slice8_step crc p) (drop 8 p) else (crc, p))"

declare slice8_loop.simps [simp del]

fun byte_loop :: "u32 \<Rightarrow> bytes \<Rightarrow> u32" where
  "byte_loop crc [] = crc"
| "byte_loop crc (b # p) = byte_loop (kTables 0 ((crc XOR ucast b) AND 0xFF) XOR drop_bit 8 crc) p"

definition Crc32cSoftware :: "bytes \<Rightarrow> u32 \<Rightarrow> u32" where
  "Crc32cSoftware data seed =
     (let (crc, p) = slice8_loop (NOT seed) data in NOT (byte_loop crc p))"

text \<open>The hardware loops, over the instructions they call.\<close>

fun sse_align_loop :: "(u32 \<Rightarrow> byte \<Rightarrow> u32) \<Rightarrow> nat \<Rightarrow> u32 \<Rightarrow> bytes \<Rightarrow> u32 \<times> bytes" where
  "sse_align_loop crc8 addr crc [] = (crc, [])"
| "sse_align_loop crc8 addr crc (b # p) =
     (if addr mod 8 \<noteq> 0 then sse_align_loop crc8 (addr + 1) (crc8 crc b) p else (crc, b # p))"

fun word_loop :: "(u32 \<Rightarrow> u64 \<Rightarrow> u32) \<Rightarrow> u32 \<Rightarrow> bytes \<Rightarrow> u32 \<times> bytes" where
  "word_loop crc64 crc p =
     (if 8 \<le> length p then word_loop crc64 (crc64 crc (LoadLe64 p)) (drop 8 p) else (crc, p))"

declare word_loop.simps [simp del]

definition Crc32cSse42 ::
  "(u32 \<Rightarrow> byte \<Rightarrow> u32) \<Rightarrow> (u64 \<Rightarrow> u64 \<Rightarrow> u64) \<Rightarrow> nat \<Rightarrow> bytes \<Rightarrow> u32 \<Rightarrow> u32" where
  "Crc32cSse42 mm_crc32_u8 mm_crc32_u64 addr data seed =
     (let (crc1, p1) = sse_align_loop mm_crc32_u8 addr (NOT seed) data;
          (crc2, p2) = word_loop (\<lambda>crc word. ucast (mm_crc32_u64 (ucast crc) word)) crc1 p1
      in NOT (foldl mm_crc32_u8 crc2 p2))"

definition Crc32cArm ::
  "(u32 \<Rightarrow> u64 \<Rightarrow> u32) \<Rightarrow> (u32 \<Rightarrow> u32 \<Rightarrow> u32) \<Rightarrow> (u32 \<Rightarrow> u16 \<Rightarrow> u32) \<Rightarrow> (u32 \<Rightarrow> byte \<Rightarrow> u32) \<Rightarrow>
   bytes \<Rightarrow> u32 \<Rightarrow> u32" where
  "Crc32cArm crc32cd crc32cw crc32ch crc32cb data seed =
     (let (crc1, p1) = word_loop crc32cd (NOT seed) data;
          (crc2, p2) = (if 4 \<le> length p1 then (crc32cw crc1 (LoadLe32 p1), drop 4 p1) else (crc1, p1));
          (crc3, p3) = (if 2 \<le> length p2 then (crc32ch crc2 (LoadLe16 p2), drop 2 p2) else (crc2, p2));
          crc4 = (if length p3 = 1 then crc32cb crc3 (hd p3) else crc3)
      in NOT crc4)"

datatype crc_impl = ImplSoftware | ImplArm | ImplSse42

record crc_instructions =
  mm_crc32_u8 :: "u32 \<Rightarrow> byte \<Rightarrow> u32"
  mm_crc32_u64 :: "u64 \<Rightarrow> u64 \<Rightarrow> u64"
  arm_crc32cd :: "u32 \<Rightarrow> u64 \<Rightarrow> u32"
  arm_crc32cw :: "u32 \<Rightarrow> u32 \<Rightarrow> u32"
  arm_crc32ch :: "u32 \<Rightarrow> u16 \<Rightarrow> u32"
  arm_crc32cb :: "u32 \<Rightarrow> byte \<Rightarrow> u32"

definition Crc32c_dispatch ::
  "crc_impl \<Rightarrow> crc_instructions \<Rightarrow> nat \<Rightarrow> bytes \<Rightarrow> u32 \<Rightarrow> u32" where
  "Crc32c_dispatch kImpl hw addr data seed =
     (case kImpl of
        ImplArm \<Rightarrow> Crc32cArm (arm_crc32cd hw) (arm_crc32cw hw) (arm_crc32ch hw) (arm_crc32cb hw) data seed
      | ImplSse42 \<Rightarrow> Crc32cSse42 (mm_crc32_u8 hw) (mm_crc32_u64 hw) addr data seed
      | ImplSoftware \<Rightarrow> Crc32cSoftware data seed)"

text \<open>
  The checksum the other components call, with the default seed; on a host with checksum
  instructions it is the same function by the dispatch theorem.
\<close>

definition Crc32c :: "bytes \<Rightarrow> u32" where
  "Crc32c data = Crc32cSoftware data 0"

text \<open>Reference: the bit-serial register, least significant bit of each byte first.\<close>

definition ref_bit :: "u32 \<Rightarrow> bool \<Rightarrow> u32" where
  "ref_bit crc b = drop_bit 1 crc XOR (if bit crc 0 \<noteq> b then kPoly else 0)"

definition byte_bits :: "byte \<Rightarrow> bool list" where
  "byte_bits b = map (bit b) [0..<8]"

definition crc32c_ref :: "bytes \<Rightarrow> u32 \<Rightarrow> u32" where
  "crc32c_ref data seed = NOT (foldl ref_bit (NOT seed) (concat (map byte_bits data)))"

definition crc_byte :: "u32 \<Rightarrow> byte \<Rightarrow> u32" where
  "crc_byte crc b = (bit_step ^^ 8) (crc XOR ucast b)"

section \<open>Linearity of the register\<close>

lemma xor_eq_0_iff: "a XOR b = 0 \<longleftrightarrow> a = (b :: 'a::len word)"
  by (auto simp: bit_eq_iff bit_xor_iff)

lemma xor_right_cancel: "a XOR c = b XOR c \<longleftrightarrow> a = (b :: 'a::len word)"
  by (auto simp: bit_eq_iff bit_xor_iff)

lemma xor_left_cancel: "c XOR a = c XOR b \<longleftrightarrow> a = (b :: 'a::len word)"
  by (auto simp: bit_eq_iff bit_xor_iff)

lemma bit_step_alt: "bit_step c = drop_bit 1 c XOR (if odd c then kPoly else 0)"
proof -
  have "NOT (c AND 1) + 1 = (if odd c then - 1 else 0)"
    by (simp only: neg_bit_word)
  then show ?thesis by (simp only: bit_step_def) simp
qed

lemma drop_bit_xor_word: "drop_bit n (a XOR b) = drop_bit n a XOR drop_bit n (b :: 'a::len word)"
  by (rule bit_word_eqI) (simp add: bit_xor_iff bit_drop_bit_eq)

lemma bit_step_xor: "bit_step (a XOR b) = bit_step a XOR bit_step b"
  by (rule bit_word_eqI) (auto simp: bit_step_alt even_xor_iff bit_xor_iff drop_bit_xor_word)

lemma bit_steps_xor: "(bit_step ^^ n) (a XOR b) = (bit_step ^^ n) a XOR (bit_step ^^ n) b"
  by (induction n) (simp_all add: bit_step_xor)

lemma bit_steps_zero_low:
  "(\<forall>k < n. \<not> bit c k) \<Longrightarrow> (bit_step ^^ n) c = drop_bit n c"
proof (induction n)
  case 0
  then show ?case by simp
next
  case (Suc n)
  then have "(bit_step ^^ n) c = drop_bit n c" by simp
  moreover have "\<not> odd (drop_bit n c)"
    using Suc.prems by (simp add: bit_drop_bit_eq flip: bit_0)
  ultimately show ?case by (simp add: bit_step_alt [of "drop_bit n c"])
qed

lemma bit_steps_push:
  "(\<forall>k. bit y k \<longrightarrow> k + n < 32) \<Longrightarrow> (bit_step ^^ n) (push_bit n y) = y"
proof -
  assume a: "\<forall>k. bit y k \<longrightarrow> k + n < 32"
  have "(bit_step ^^ n) (push_bit n y) = drop_bit n (push_bit n y)"
    by (rule bit_steps_zero_low) (simp add: bit_push_bit_iff)
  also have "\<dots> = y"
    using a by (intro bit_word_eqI) (auto simp: bit_drop_bit_eq bit_push_bit_iff add.commute)
  finally show ?thesis .
qed

lemma bit_step_split: "(bit_step ^^ (m + n)) x = (bit_step ^^ m) ((bit_step ^^ n) x)"
  by (simp add: funpow_add)

lemma ff_mask: "(0xFF :: u32) = mask 8"
  by (simp add: mask_eq_exp_minus_1)

lemma low_byte_split: "c = (c AND 0xFF) XOR push_bit 8 (drop_bit 8 c)" for c :: u32
proof (rule bit_word_eqI)
  fix k assume "k < LENGTH(32)"
  then show "bit c k = bit ((c AND 0xFF) XOR push_bit 8 (drop_bit 8 c)) k"
    unfolding ff_mask by (auto simp: bit_xor_iff bit_and_iff bit_push_bit_iff bit_drop_bit_eq bit_mask_iff)
qed

lemma table_next_eq: "table_next c = (bit_step ^^ 8) c"
proof -
  have "(bit_step ^^ 8) (push_bit 8 (drop_bit 8 c)) = drop_bit 8 c"
    by (rule bit_steps_push) (auto simp: bit_drop_bit_eq dest: bit_imp_le_length)
  then have "(bit_step ^^ 8) ((c AND 0xFF) XOR push_bit 8 (drop_bit 8 c)) = table_next c"
    by (simp add: bit_steps_xor table_next_def table0_def)
  then show ?thesis by (simp flip: low_byte_split)
qed

lemma kTables_eq: "kTables k i = (bit_step ^^ (8 * k + 8)) i"
proof (induction k)
  case 0
  then show ?case by (simp add: kTables_def table0_def)
next
  case (Suc k)
  have "kTables (Suc k) i = table_next (kTables k i)" by (simp add: kTables_def)
  also have "\<dots> = (bit_step ^^ (8 + (8 * k + 8))) i"
    by (simp only: table_next_eq Suc.IH bit_step_split)
  finally show ?case by (simp add: algebra_simps)
qed

section \<open>The loops process one byte at a time\<close>

lemma bit_steps_peel:
  "(bit_step ^^ (n + 8)) x = (bit_step ^^ (n + 8)) (x AND 0xFF) XOR (bit_step ^^ n) (drop_bit 8 x)"
proof -
  have "(bit_step ^^ 8) (push_bit 8 (drop_bit 8 x)) = drop_bit 8 x"
    by (rule bit_steps_push) (auto simp: bit_drop_bit_eq dest: bit_imp_le_length)
  then have "(bit_step ^^ (n + 8)) (push_bit 8 (drop_bit 8 x)) = (bit_step ^^ n) (drop_bit 8 x)"
    by (simp only: bit_step_split)
  moreover have "(bit_step ^^ (n + 8)) x =
      (bit_step ^^ (n + 8)) ((x AND 0xFF) XOR push_bit 8 (drop_bit 8 x))"
    by (simp flip: low_byte_split)
  ultimately show ?thesis by (simp only: bit_steps_xor)
qed

lemma top_byte: "drop_bit 24 x AND 0xFF = drop_bit 24 x" for x :: u32
  unfolding ff_mask
  by (rule bit_word_eqI) (auto simp: bit_and_iff bit_drop_bit_eq bit_mask_iff dest: bit_imp_le_length)

lemma bit_steps_peel4:
  "(bit_step ^^ (n + 32)) x =
     (bit_step ^^ (n + 32)) (x AND 0xFF) XOR (bit_step ^^ (n + 24)) (drop_bit 8 x AND 0xFF) XOR
     (bit_step ^^ (n + 16)) (drop_bit 16 x AND 0xFF) XOR (bit_step ^^ (n + 8)) (drop_bit 24 x AND 0xFF)"
  using bit_steps_peel [of "n + 24" x] bit_steps_peel [of "n + 16" "drop_bit 8 x"]
    bit_steps_peel [of "n + 8" "drop_bit 16 x"]
  by (simp add: top_byte ac_simps)

lemma slice8_step_eq:
  "slice8_step crc p =
     (bit_step ^^ 64) (crc XOR LoadLe32 p) XOR (bit_step ^^ 32) (LoadLe32 (drop 4 p))"
  using bit_steps_peel4 [of 32 "crc XOR LoadLe32 p"] bit_steps_peel4 [of 0 "LoadLe32 (drop 4 p)"]
  by (simp add: slice8_step_def kTables_eq Let_def ac_simps)

lemma le_word_Cons_xor: "(le_word (b # bs) :: u32) = push_bit 8 (le_word bs) XOR ucast b"
  by (rule bit_word_eqI)
    (auto simp: le_word_def bit_or_iff bit_xor_iff bit_push_bit_iff bit_ucast_iff
      dest: bit_imp_le_length)

lemma foldl_crc_byte_word:
  "length bs \<le> 4 \<Longrightarrow> foldl crc_byte crc bs = (bit_step ^^ (8 * length bs)) (crc XOR le_word bs)"
proof (induction bs arbitrary: crc)
  case Nil
  then show ?case by (simp add: le_word_def)
next
  case (Cons b bs)
  have "\<forall>k. bit (le_word bs :: u32) k \<longrightarrow> k + 8 < 32"
  proof (intro allI impI)
    fix k assume "bit (le_word bs :: u32) k"
    then have "k div 8 < length bs" by (simp add: bit_le_word)
    with Cons.prems have "k div 8 < 3" by simp
    then show "k + 8 < 32" by simp
  qed
  then have "(bit_step ^^ 8) (push_bit 8 (le_word bs)) = le_word bs" by (rule bit_steps_push)
  then have "(bit_step ^^ 8) (crc XOR le_word (b # bs)) = crc_byte crc b XOR le_word bs"
    by (simp add: le_word_Cons_xor crc_byte_def bit_steps_xor ac_simps)
  moreover have "(bit_step ^^ (8 * length bs + 8)) (crc XOR le_word (b # bs)) =
      (bit_step ^^ (8 * length bs)) ((bit_step ^^ 8) (crc XOR le_word (b # bs)))"
    by (rule bit_step_split)
  ultimately show ?case using Cons by (simp add: ac_simps)
qed

lemma slice8_step_bytes:
  assumes "8 \<le> length p"
  shows "slice8_step crc p = foldl crc_byte crc (take 8 p)"
proof -
  have len: "length (take 4 p) = 4" "length (take 4 (drop 4 p)) = 4" using assms by simp_all
  have "take 8 p = take 4 p @ take 4 (drop 4 p)" by (simp flip: take_add)
  then have "foldl crc_byte crc (take 8 p) =
      (bit_step ^^ 32) ((bit_step ^^ 32) (crc XOR LoadLe32 p) XOR LoadLe32 (drop 4 p))"
    using foldl_crc_byte_word [of "take 4 p" crc] foldl_crc_byte_word [of "take 4 (drop 4 p)"] len
    by (simp add: LoadLe32_def)
  also have "\<dots> = slice8_step crc p"
    using bit_step_split [of 32 32 "crc XOR LoadLe32 p"]
    by (simp add: slice8_step_eq bit_steps_xor)
  finally show ?thesis by simp
qed

lemma byte_loop_eq: "byte_loop crc p = foldl crc_byte crc p"
proof (induction p arbitrary: crc)
  case Nil
  then show ?case by simp
next
  case (Cons b p)
  have "drop_bit 8 (ucast b :: u32) = 0"
    by (rule bit_word_eqI) (auto simp: bit_drop_bit_eq bit_ucast_iff dest: bit_imp_le_length)
  then have "drop_bit 8 (crc XOR ucast b) = drop_bit 8 crc"
    by (simp add: drop_bit_xor_word)
  then have "kTables 0 ((crc XOR ucast b) AND 0xFF) XOR drop_bit 8 crc = table_next (crc XOR ucast b)"
    by (simp add: table_next_def kTables_def)
  then show ?case using Cons by (simp add: table_next_eq crc_byte_def)
qed

lemma slice8_loop_eq:
  "slice8_loop crc p = (crc', p') \<Longrightarrow> foldl crc_byte crc' p' = foldl crc_byte crc p"
proof (induction crc p rule: slice8_loop.induct)
  case (1 crc p)
  show ?case
  proof (cases "8 \<le> length p")
    case True
    with 1 have "foldl crc_byte crc' p' = foldl crc_byte (slice8_step crc p) (drop 8 p)"
      by (simp add: slice8_loop.simps [of crc p])
    also have "\<dots> = foldl crc_byte crc (take 8 p @ drop 8 p)"
      using True by (simp add: slice8_step_bytes del: append_take_drop_id)
    finally show ?thesis by simp
  next
    case False
    with 1 show ?thesis by (simp add: slice8_loop.simps [of crc p])
  qed
qed

lemma Crc32cSoftware_bytes: "Crc32cSoftware data seed = NOT (foldl crc_byte (NOT seed) data)"
  using slice8_loop_eq [of "NOT seed" data]
  by (simp add: Crc32cSoftware_def byte_loop_eq split: prod.split)

section \<open>The reference register\<close>

lemma ref_bit_eq: "ref_bit c b = bit_step (c XOR of_bool b)"
proof -
  have "drop_bit 1 (of_bool b :: u32) = 0" by simp
  moreover have "odd (c XOR of_bool b) \<longleftrightarrow> bit c 0 \<noteq> b"
    by (cases b) (simp_all add: even_xor_iff bit_0)
  ultimately show ?thesis
    by (simp add: ref_bit_def bit_step_alt [of "c XOR of_bool b"] drop_bit_xor_word)
qed

lemma take_bit_Suc_xor:
  "take_bit (Suc n) w = take_bit n w XOR push_bit n (of_bool (bit w n))" for w :: u32
  by (rule bit_word_eqI)
    (auto simp: bit_take_bit_iff bit_xor_iff bit_push_bit_iff bit_of_bool_iff less_Suc_eq)

lemma foldl_ref_bit:
  "n \<le> 32 \<Longrightarrow> foldl ref_bit crc (map (bit b) [0..<n]) = (bit_step ^^ n) (crc XOR take_bit n (ucast b))"
  for b :: byte
proof (induction n)
  case 0
  then show ?case by simp
next
  case (Suc n)
  have push: "(bit_step ^^ n) (push_bit n (of_bool (bit b n))) = of_bool (bit b n)"
    using Suc.prems by (intro bit_steps_push) (auto simp: bit_of_bool_iff)
  have "bit (ucast b :: u32) n = bit b n"
    using Suc.prems by (auto simp: bit_ucast_iff)
  then have split: "take_bit (Suc n) (ucast b :: u32) =
      take_bit n (ucast b) XOR push_bit n (of_bool (bit b n))"
    by (simp only: take_bit_Suc_xor)
  have "foldl ref_bit crc (map (bit b) [0..<Suc n]) =
      bit_step ((bit_step ^^ n) (crc XOR take_bit n (ucast b)) XOR of_bool (bit b n))"
    using Suc by (simp add: ref_bit_eq [of _ "bit b n"])
  also have "\<dots> = bit_step ((bit_step ^^ n) (crc XOR take_bit (Suc n) (ucast b)))"
    unfolding split by (simp only: bit_steps_xor push xor.assoc)
  finally show ?case by simp
qed

lemma ref_byte: "foldl ref_bit crc (byte_bits b) = crc_byte crc b"
proof -
  have "take_bit 8 (ucast b :: u32) = ucast b"
    by (rule bit_word_eqI) (auto simp: bit_take_bit_iff bit_ucast_iff dest: bit_imp_le_length)
  then show ?thesis by (simp add: byte_bits_def foldl_ref_bit crc_byte_def)
qed

lemma crc32c_ref_bytes: "crc32c_ref data seed = NOT (foldl crc_byte (NOT seed) data)"
proof -
  have "foldl ref_bit c (concat (map byte_bits data)) = foldl crc_byte c data" for c
    by (induction data arbitrary: c) (simp_all add: ref_byte)
  then show ?thesis by (simp add: crc32c_ref_def)
qed

section \<open>Checksum instructions\<close>

text \<open>
  What the instruction set manuals promise of the checksum instructions: each accumulates the
  bytes of its operand, lowest first, into the register.
\<close>

locale x86_crc =
  fixes crc8 :: "u32 \<Rightarrow> byte \<Rightarrow> u32" and crc64 :: "u64 \<Rightarrow> u64 \<Rightarrow> u64"
  assumes crc8: "crc8 c b = crc_byte c b"
    and crc64: "crc64 (ucast c) w = ucast (foldl crc_byte c (le_bytes 8 w))"
begin

lemma align_loop:
  "sse_align_loop crc8 addr c p = (c', p') \<Longrightarrow> foldl crc_byte c' p' = foldl crc_byte c p"
  by (induction p arbitrary: addr c) (auto simp: crc8 split: if_splits)

end

lemma ucast_32_64_32 [simp]: "(ucast (ucast (c :: u32) :: u64) :: u32) = c"
  by (rule bit_word_eqI) (auto simp: bit_ucast_iff)

lemma word_loop_bytes:
  assumes "\<And>c w. f c w = foldl crc_byte c (le_bytes 8 w)"
  shows "word_loop f c p = (c', p') \<Longrightarrow> foldl crc_byte c' p' = foldl crc_byte c p \<and> length p' < 8"
proof (induction "length p" arbitrary: c p rule: less_induct)
  case less
  show ?case
  proof (cases "8 \<le> length p")
    case True
    then have "f c (LoadLe64 p) = foldl crc_byte c (take 8 p)"
      by (simp add: assms LoadLe64_def le_bytes_le_word)
    moreover have "foldl crc_byte (foldl crc_byte c (take 8 p)) (drop 8 p) = foldl crc_byte c p"
      by (simp flip: foldl_append)
    moreover have "word_loop f (f c (LoadLe64 p)) (drop 8 p) = (c', p')"
      using less.prems True by (simp add: word_loop.simps [of f c p])
    ultimately show ?thesis
      using less.hyps [of "drop 8 p"] True by simp
  next
    case False
    with less.prems show ?thesis by (simp add: word_loop.simps [of f c p])
  qed
qed

context x86_crc
begin

lemma sse42: "Crc32cSse42 crc8 crc64 addr data seed = NOT (foldl crc_byte (NOT seed) data)"
proof -
  obtain c1 p1 where 1: "sse_align_loop crc8 addr (NOT seed) data = (c1, p1)" by fastforce
  obtain c2 p2 where 2: "word_loop (\<lambda>c w. ucast (crc64 (ucast c) w)) c1 p1 = (c2, p2)" by fastforce
  have "crc8 = crc_byte" by (simp add: crc8 fun_eq_iff)
  moreover have "foldl crc_byte c2 p2 = foldl crc_byte c1 p1"
    by (rule word_loop_bytes [OF _ 2, THEN conjunct1]) (simp add: crc64)
  ultimately show ?thesis using align_loop [OF 1] 1 2 by (simp add: Crc32cSse42_def)
qed

end

locale arm_crc =
  fixes crcd :: "u32 \<Rightarrow> u64 \<Rightarrow> u32" and crcw :: "u32 \<Rightarrow> u32 \<Rightarrow> u32"
    and crch :: "u32 \<Rightarrow> u16 \<Rightarrow> u32" and crcb :: "u32 \<Rightarrow> byte \<Rightarrow> u32"
  assumes crcd: "crcd c w = foldl crc_byte c (le_bytes 8 w)"
    and crcw: "crcw c v = foldl crc_byte c (le_bytes 4 v)"
    and crch: "crch c h = foldl crc_byte c (le_bytes 2 h)"
    and crcb: "crcb c b = crc_byte c b"
begin

lemma arm: "Crc32cArm crcd crcw crch crcb data seed = NOT (foldl crc_byte (NOT seed) data)"
proof -
  obtain c1 p1 where 1: "word_loop crcd (NOT seed) data = (c1, p1)" by fastforce
  have e1: "foldl crc_byte c1 p1 = foldl crc_byte (NOT seed) data" "length p1 < 8"
    using word_loop_bytes [OF crcd 1] by simp_all
  define s2 where "s2 = (if 4 \<le> length p1 then (crcw c1 (LoadLe32 p1), drop 4 p1) else (c1, p1))"
  obtain c2 p2 where 2: "s2 = (c2, p2)" by fastforce
  have "foldl crc_byte (foldl crc_byte c1 (take 4 p1)) (drop 4 p1) = foldl crc_byte c1 p1"
    by (simp flip: foldl_append)
  then have e2: "foldl crc_byte c2 p2 = foldl crc_byte c1 p1" "length p2 < 4"
    using 2 e1(2) by (auto simp: s2_def crcw LoadLe32_def le_bytes_le_word split: if_splits)
  define s3 where "s3 = (if 2 \<le> length p2 then (crch c2 (LoadLe16 p2), drop 2 p2) else (c2, p2))"
  obtain c3 p3 where 3: "s3 = (c3, p3)" by fastforce
  have "foldl crc_byte (foldl crc_byte c2 (take 2 p2)) (drop 2 p2) = foldl crc_byte c2 p2"
    by (simp flip: foldl_append)
  then have e3: "foldl crc_byte c3 p3 = foldl crc_byte c2 p2" "length p3 < 2"
    using 3 e2(2) by (auto simp: s3_def crch LoadLe16_def le_bytes_le_word split: if_splits)
  have "(if length p3 = 1 then crcb c3 (hd p3) else c3) = foldl crc_byte c3 p3"
    using e3(2) by (cases p3) (auto simp: crcb)
  then show ?thesis
    using e1 e2 e3 1 2 3 by (simp add: Crc32cArm_def flip: s2_def s3_def)
qed

end

text \<open>Software models of the instructions, which satisfy both contracts.\<close>

definition soft_instructions :: crc_instructions where
  "soft_instructions =
     \<lparr>mm_crc32_u8 = crc_byte,
      mm_crc32_u64 = (\<lambda>c w. ucast (foldl crc_byte (ucast c) (le_bytes 8 w))),
      arm_crc32cd = (\<lambda>c w. foldl crc_byte c (le_bytes 8 w)),
      arm_crc32cw = (\<lambda>c w. foldl crc_byte c (le_bytes 4 w)),
      arm_crc32ch = (\<lambda>c w. foldl crc_byte c (le_bytes 2 w)),
      arm_crc32cb = crc_byte\<rparr>"

interpretation soft_x86: x86_crc "mm_crc32_u8 soft_instructions" "mm_crc32_u64 soft_instructions"
  by unfold_locales (simp_all add: soft_instructions_def)

interpretation soft_arm: arm_crc "arm_crc32cd soft_instructions" "arm_crc32cw soft_instructions"
  "arm_crc32ch soft_instructions" "arm_crc32cb soft_instructions"
  by unfold_locales (simp_all add: soft_instructions_def)

section \<open>Chaining and burst errors\<close>

lemma Crc32cSoftware_append:
  "Crc32cSoftware (a @ b) seed = Crc32cSoftware b (Crc32cSoftware a seed)"
  by (simp add: Crc32cSoftware_bytes)

lemma bit_step_zero: "bit_step c = 0 \<Longrightarrow> c = 0"
proof -
  assume z: "bit_step c = 0"
  have "\<not> odd c"
  proof
    assume "odd c"
    with z have "drop_bit 1 c = kPoly" by (simp add: bit_step_alt xor_eq_0_iff)
    then have "bit (drop_bit 1 c) 31" by (simp add: kPoly_def)
    then show False by (auto simp: bit_drop_bit_eq dest: bit_imp_le_length)
  qed
  with z have "drop_bit 1 c = 0" "even c" by (simp_all add: bit_step_alt)
  moreover have "bit c (Suc j) = bit (drop_bit 1 c) j" for j
    by (simp add: bit_drop_bit_eq)
  ultimately have "\<not> bit c k" for k
    by (cases k) (simp_all add: bit_0)
  then show "c = 0" by (simp add: bit_eq_iff)
qed

lemma bit_steps_inj: "(bit_step ^^ n) a = (bit_step ^^ n) b \<longleftrightarrow> a = b"
proof -
  have "(bit_step ^^ n) c = 0 \<Longrightarrow> c = 0" for c
    by (induction n) (auto dest: bit_step_zero)
  then have "(bit_step ^^ n) a = (bit_step ^^ n) b \<Longrightarrow> a XOR b = 0"
    using bit_steps_xor [of n a b] by simp
  then show ?thesis by (auto simp: xor_eq_0_iff)
qed

lemma foldl_crc_byte_inj: "foldl crc_byte a p = foldl crc_byte b p \<longleftrightarrow> a = b"
proof (induction p arbitrary: a b)
  case (Cons x p)
  have "crc_byte a x = crc_byte b x \<longleftrightarrow> a = b"
    by (simp add: crc_byte_def bit_steps_inj xor_right_cancel)
  with Cons show ?case by simp
qed simp

lemma le_word_inj4:
  assumes "length x = length y" "length x \<le> 4" "(le_word x :: u32) = le_word y"
  shows "x = y"
proof (rule nth_equalityI [OF assms(1)])
  fix i assume i: "i < length x"
  show "x ! i = y ! i"
  proof (rule bit_word_eqI)
    fix k assume "k < LENGTH(8)"
    then have "(8 * i + k) div 8 = i" "(8 * i + k) mod 8 = k" "8 * i + k < 32"
      using i assms(2) by simp_all
    then show "bit (x ! i) k = bit (y ! i) k"
      using arg_cong [OF assms(3), of "\<lambda>w. bit w (8 * i + k)"] i assms(1)
      by (simp add: bit_le_word)
  qed
qed

lemma Crc32c_burst:
  assumes "length x = length y" "length x \<le> 4" "x \<noteq> y"
  shows "Crc32c (pre @ x @ post) \<noteq> Crc32c (pre @ y @ post)"
proof
  assume "Crc32c (pre @ x @ post) = Crc32c (pre @ y @ post)"
  then have "foldl crc_byte (foldl crc_byte (- 1) pre) x = foldl crc_byte (foldl crc_byte (- 1) pre) y"
    by (simp add: Crc32c_def Crc32cSoftware_bytes foldl_crc_byte_inj not_eq_complement)
  then have "(le_word x :: u32) = le_word y"
    using assms by (simp add: foldl_crc_byte_word bit_steps_inj xor_left_cancel)
  with assms le_word_inj4 show False by blast
qed

text \<open>
  Data followed by its own checksum, least significant byte first, always leaves the same
  residue; so a codeword is recognised by its residue.
\<close>

lemma crc_codeword:
  assumes "length c = 4"
  shows "LoadLe32 c = Crc32c d \<longleftrightarrow> Crc32c (d @ c) = NOT ((bit_step ^^ 32) (- 1))"
proof -
  let ?s = "foldl crc_byte (- 1) d"
  have "Crc32c (d @ c) = NOT ((bit_step ^^ 32) (?s XOR le_word c))"
    using assms foldl_crc_byte_word [of c ?s] by (simp add: Crc32c_def Crc32cSoftware_bytes)
  then have "Crc32c (d @ c) = NOT ((bit_step ^^ 32) (- 1)) \<longleftrightarrow> ?s XOR le_word c = - 1"
    by (simp add: not_eq_complement bit_steps_inj)
  also have "\<dots> \<longleftrightarrow> le_word c = NOT ?s"
    by (auto simp: bit_eq_iff bit_xor_iff bit_not_iff)
  finally show ?thesis
    using assms by (simp add: LoadLe32_def Crc32c_def Crc32cSoftware_bytes)
qed

section \<open>Properties\<close>

text \<open>
  C25: the slicing-by-8 software checksum computes CRC-32C: for every input and seed it agrees
  with the bit-serial shift register.
\<close>

theorem Crc32cSoftware_correct: "Crc32cSoftware data seed = crc32c_ref data seed"
  by (simp add: Crc32cSoftware_bytes crc32c_ref_bytes)

text \<open>
  C38: whichever implementation the process selected at start-up, and at whatever address the
  data lies, \<open>Crc32c\<close> returns the same checksum, provided the checksum instructions accumulate
  the bytes of their operand as the instruction set manuals say.
\<close>

theorem Crc32c_dispatch_correct:
  assumes "\<And>c b. mm_crc32_u8 hw c b = crc_byte c b"
    and "\<And>c w. mm_crc32_u64 hw (ucast c) w = ucast (foldl crc_byte c (le_bytes 8 w))"
    and "\<And>c w. arm_crc32cd hw c w = foldl crc_byte c (le_bytes 8 w)"
    and "\<And>c w. arm_crc32cw hw c w = foldl crc_byte c (le_bytes 4 w)"
    and "\<And>c w. arm_crc32ch hw c w = foldl crc_byte c (le_bytes 2 w)"
    and "\<And>c b. arm_crc32cb hw c b = crc_byte c b"
  shows "Crc32c_dispatch kImpl hw addr data seed = crc32c_ref data seed"
proof -
  have x86: "x86_crc (mm_crc32_u8 hw) (mm_crc32_u64 hw)"
    using assms(1,2) by (rule x86_crc.intro)
  have arm: "arm_crc (arm_crc32cd hw) (arm_crc32cw hw) (arm_crc32ch hw) (arm_crc32cb hw)"
    using assms(3-6) by (rule arm_crc.intro)
  show ?thesis
    by (cases kImpl) (simp_all add: Crc32c_dispatch_def x86_crc.sse42 [OF x86] arm_crc.arm [OF arm]
        Crc32cSoftware_bytes crc32c_ref_bytes)
qed

theorem Crc32c_dispatch_correct_witness:
  "Crc32c_dispatch ImplSse42 soft_instructions 5 [0x31, 0x32, 0x33] 0 = crc32c_ref [0x31, 0x32, 0x33] 0"
  by (rule Crc32c_dispatch_correct)
    (simp_all add: soft_x86.crc8 soft_x86.crc64 soft_arm.crcd soft_arm.crcw soft_arm.crch soft_arm.crcb)

text \<open>
  C39: a corruption confined to four consecutive bytes always changes the checksum, wherever it
  lies in the data.
\<close>

theorem Crc32c_detects_burst:
  assumes "length x = length y" "length x \<le> 4" "x \<noteq> y"
  shows "Crc32c (pre @ x @ post) \<noteq> Crc32c (pre @ y @ post)"
  using assms by (rule Crc32c_burst)

theorem Crc32c_detects_burst_witness:
  "Crc32c ([1, 2] @ [3, 4, 5] @ [6]) \<noteq> Crc32c ([1, 2] @ [3, 9, 5] @ [6])"
  by (rule Crc32c_detects_burst) simp_all

end
