(* ===== verification/PL_Frame.thy ===== *)
theory PL_Frame
  imports PL_Base PL_Buffer PL_Crc32c
begin

text \<open>
  Operation codes and frames (\<open>src/protocol/opcode.cc\<close>, \<open>include/pulselog/protocol/frame.h\<close>,
  \<open>src/protocol/frame.cc\<close>): the 32-byte header with its two checksums, the encoder and the
  incremental decoder.
\<close>

section \<open>Operation codes\<close>

datatype opcode =
    OpUnknown | Produce | Fetch | ListOffsets | CreateTopic | Metadata | CommitOffset | FetchOffset
  | JoinGroup | Heartbeat | LeaveGroup | Health | ListTopics | Replicate | ReplicaAck | ReplicaFetch
  | DeleteTopic | DescribeCluster

fun opcode_u16 :: "opcode \<Rightarrow> u16" where
  "opcode_u16 OpUnknown = 0" | "opcode_u16 Produce = 1" | "opcode_u16 Fetch = 2"
| "opcode_u16 ListOffsets = 3" | "opcode_u16 CreateTopic = 20" | "opcode_u16 Metadata = 21"
| "opcode_u16 CommitOffset = 22" | "opcode_u16 FetchOffset = 23" | "opcode_u16 JoinGroup = 24"
| "opcode_u16 Heartbeat = 25" | "opcode_u16 LeaveGroup = 26" | "opcode_u16 Health = 27"
| "opcode_u16 ListTopics = 28" | "opcode_u16 Replicate = 40" | "opcode_u16 ReplicaAck = 41"
| "opcode_u16 ReplicaFetch = 42" | "opcode_u16 DeleteTopic = 60" | "opcode_u16 DescribeCluster = 61"

fun OpCodeName :: "opcode \<Rightarrow> string" where
  "OpCodeName OpUnknown = ''UNKNOWN''" | "OpCodeName Produce = ''PRODUCE''"
| "OpCodeName Fetch = ''FETCH''" | "OpCodeName ListOffsets = ''LIST_OFFSETS''"
| "OpCodeName CreateTopic = ''CREATE_TOPIC''" | "OpCodeName Metadata = ''METADATA''"
| "OpCodeName CommitOffset = ''COMMIT_OFFSET''" | "OpCodeName FetchOffset = ''FETCH_OFFSET''"
| "OpCodeName JoinGroup = ''JOIN_GROUP''" | "OpCodeName Heartbeat = ''HEARTBEAT''"
| "OpCodeName LeaveGroup = ''LEAVE_GROUP''" | "OpCodeName Health = ''HEALTH''"
| "OpCodeName ListTopics = ''LIST_TOPICS''" | "OpCodeName Replicate = ''REPLICATE''"
| "OpCodeName ReplicaAck = ''REPLICA_ACK''" | "OpCodeName ReplicaFetch = ''REPLICA_FETCH''"
| "OpCodeName DeleteTopic = ''DELETE_TOPIC''" | "OpCodeName DescribeCluster = ''DESCRIBE_CLUSTER''"

definition known_opcodes :: "opcode list" where
  "known_opcodes =
     [Produce, Fetch, ListOffsets, CreateTopic, Metadata, CommitOffset, FetchOffset, JoinGroup,
      Heartbeat, LeaveGroup, Health, ListTopics, Replicate, ReplicaAck, ReplicaFetch, DeleteTopic,
      DescribeCluster]"

definition IsKnownOpCode :: "u16 \<Rightarrow> bool" where
  "IsKnownOpCode raw \<longleftrightarrow> raw \<in> set (map opcode_u16 known_opcodes)"

text \<open>\<open>static_cast<OpCode>(raw)\<close> on a known code.\<close>

definition opcode_of_u16 :: "u16 \<Rightarrow> opcode" where
  "opcode_of_u16 raw =
     (case find (\<lambda>op. opcode_u16 op = raw) known_opcodes of Some op \<Rightarrow> op | None \<Rightarrow> OpUnknown)"

definition IsInterBroker :: "opcode \<Rightarrow> bool" where
  "IsInterBroker op \<longleftrightarrow> opcode_u16 op \<ge> 40 \<and> opcode_u16 op < 60"

lemma opcode_of_u16_inverse [simp, codec_simps]: "opcode_of_u16 (opcode_u16 op) = op"
  by (cases op) (simp_all add: opcode_of_u16_def known_opcodes_def)

lemma IsKnownOpCode_u16 [simp]: "IsKnownOpCode (opcode_u16 op) \<longleftrightarrow> op \<noteq> OpUnknown"
  by (cases op) (simp_all add: IsKnownOpCode_def known_opcodes_def)

section \<open>The header\<close>

definition kFrameHeaderSize :: nat where "kFrameHeaderSize = 32"
definition kFrameMagic :: u32 where "kFrameMagic = 0x47534C50"
definition kProtocolVersion :: u16 where "kProtocolVersion = 1"
definition kMinSupportedVersion :: u16 where "kMinSupportedVersion = 1"
definition kMaxPayloadBytesDefault :: u32 where "kMaxPayloadBytesDefault = 64 * 1024 * 1024"

record frame_header =
  fh_version :: u16
  fh_opcode :: opcode
  fh_request_id :: u64
  fh_payload_len :: u32
  fh_flags :: u16
  fh_payload_crc :: u32

definition is_response :: "frame_header \<Rightarrow> bool" where
  "is_response h \<longleftrightarrow> fh_flags h AND 1 \<noteq> 0"

definition EncodeFrameHeader :: "frame_header \<Rightarrow> bytes \<Rightarrow> bytes" where
  "EncodeFrameHeader header dst =
     (let dst = overwrite 0 (StoreLe32 kFrameMagic) dst;
          dst = overwrite 4 (StoreLe16 (fh_version header)) dst;
          dst = overwrite 6 (StoreLe16 (opcode_u16 (fh_opcode header))) dst;
          dst = overwrite 8 (StoreLe64 (fh_request_id header)) dst;
          dst = overwrite 16 (StoreLe32 (fh_payload_len header)) dst;
          dst = overwrite 20 (StoreLe16 (fh_flags header)) dst;
          dst = overwrite 22 (StoreLe16 0) dst;
          dst = overwrite 24 (StoreLe32 (fh_payload_crc header)) dst;
          header_crc = Crc32c (take 28 dst)
      in overwrite 28 (StoreLe32 header_crc) dst)"

definition DecodeFrameHeader :: "bytes \<Rightarrow> u32 \<Rightarrow> frame_header result" where
  "DecodeFrameHeader src max_payload =
     (if LoadLe32 src \<noteq> kFrameMagic then Inl kProtocolError
      else if LoadLe32 (drop 28 src) \<noteq> Crc32c (take 28 src) then Inl kCorruption
      else if LoadLe16 (drop 22 src) \<noteq> 0 then Inl kProtocolError
      else let version = LoadLe16 (drop 4 src) in
        if version < kMinSupportedVersion \<or> version > kProtocolVersion then Inl kUnsupportedVersion
        else let raw_opcode = LoadLe16 (drop 6 src) in
          if \<not> IsKnownOpCode raw_opcode then Inl kProtocolError
          else let payload_len = LoadLe32 (drop 16 src) in
            if payload_len > max_payload then Inl kResourceExhausted
            else Inr \<lparr>fh_version = version, fh_opcode = opcode_of_u16 raw_opcode,
                      fh_request_id = LoadLe64 (drop 8 src), fh_payload_len = payload_len,
                      fh_flags = LoadLe16 (drop 20 src), fh_payload_crc = LoadLe32 (drop 24 src)\<rparr>)"

definition complete_header :: "frame_header \<Rightarrow> bytes \<Rightarrow> frame_header" where
  "complete_header header payload =
     header\<lparr>fh_payload_len := word_of_nat (length payload),
            fh_payload_crc := (if payload = [] then 0 else Crc32c payload)\<rparr>"

definition EncodeFrame :: "byte_buffer \<Rightarrow> frame_header \<Rightarrow> bytes \<Rightarrow> byte_buffer" where
  "EncodeFrame out header payload =
     (let complete = complete_header header payload;
          out = EnsureWritable (kFrameHeaderSize + length payload) out;
          out = with_write_ptr (EncodeFrameHeader complete) out;
          out = Commit kFrameHeaderSize out
      in if payload \<noteq> [] then Append payload out else out)"

definition EncodeFrame_simple :: "byte_buffer \<Rightarrow> opcode \<Rightarrow> u64 \<Rightarrow> u16 \<Rightarrow> bytes \<Rightarrow> byte_buffer" where
  "EncodeFrame_simple out opcode request_id flags payload =
     EncodeFrame out \<lparr>fh_version = kProtocolVersion, fh_opcode = opcode, fh_request_id = request_id,
       fh_payload_len = 0, fh_flags = flags, fh_payload_crc = 0\<rparr> payload"

section \<open>The incremental decoder\<close>

record frame =
  fr_header :: frame_header
  fr_payload :: bytes
  fr_total_size :: nat

datatype decode_state = NeedMore | GotFrame frame | DecodeError

record frame_decoder =
  fd_max_payload :: u32
  fd_error :: error_code

definition FrameDecoder :: "u32 \<Rightarrow> frame_decoder" where
  "FrameDecoder max_payload = \<lparr>fd_max_payload = max_payload, fd_error = kOk\<rparr>"

definition Next :: "frame_decoder \<Rightarrow> bytes \<Rightarrow> decode_state \<times> frame_decoder" where
  "Next d input =
     (if fd_error d \<noteq> kOk then (DecodeError, d)
      else if length input < kFrameHeaderSize then (NeedMore, d)
      else case DecodeFrameHeader input (fd_max_payload d) of
        Inl e \<Rightarrow> (DecodeError, d\<lparr>fd_error := e\<rparr>)
      | Inr header \<Rightarrow>
          let total = kFrameHeaderSize + unat (fh_payload_len header) in
          if length input < total then (NeedMore, d)
          else let payload = slice kFrameHeaderSize (unat (fh_payload_len header)) input in
            if payload \<noteq> [] \<and> Crc32c payload \<noteq> fh_payload_crc header
            then (DecodeError, d\<lparr>fd_error := kCorruption\<rparr>)
            else if payload = [] \<and> fh_payload_crc header \<noteq> 0
            then (DecodeError, d\<lparr>fd_error := kProtocolError\<rparr>)
            else (GotFrame \<lparr>fr_header = header, fr_payload = payload, fr_total_size = total\<rparr>, d))"

definition BytesNeeded :: "bytes \<Rightarrow> nat" where
  "BytesNeeded input =
     (if length input < kFrameHeaderSize then kFrameHeaderSize - length input
      else let total = kFrameHeaderSize + unat (LoadLe32 (drop 16 input))
           in if length input \<ge> total then 0 else total - length input)"

definition Decoder_Reset :: "frame_decoder \<Rightarrow> frame_decoder" where
  "Decoder_Reset d = d\<lparr>fd_error := kOk\<rparr>"

section \<open>Encoded frames\<close>

definition header_prefix :: "frame_header \<Rightarrow> bytes" where
  "header_prefix h =
     StoreLe32 kFrameMagic @ StoreLe16 (fh_version h) @ StoreLe16 (opcode_u16 (fh_opcode h)) @
     StoreLe64 (fh_request_id h) @ StoreLe32 (fh_payload_len h) @ StoreLe16 (fh_flags h) @
     StoreLe16 0 @ StoreLe32 (fh_payload_crc h)"

definition header_wire :: "frame_header \<Rightarrow> bytes" where
  "header_wire h = header_prefix h @ StoreLe32 (Crc32c (header_prefix h))"

lemma length_header [simp]: "length (header_prefix h) = 28" "length (header_wire h) = 32"
  by (simp_all add: header_prefix_def header_wire_def)

lemma EncodeFrameHeader_wire:
  assumes "32 \<le> length dst"
  shows "EncodeFrameHeader h dst = header_wire h @ drop 32 dst"
proof -
  have pre: "overwrite 24 (StoreLe32 (fh_payload_crc h)) (overwrite 22 (StoreLe16 0)
      (overwrite 20 (StoreLe16 (fh_flags h)) (overwrite 16 (StoreLe32 (fh_payload_len h))
      (overwrite 8 (StoreLe64 (fh_request_id h)) (overwrite 6 (StoreLe16 (opcode_u16 (fh_opcode h)))
      (overwrite 4 (StoreLe16 (fh_version h)) (overwrite 0 (StoreLe32 kFrameMagic) dst))))))) =
      header_prefix h @ drop 28 dst"
    by (simp add: overwrite_front overwrite_skip header_prefix_def)
  show ?thesis
    unfolding EncodeFrameHeader_def Let_def pre
    by (simp add: overwrite_skip overwrite_front header_wire_def)
qed

lemma DecodeFrameHeader_wire:
  assumes "fh_version h = 1" "fh_opcode h \<noteq> OpUnknown" "fh_payload_len h \<le> max_payload"
  shows "DecodeFrameHeader (header_wire h @ rest) max_payload = Inr h"
proof -
  have "take 28 (header_wire h @ rest) = header_prefix h"
    and "drop 28 (header_wire h @ rest) = StoreLe32 (Crc32c (header_prefix h)) @ rest"
    by (simp_all add: header_wire_def)
  then show ?thesis
    using assms
    by (simp add: DecodeFrameHeader_def Let_def kMinSupportedVersion_def kProtocolVersion_def)
      (simp add: header_wire_def header_prefix_def)
qed

lemma EncodeFrame_Readable:
  assumes "buf_ok out"
  shows "buf_ok (EncodeFrame out h payload)"
    and "Readable (EncodeFrame out h payload) =
      Readable out @ header_wire (complete_header h payload) @ payload"
proof -
  let ?n = "kFrameHeaderSize + length payload"
  let ?c = "complete_header h payload"
  let ?b = "EnsureWritable ?n out"
  have w: "32 \<le> WritableBytes ?b"
    using WritableBytes_EnsureWritable [OF assms, of ?n] by (simp add: kFrameHeaderSize_def)
  then have p: "with_write_ptr (EncodeFrameHeader ?c) ?b = poke 0 (header_wire ?c) ?b"
    using assms
    by (intro with_write_ptr_poke) (simp_all add: EncodeFrameHeader_wire WritableBytes_def)
  have "buf_ok (Commit kFrameHeaderSize (poke 0 (header_wire ?c) ?b))"
    "Readable (Commit kFrameHeaderSize (poke 0 (header_wire ?c) ?b)) = Readable out @ header_wire ?c"
    using poke_Commit [of ?b "header_wire ?c"] w assms
    by (simp_all add: Readable_EnsureWritable kFrameHeaderSize_def)
  then show "buf_ok (EncodeFrame out h payload)"
    and "Readable (EncodeFrame out h payload) = Readable out @ header_wire ?c @ payload"
    unfolding EncodeFrame_def Let_def p by auto
qed

definition frame_of :: "frame_header \<Rightarrow> bytes \<Rightarrow> frame" where
  "frame_of h payload =
     \<lparr>fr_header = complete_header h payload, fr_payload = payload,
      fr_total_size = kFrameHeaderSize + length payload\<rparr>"

definition frame_wire :: "frame_header \<Rightarrow> bytes \<Rightarrow> bytes" where
  "frame_wire h payload = header_wire (complete_header h payload) @ payload"

definition frame_wf :: "u32 \<Rightarrow> frame_header \<Rightarrow> bytes \<Rightarrow> bool" where
  "frame_wf max_payload h payload \<longleftrightarrow>
     fh_version h = kProtocolVersion \<and> fh_opcode h \<noteq> OpUnknown \<and> length payload \<le> unat max_payload"

lemma frame_payload_length:
  assumes "frame_wf m h payload"
  shows "unat (word_of_nat (length payload) :: u32) = length payload"
    and "(word_of_nat (length payload) :: u32) \<le> m"
proof -
  have "unat m < 2 ^ LENGTH(32)" by (rule unsigned_less)
  then have "length payload < 2 ^ 32" using assms by (simp add: frame_wf_def)
  then show l: "unat (word_of_nat (length payload) :: u32) = length payload"
    by (simp add: unsigned_of_nat take_bit_nat_eq_self)
  show "(word_of_nat (length payload) :: u32) \<le> m"
    using assms l by (simp add: word_le_nat_alt frame_wf_def)
qed

lemma Next_frame_wire:
  assumes "frame_wf (fd_max_payload d) h payload" "fd_error d = kOk"
  shows "Next d (frame_wire h payload @ rest) = (GotFrame (frame_of h payload), d)"
proof -
  let ?c = "complete_header h payload"
  have "DecodeFrameHeader (header_wire ?c @ payload @ rest) (fd_max_payload d) = Inr ?c"
    using assms(1) frame_payload_length(2) [OF assms(1)]
    by (intro DecodeFrameHeader_wire) (simp_all add: complete_header_def frame_wf_def kProtocolVersion_def)
  moreover have "unat (fh_payload_len ?c) = length payload"
    using frame_payload_length(1) [OF assms(1)] by (simp add: complete_header_def)
  moreover have "slice 32 (length payload) (header_wire ?c @ payload @ rest) = payload"
    by (simp add: slice_def)
  ultimately show ?thesis
    using assms(2)
    by (simp add: Next_def frame_wire_def frame_of_def kFrameHeaderSize_def Let_def)
      (simp add: complete_header_def)
qed

section \<open>Corruption\<close>

lemma header_accepted_codeword:
  assumes "length hdr = 32" "DecodeFrameHeader hdr m = Inr h"
  shows "Crc32c hdr = NOT ((bit_step ^^ 32) (- 1))"
proof -
  have "LoadLe32 (drop 28 hdr) = Crc32c (take 28 hdr)"
    using assms(2) by (auto simp: DecodeFrameHeader_def Let_def split: if_splits)
  then show ?thesis using crc_codeword [of "drop 28 hdr" "take 28 hdr"] assms(1) by simp
qed

lemma header_burst_rejected:
  assumes "length (pre @ x @ post) = 32" "length x = length y" "length x \<le> 4" "x \<noteq> y"
    and "DecodeFrameHeader (pre @ x @ post) m = Inr h"
  shows "\<exists>e. DecodeFrameHeader (pre @ y @ post) m = Inl e"
proof (cases "DecodeFrameHeader (pre @ y @ post) m")
  case (Inr h')
  with assms header_accepted_codeword [of "pre @ y @ post" m h']
    header_accepted_codeword [of "pre @ x @ post" m h] Crc32c_burst [of x y pre post]
  show ?thesis by simp
qed blast

section \<open>Streams of frames\<close>

lemma Next_error_sticky: "fd_error d \<noteq> kOk \<Longrightarrow> Next d input = (DecodeError, d)"
  by (simp add: Next_def)

lemma DecodeFrameHeader_append:
  "32 \<le> length a \<Longrightarrow> DecodeFrameHeader (a @ b) m = DecodeFrameHeader a m"
  by (simp add: DecodeFrameHeader_def Let_def LoadLe32_def LoadLe16_def LoadLe64_def)

lemma Next_GotFrame_size: "Next d input = (GotFrame f, d') \<Longrightarrow> 32 \<le> fr_total_size f \<and> fr_total_size f \<le> length input \<and> d' = d"
  by (auto simp: Next_def Let_def kFrameHeaderSize_def split: if_splits sum.splits)

lemma Next_append:
  assumes "Next d a = (s, d')" "s \<noteq> NeedMore"
  shows "Next d (a @ b) = (s, d')"
proof (cases "fd_error d = kOk \<and> 32 \<le> length a")
  case True
  then have "DecodeFrameHeader (a @ b) m = DecodeFrameHeader a m" for m
    by (simp add: DecodeFrameHeader_append)
  with True assms show ?thesis
    by (auto simp: Next_def Let_def kFrameHeaderSize_def slice_append_left
        split: sum.splits if_splits)
next
  case False
  with assms show ?thesis
    by (auto simp: Next_def kFrameHeaderSize_def split: if_splits)
qed

lemma Next_shrinks:
  "(GotFrame f, d') = Next d input \<Longrightarrow> length input - fr_total_size f < length input"
  using Next_GotFrame_size [of d input f d'] by auto

text \<open>The frames a reader obtains from its buffer, with what is left unread.\<close>

function drain :: "frame_decoder \<Rightarrow> bytes \<Rightarrow> frame list \<times> bytes \<times> frame_decoder" where
  "drain d input =
     (case Next d input of
        (GotFrame f, d') \<Rightarrow>
          (let (fs, rest, d'') = drain d' (drop (fr_total_size f) input) in (f # fs, rest, d''))
      | (_, d') \<Rightarrow> ([], input, d'))"
  by pat_completeness auto
termination
  by (relation "measure (\<lambda>(d, input). length input)") (auto dest: Next_shrinks)

declare drain.simps [simp del]

text \<open>One more chunk from the socket joins what was left unread.\<close>

definition feed :: "frame list \<times> bytes \<times> frame_decoder \<Rightarrow> bytes \<Rightarrow> frame list \<times> bytes \<times> frame_decoder" where
  "feed st chunk =
     (case st of (fs, buf, d) \<Rightarrow> let (gs, rest, d') = drain d (buf @ chunk) in (fs @ gs, rest, d'))"

lemma Next_NeedMore_same: "Next d input = (NeedMore, d') \<Longrightarrow> d' = d"
  by (auto simp: Next_def Let_def split: if_splits sum.splits)

lemma DecodeFrameHeader_error: "DecodeFrameHeader src m = Inl e \<Longrightarrow> e \<noteq> kOk"
  by (auto simp: DecodeFrameHeader_def Let_def split: if_splits)

lemma Next_DecodeError: "Next d input = (DecodeError, d') \<Longrightarrow> fd_error d' \<noteq> kOk"
  by (auto simp: Next_def Let_def split: if_splits sum.splits dest: DecodeFrameHeader_error)

lemma drain_append: "drain d (a @ b) = feed (drain d a) b"
proof (induction d a rule: drain.induct)
  case (1 d a)
  obtain st d' where n: "Next d a = (st, d')" by fastforce
  show ?case
  proof (cases st)
    case NeedMore
    with n show ?thesis using Next_NeedMore_same [of d a d']
      by (simp add: drain.simps [of d a] feed_def split: prod.split)
  next
    case (GotFrame f)
    with n have "fr_total_size f \<le> length a" and d: "d' = d"
      using Next_GotFrame_size [of d a f d'] by simp_all
    then have "drop (fr_total_size f) (a @ b) = drop (fr_total_size f) a @ b" by simp
    moreover have "Next d (a @ b) = (GotFrame f, d)"
      using Next_append [OF n] GotFrame d by simp
    moreover have "drain d (drop (fr_total_size f) a @ b) = feed (drain d (drop (fr_total_size f) a)) b"
      using 1 n GotFrame d by auto
    ultimately show ?thesis
      using n GotFrame d
      by (simp add: drain.simps [of d a] drain.simps [of d "a @ b"] feed_def split: prod.splits)
  next
    case DecodeError
    with n have "Next d (a @ b) = (DecodeError, d')" "Next d' (a @ b) = (DecodeError, d')"
      using Next_append [OF n] Next_DecodeError [of d a d'] by (simp_all add: Next_error_sticky)
    with n DecodeError show ?thesis
      by (simp add: drain.simps [of d a] drain.simps [of d "a @ b"] drain.simps [of d' "a @ b"] feed_def)
  qed
qed

lemma drain_Nil: "fd_error d = kOk \<Longrightarrow> drain d [] = ([], [], d)"
  by (simp add: drain.simps Next_def kFrameHeaderSize_def)

lemma feed_chunks: "foldl feed (drain d a) chunks = drain d (a @ concat chunks)"
proof (induction chunks arbitrary: a)
  case (Cons c cs)
  show ?case using Cons [of "a @ c"] by (simp add: drain_append)
qed simp

lemma drain_frames:
  assumes "fd_error d = kOk" "list_all (\<lambda>(h, p). frame_wf (fd_max_payload d) h p) hps"
  shows "drain d (concat (map (\<lambda>(h, p). frame_wire h p) hps)) = (map (\<lambda>(h, p). frame_of h p) hps, [], d)"
  using assms(2)
proof (induction hps)
  case Nil
  then show ?case using assms(1) by (simp add: drain_Nil)
next
  case (Cons hp hps)
  obtain h p where hp: "hp = (h, p)" by fastforce
  let ?rest = "concat (map (\<lambda>(h, p). frame_wire h p) hps)"
  have "Next d (frame_wire h p @ ?rest) = (GotFrame (frame_of h p), d)"
    using Cons.prems hp assms(1) by (intro Next_frame_wire) simp_all
  moreover have "drop (fr_total_size (frame_of h p)) (frame_wire h p @ ?rest) = ?rest"
    by (simp add: frame_of_def frame_wire_def kFrameHeaderSize_def)
  ultimately show ?case
    using Cons hp by (simp add: drain.simps [of d "frame_wire h p @ ?rest"])
qed

lemma feed_error:
  "fd_error d \<noteq> kOk \<Longrightarrow> foldl feed (fs, buf, d) chunks = (fs, buf @ concat chunks, d)"
proof (induction chunks arbitrary: buf)
  case (Cons c cs)
  then have "feed (fs, buf, d) c = (fs, buf @ c, d)"
    by (simp add: feed_def drain.simps Next_error_sticky)
  with Cons show ?case by simp
qed simp

section \<open>Properties\<close>

text \<open>
  C22: framing survives fragmentation.  When a peer sends frames one after another, then however
  the stream is cut into chunks, the decoder delivers exactly those frames, in order and with
  their payloads, leaves nothing unread and reports no error.
\<close>

theorem frame_stream_reassembly:
  assumes "list_all (\<lambda>(h, p). frame_wf max_payload h p) hps"
    and "concat chunks = concat (map (\<lambda>(h, p). Readable (EncodeFrame EmptyBuffer h p)) hps)"
  shows "foldl feed (drain (FrameDecoder max_payload) []) chunks =
    (map (\<lambda>(h, p). frame_of h p) hps, [], FrameDecoder max_payload)"
proof -
  have "concat chunks = concat (map (\<lambda>(h, p). frame_wire h p) hps)"
    using assms(2) by (simp add: EncodeFrame_Readable(2) frame_wire_def)
  then show ?thesis
    using feed_chunks [of "FrameDecoder max_payload" "[]" chunks]
      drain_frames [of "FrameDecoder max_payload" hps] assms(1)
    by (simp add: FrameDecoder_def)
qed

definition sample_header :: frame_header where
  "sample_header = \<lparr>fh_version = 1, fh_opcode = Produce, fh_request_id = 7, fh_payload_len = 0,
     fh_flags = 0, fh_payload_crc = 0\<rparr>"

theorem frame_stream_reassembly_witness:
  "let w = Readable (EncodeFrame EmptyBuffer sample_header [1, 2, 3]) in
   foldl feed (drain (FrameDecoder 100) []) [take 5 w, drop 5 w @ take 33 w, drop 33 w] =
     ([frame_of sample_header [1, 2, 3], frame_of sample_header [1, 2, 3]], [], FrameDecoder 100)"
  using frame_stream_reassembly [of 100 "[(sample_header, [1, 2, 3]), (sample_header, [1, 2, 3])]"
      "let w = Readable (EncodeFrame EmptyBuffer sample_header [1, 2, 3])
       in [take 5 w, drop 5 w @ take 33 w, drop 33 w]"]
  by (simp add: Let_def frame_wf_def sample_header_def kProtocolVersion_def)

text \<open>
  C29: whatever bytes arrive, well-formed or not, the frames delivered and the error reported do
  not depend on how the stream is cut into chunks; and once the decoder has reported an error it
  never delivers another frame.
\<close>

theorem frame_decoder_fragmentation_independent:
  assumes "concat chunks = concat chunks'" "foldl feed (drain (FrameDecoder m) []) chunks = (fs, rest, d)"
  shows "foldl feed (drain (FrameDecoder m) []) chunks' = (fs, rest, d) \<and>
    (fd_error d \<noteq> kOk \<longrightarrow> fst (foldl feed (drain (FrameDecoder m) []) (chunks @ later)) = fs)"
  using assms feed_error [of d fs rest later] by (simp add: feed_chunks [of _ "[]" chunks']) (simp add: feed_chunks)

theorem frame_decoder_fragmentation_independent_witness:
  "foldl feed (drain (FrameDecoder 100) []) [[1], [2]] = ([], [1, 2], FrameDecoder 100)"
  using frame_decoder_fragmentation_independent
    [of "[[1, 2]]" "[[1], [2]]" 100 "[]" "[1, 2]" "FrameDecoder 100" "[]"]
  by (simp add: feed_def drain.simps Next_def FrameDecoder_def kFrameHeaderSize_def)

text \<open>
  C27: a frame header damaged in up to four consecutive bytes, anywhere in its 32 bytes and
  whatever the damage, is never accepted.
\<close>

theorem DecodeFrameHeader_rejects_burst:
  assumes "length (pre @ x @ post) = kFrameHeaderSize" "length x = length y" "length x \<le> 4" "x \<noteq> y"
    and "DecodeFrameHeader (pre @ x @ post) m = Inr h"
  shows "\<exists>e. DecodeFrameHeader (pre @ y @ post) m = Inl e"
  using assms header_burst_rejected unfolding kFrameHeaderSize_def by blast

theorem DecodeFrameHeader_rejects_burst_witness:
  "\<exists>e. DecodeFrameHeader (StoreLe32 kFrameMagic @ StoreLe16 2 @ drop 6 (header_wire sample_header)) 100 = Inl e"
proof (rule DecodeFrameHeader_rejects_burst)
  have "StoreLe32 kFrameMagic @ StoreLe16 1 @ drop 6 (header_wire sample_header) = header_wire sample_header"
    by (simp add: header_wire_def header_prefix_def sample_header_def)
  then show "DecodeFrameHeader (StoreLe32 kFrameMagic @ StoreLe16 1 @ drop 6 (header_wire sample_header)) 100
      = Inr sample_header"
    using DecodeFrameHeader_wire [of sample_header 100 "[]"] by (simp add: sample_header_def)
  show "StoreLe16 1 \<noteq> StoreLe16 2"
    by (rule notI, drule arg_cong [where f = LoadLe16]) simp
qed (simp_all add: kFrameHeaderSize_def)

end
