(* ===== verification/PL_Codec.thy ===== *)
theory PL_Codec
  imports PL_Base PL_Buffer PL_Endian
begin

text \<open>
  The payload primitives of \<open>include/pulselog/protocol/codec.h\<close>: \<open>PayloadWriter\<close> as operations
  on the \<open>byte_buffer\<close> it appends to, \<open>PayloadReader\<close> as a cursor over the payload that fails
  permanently on the first short read.  The predicate \<open>parses\<close> and the locale \<open>wire_codec\<close> state
  the contract between a writer and its reader that every message of the protocol relies on.
\<close>

section \<open>PayloadWriter\<close>

definition PutU8 :: "u8 \<Rightarrow> byte_buffer \<Rightarrow> byte_buffer" where
  "PutU8 v out = AppendByte v out"

definition PutU16 :: "u16 \<Rightarrow> byte_buffer \<Rightarrow> byte_buffer" where
  "PutU16 v out = Commit 2 (poke 0 (StoreLe16 v) (EnsureWritable 2 out))"

definition PutU32 :: "u32 \<Rightarrow> byte_buffer \<Rightarrow> byte_buffer" where
  "PutU32 v out = Commit 4 (poke 0 (StoreLe32 v) (EnsureWritable 4 out))"

definition PutU64 :: "u64 \<Rightarrow> byte_buffer \<Rightarrow> byte_buffer" where
  "PutU64 v out = Commit 8 (poke 0 (StoreLe64 v) (EnsureWritable 8 out))"

definition PutI16 :: "int \<Rightarrow> byte_buffer \<Rightarrow> byte_buffer" where
  "PutI16 v = PutU16 (word_of_int v)"

definition PutI32 :: "int \<Rightarrow> byte_buffer \<Rightarrow> byte_buffer" where
  "PutI32 v = PutU32 (word_of_int v)"

definition PutI64 :: "int \<Rightarrow> byte_buffer \<Rightarrow> byte_buffer" where
  "PutI64 v = PutU64 (word_of_int v)"

definition PutBool :: "bool \<Rightarrow> byte_buffer \<Rightarrow> byte_buffer" where
  "PutBool v = PutU8 (if v then 1 else 0)"

text \<open>The bytes the LEB128 loop stores, seven bits at a time.\<close>

function varuint_bytes :: "u64 \<Rightarrow> bytes" where
  "varuint_bytes v = (if v \<ge> 0x80 then (ucast v OR 0x80) # varuint_bytes (drop_bit 7 v) else [ucast v])"
  by auto
termination
proof (relation "measure unat")
  fix v :: u64
  assume v: "0x80 \<le> v"
  have "unat (drop_bit 7 v) = drop_bit 7 (unat v)"
    by (rule unat_drop_bit_eq)
  then have "unat (drop_bit 7 v) = unat v div 128"
    by (simp only: drop_bit_eq_div) simp
  moreover have "128 \<le> unat v" using v by (simp add: word_le_nat_alt)
  ultimately show "(drop_bit 7 v, v) \<in> measure unat" by simp
qed simp

declare varuint_bytes.simps [simp del]

definition PutVarUInt :: "u64 \<Rightarrow> byte_buffer \<Rightarrow> byte_buffer" where
  "PutVarUInt v out =
     (let p = varuint_bytes v in Commit (length p) (poke 0 p (EnsureWritable 10 out)))"

definition PutVarInt :: "int \<Rightarrow> byte_buffer \<Rightarrow> byte_buffer" where
  "PutVarInt v = PutVarUInt (ZigZagEncode v)"

definition PutString :: "string \<Rightarrow> byte_buffer \<Rightarrow> byte_buffer" where
  "PutString s out = Append (AsBytes s) (PutU16 (word_of_nat (length s)) out)"

definition PutBytes :: "bytes \<Rightarrow> byte_buffer \<Rightarrow> byte_buffer" where
  "PutBytes b out = Append b (PutU32 (word_of_nat (length b)) out)"

definition PutNullableBytes :: "bytes option \<Rightarrow> byte_buffer \<Rightarrow> byte_buffer" where
  "PutNullableBytes d out =
     (case d of None \<Rightarrow> PutU32 0xFFFFFFFF out
      | Some b \<Rightarrow> Append b (PutU32 (word_of_nat (length b)) out))"

definition PutRaw :: "bytes \<Rightarrow> byte_buffer \<Rightarrow> byte_buffer" where
  "PutRaw b out = Append b out"

definition PutArrayLen :: "nat \<Rightarrow> byte_buffer \<Rightarrow> byte_buffer" where
  "PutArrayLen n = PutU32 (word_of_nat n)"

section \<open>PayloadReader\<close>

record reader =
  rd_data :: bytes
  rd_pos :: nat
  rd_failed :: bool

type_synonym 'a get = "reader \<Rightarrow> 'a option \<times> reader"

definition PayloadReader :: "bytes \<Rightarrow> reader" where
  "PayloadReader input = \<lparr>rd_data = input, rd_pos = 0, rd_failed = False\<rparr>"

definition Remaining :: "reader \<Rightarrow> nat" where
  "Remaining r = length (rd_data r) - rd_pos r"

definition Fail :: "'a get" where
  "Fail r = (None, r\<lparr>rd_failed := True\<rparr>)"

text \<open>The early return \<open>if (!Get(...)) return false;\<close> between two reads.\<close>

definition get_return :: "'a \<Rightarrow> 'a get" where
  "get_return x r = (Some x, r)"

definition get_bind :: "'a get \<Rightarrow> ('a \<Rightarrow> 'b get) \<Rightarrow> 'b get" where
  "get_bind g f r = (case g r of (None, r') \<Rightarrow> (None, r') | (Some x, r') \<Rightarrow> f x r')"

definition advance :: "nat \<Rightarrow> reader \<Rightarrow> reader" where
  "advance n r = r\<lparr>rd_pos := rd_pos r + n\<rparr>"

definition GetU8 :: "u8 get" where
  "GetU8 r = (if Remaining r < 1 then Fail r else (Some (rd_data r ! rd_pos r), advance 1 r))"

definition GetU16 :: "u16 get" where
  "GetU16 r =
     (if Remaining r < 2 then Fail r else (Some (LoadLe16 (drop (rd_pos r) (rd_data r))), advance 2 r))"

definition GetU32 :: "u32 get" where
  "GetU32 r =
     (if Remaining r < 4 then Fail r else (Some (LoadLe32 (drop (rd_pos r) (rd_data r))), advance 4 r))"

definition GetU64 :: "u64 get" where
  "GetU64 r =
     (if Remaining r < 8 then Fail r else (Some (LoadLe64 (drop (rd_pos r) (rd_data r))), advance 8 r))"

definition GetI16 :: "int get" where
  "GetI16 = get_bind GetU16 (\<lambda>raw. get_return (sint raw))"

definition GetI32 :: "int get" where
  "GetI32 = get_bind GetU32 (\<lambda>raw. get_return (sint raw))"

definition GetI64 :: "int get" where
  "GetI64 = get_bind GetU64 (\<lambda>raw. get_return (sint raw))"

definition GetBool :: "bool get" where
  "GetBool = get_bind GetU8 (\<lambda>raw. get_return (raw \<noteq> 0))"

text \<open>The varint loop; the shift runs through 0, 7, \<dots>, 63.\<close>

function varuint_loop :: "nat \<Rightarrow> u64 \<Rightarrow> u64 get" where
  "varuint_loop shift value r =
     (if shift \<le> 63 then
        if Remaining r < 1 then Fail r
        else let b = rd_data r ! rd_pos r;
                 r' = advance 1 r;
                 value' = value OR push_bit shift (ucast (b AND 0x7F))
             in if b AND 0x80 = 0 then (Some value', r') else varuint_loop (shift + 7) value' r'
      else Fail r)"
  by pat_completeness auto
termination by (relation "measure (\<lambda>(shift, value, r). 70 - shift)") auto

declare varuint_loop.simps [simp del]

definition GetVarUInt :: "u64 get" where
  "GetVarUInt = varuint_loop 0 0"

definition GetVarInt :: "int get" where
  "GetVarInt = get_bind GetVarUInt (\<lambda>raw. get_return (ZigZagDecode raw))"

definition take_view :: "nat \<Rightarrow> bytes get" where
  "take_view len r =
     (if Remaining r < len then Fail r
      else (Some (slice (rd_pos r) len (rd_data r)), advance len r))"

definition GetStringView :: "string get" where
  "GetStringView =
     get_bind GetU16 (\<lambda>len. get_bind (take_view (unat len)) (\<lambda>b. get_return (AsStringView b)))"

definition GetString :: "string get" where
  "GetString = GetStringView"

definition GetBytesView :: "bytes get" where
  "GetBytesView =
     get_bind GetU32 (\<lambda>len. if len = 0xFFFFFFFF then get_return [] else take_view (unat len))"

definition GetArrayLen :: "nat \<Rightarrow> nat get" where
  "GetArrayLen max_elements =
     get_bind GetU32 (\<lambda>n. if unat n > max_elements then Fail else get_return (unat n))"

definition GetRemaining :: "bytes get" where
  "GetRemaining r = (Some (drop (rd_pos r) (rd_data r)), r\<lparr>rd_pos := length (rd_data r)\<rparr>)"

definition Skip :: "nat \<Rightarrow> unit get" where
  "Skip n r = (if Remaining r < n then Fail r else (Some (), advance n r))"

definition Complete :: "reader \<Rightarrow> bool" where
  "Complete r \<longleftrightarrow> \<not> rd_failed r \<and> Remaining r = 0"

section \<open>What the writer appends\<close>

lemma Put_Append:
  "PutU8 a out = Append [a] out" "PutU16 b out = Append (StoreLe16 b) out"
  "PutU32 c out = Append (StoreLe32 c) out" "PutU64 d out = Append (StoreLe64 d) out"
  by (simp_all add: PutU8_def PutU16_def PutU32_def PutU64_def AppendByte_Append Append_def
      flip: length_0_conv)

lemma varuint_bytes_nonempty [simp]: "varuint_bytes v \<noteq> []"
  by (subst varuint_bytes.simps) simp

lemma drop_bit_7_bound: "unat v < 2 ^ (7 * Suc k) \<Longrightarrow> unat (drop_bit 7 v) < 2 ^ (7 * k)" for v :: u64
proof -
  assume "unat v < 2 ^ (7 * Suc k)"
  then have "unat v div 128 < 2 ^ (7 * k)" by (simp add: power_add less_mult_imp_div_less mult.commute)
  moreover have "unat (drop_bit 7 v) = drop_bit 7 (unat v)" by (rule unat_drop_bit_eq)
  ultimately show ?thesis by (simp only: drop_bit_eq_div) simp
qed

lemma length_varuint_bytes_bound: "unat v < 2 ^ (7 * k) \<Longrightarrow> 0 < k \<Longrightarrow> length (varuint_bytes v) \<le> k"
proof (induction v arbitrary: k rule: varuint_bytes.induct)
  case (1 v)
  show ?case
  proof (cases "0x80 \<le> v")
    case True
    then have "128 \<le> unat v" by (simp add: word_le_nat_alt)
    with "1.prems" obtain j where k: "k = Suc j" "0 < j"
      by (cases k; cases "k - 1") auto
    with "1.IH" [OF True drop_bit_7_bound] "1.prems" True show ?thesis
      by (subst varuint_bytes.simps) simp
  next
    case False
    with "1.prems" show ?thesis by (subst varuint_bytes.simps) simp
  qed
qed

lemma length_varuint_bytes: "length (varuint_bytes v) \<le> 10"
proof (rule length_varuint_bytes_bound)
  have "unat v < 2 ^ LENGTH(64)" by (rule unsigned_less)
  then show "unat v < 2 ^ (7 * 10)" by simp
qed simp

lemma buf_ok_PutVarUInt [simp]: "buf_ok out \<Longrightarrow> buf_ok (PutVarUInt v out)"
  and Readable_PutVarUInt [simp, buffer_simps]:
    "buf_ok out \<Longrightarrow> Readable (PutVarUInt v out) = Readable out @ varuint_bytes v"
  using length_varuint_bytes [of v] WritableBytes_EnsureWritable [of out 10]
  by (simp_all add: PutVarUInt_def Let_def poke_Commit Readable_EnsureWritable)

lemma buf_ok_Put [simp]:
  assumes "buf_ok out"
  shows "buf_ok (PutU8 a out)" "buf_ok (PutU16 b out)" "buf_ok (PutU32 c out)" "buf_ok (PutU64 d out)"
    "buf_ok (PutI16 x out)" "buf_ok (PutI32 y out)" "buf_ok (PutI64 z out)" "buf_ok (PutBool t out)"
    "buf_ok (PutVarInt w out)" "buf_ok (PutString s out)" "buf_ok (PutBytes bs out)"
    "buf_ok (PutNullableBytes nb out)" "buf_ok (PutRaw bs out)" "buf_ok (PutArrayLen n out)"
  using assms
  by (simp_all add: Put_Append PutI16_def PutI32_def PutI64_def PutBool_def PutVarInt_def
      PutString_def PutBytes_def PutNullableBytes_def PutRaw_def PutArrayLen_def split: option.split)

definition string_bytes :: "string \<Rightarrow> bytes" where
  "string_bytes s = StoreLe16 (word_of_nat (length s)) @ AsBytes s"

definition blob_bytes :: "bytes \<Rightarrow> bytes" where
  "blob_bytes b = StoreLe32 (word_of_nat (length b)) @ b"

lemma Readable_Put [simp, buffer_simps]:
  assumes "buf_ok out"
  shows "Readable (PutU8 a out) = Readable out @ [a]"
    "Readable (PutU16 b out) = Readable out @ StoreLe16 b"
    "Readable (PutU32 c out) = Readable out @ StoreLe32 c"
    "Readable (PutU64 d out) = Readable out @ StoreLe64 d"
    "Readable (PutI16 x out) = Readable out @ StoreLeI16 x"
    "Readable (PutI32 y out) = Readable out @ StoreLeI32 y"
    "Readable (PutI64 z out) = Readable out @ StoreLeI64 z"
    "Readable (PutBool t out) = Readable out @ [if t then 1 else 0]"
    "Readable (PutVarInt w out) = Readable out @ varuint_bytes (ZigZagEncode w)"
    "Readable (PutString s out) = Readable out @ string_bytes s"
    "Readable (PutBytes bs out) = Readable out @ blob_bytes bs"
    "Readable (PutRaw bs out) = Readable out @ bs"
    "Readable (PutArrayLen n out) = Readable out @ StoreLe32 (word_of_nat n)"
  using assms
  by (simp_all add: Put_Append PutI16_def PutI32_def PutI64_def PutBool_def PutVarInt_def
      PutString_def PutBytes_def PutRaw_def PutArrayLen_def string_bytes_def blob_bytes_def
      StoreLeI16_def StoreLeI32_def StoreLeI64_def)

section \<open>What the reader makes of it\<close>

definition rd_rest :: "reader \<Rightarrow> bytes" where
  "rd_rest r = drop (rd_pos r) (rd_data r)"

definition parses :: "'a get \<Rightarrow> bytes \<Rightarrow> 'a \<Rightarrow> bool" where
  "parses g bs v \<longleftrightarrow> (\<forall>r tail. rd_rest r = bs @ tail \<longrightarrow> g r = (Some v, advance (length bs) r))"

lemma rd_rest_advance [simp]: "rd_rest (advance n r) = drop n (rd_rest r)"
  by (simp add: rd_rest_def advance_def add.commute)

lemma advance_advance [simp]: "advance n (advance m r) = advance (m + n) r"
  by (simp add: advance_def add.assoc)

lemma advance_0 [simp]: "advance 0 r = r"
  by (simp add: advance_def)

lemma Remaining_rest: "Remaining r = length (rd_rest r)"
  by (simp add: Remaining_def rd_rest_def)

lemma nth_rest: "rd_rest r = b # tail \<Longrightarrow> rd_data r ! rd_pos r = b"
  unfolding rd_rest_def by (metis hd_drop_conv_nth list.sel(1) drop_eq_Nil linorder_not_le list.discI)

lemma parsesD: "parses g bs v \<Longrightarrow> rd_rest r = bs @ tail \<Longrightarrow> g r = (Some v, advance (length bs) r)"
  by (simp add: parses_def)

lemma parses_return [parses_intros]: "parses (get_return v) [] v"
  by (simp add: parses_def get_return_def)

lemma parses_bind:
  "parses g bs v \<Longrightarrow> parses (f v) bs' w \<Longrightarrow> parses (get_bind g f) (bs @ bs') w"
  by (simp add: parses_def get_bind_def)

lemma parses_bind_return:
  "parses g bs v \<Longrightarrow> w = h v \<Longrightarrow> parses (get_bind g (\<lambda>x. get_return (h x))) bs w"
  using parses_bind [OF _ parses_return, of g bs v "\<lambda>x. get_return (h x)"]
  by (simp add: parses_def get_bind_def get_return_def)

lemma parses_U8 [parses_intros]: "parses GetU8 [v] v"
  by (simp add: parses_def GetU8_def Remaining_rest nth_rest)

lemma parses_U16 [parses_intros]: "parses GetU16 (StoreLe16 v) v"
  by (simp add: parses_def GetU16_def Remaining_rest flip: rd_rest_def)

lemma parses_U32 [parses_intros]: "parses GetU32 (StoreLe32 v) v"
  by (simp add: parses_def GetU32_def Remaining_rest flip: rd_rest_def)

lemma parses_U64 [parses_intros]: "parses GetU64 (StoreLe64 v) v"
  by (simp add: parses_def GetU64_def Remaining_rest flip: rd_rest_def)

lemma parses_I16 [parses_intros]: "is_i16 v \<Longrightarrow> parses GetI16 (StoreLeI16 v) v"
  unfolding GetI16_def StoreLeI16_def
  by (rule parses_bind_return [OF parses_U16]) (simp add: sint_word_of_int_range is_i16_def)

lemma parses_I32 [parses_intros]: "is_i32 v \<Longrightarrow> parses GetI32 (StoreLeI32 v) v"
  unfolding GetI32_def StoreLeI32_def
  by (rule parses_bind_return [OF parses_U32]) (simp add: sint_word_of_int_range is_i32_def)

lemma parses_I64 [parses_intros]: "is_i64 v \<Longrightarrow> parses GetI64 (StoreLeI64 v) v"
  unfolding GetI64_def StoreLeI64_def
  by (rule parses_bind_return [OF parses_U64]) (simp add: sint_word_of_int_range is_i64_def)

lemma parses_Bool [parses_intros]: "parses GetBool [if v then 1 else 0] v"
  unfolding GetBool_def by (rule parses_bind_return [OF parses_U8]) simp

lemma parses_Bool_cases: "parses GetBool [1] True" "parses GetBool [0] False"
  using parses_Bool [of True] parses_Bool [of False] by simp_all

lemma parses_take_view: "length bs = n \<Longrightarrow> parses (take_view n) bs bs"
  by (simp add: parses_def take_view_def Remaining_rest slice_def flip: rd_rest_def)

definition string_ok :: "string \<Rightarrow> bool" where
  "string_ok s \<longleftrightarrow> length s < 2 ^ 16"

definition blob_ok :: "bytes \<Rightarrow> bool" where
  "blob_ok b \<longleftrightarrow> length b < 0xFFFFFFFF"

lemma unat_of_length16: "n < 2 ^ 16 \<Longrightarrow> unat (word_of_nat n :: u16) = n"
  by (simp add: unsigned_of_nat take_bit_nat_eq_self)

lemma unat_of_length32: "n < 2 ^ 32 \<Longrightarrow> unat (word_of_nat n :: u32) = n"
  by (simp add: unsigned_of_nat take_bit_nat_eq_self)

lemma unat_of_length64: "n < 2 ^ 64 \<Longrightarrow> unat (word_of_nat n :: u64) = n"
  by (simp add: unsigned_of_nat take_bit_nat_eq_self)

lemma parses_String [parses_intros]: "string_ok s \<Longrightarrow> parses GetString (string_bytes s) s"
  unfolding GetString_def GetStringView_def string_bytes_def string_ok_def
  by (intro parses_bind [OF parses_U16] parses_bind_return [OF parses_take_view])
    (simp_all add: unat_of_length16)

lemma parses_Bytes [parses_intros]: "blob_ok b \<Longrightarrow> parses GetBytesView (blob_bytes b) b"
proof -
  assume ok: "blob_ok b"
  then have n: "unat (word_of_nat (length b) :: u32) = length b"
    by (simp add: blob_ok_def unat_of_length32)
  with ok have ne: "(word_of_nat (length b) :: u32) \<noteq> 0xFFFFFFFF"
    by (auto simp: blob_ok_def)
  show ?thesis
    unfolding GetBytesView_def blob_bytes_def
    by (rule parses_bind [OF parses_U32]) (simp add: ne n parses_take_view)
qed

lemma parses_ArrayLen [parses_intros]:
  "n \<le> m \<Longrightarrow> n < 2 ^ 32 \<Longrightarrow> parses (GetArrayLen m) (StoreLe32 (word_of_nat n)) n"
  using parses_U32 [of "word_of_nat n"]
  by (simp add: GetArrayLen_def parses_def get_bind_def get_return_def unat_of_length32)

subsection \<open>Variable-length integers\<close>

lemma and_0x80: "(b :: byte) AND 0x80 = 0 \<longleftrightarrow> \<not> bit b 7"
  using and_exp_eq_0_iff_not_bit [of b 7] by simp

lemma bit_low7: "bit ((b :: byte) AND 0x7F) k \<longleftrightarrow> k < 7 \<and> bit b k"
proof -
  have "(0x7F :: byte) = mask 7" by (simp add: mask_eq_exp_minus_1)
  then show ?thesis by (simp only: bit_and_iff bit_mask_iff) (auto dest: bit_imp_le_length)
qed

lemma bit_or_0x80: "bit ((b :: byte) OR 0x80) k \<longleftrightarrow> bit b k \<or> k = 7"
proof -
  have "(0x80 :: byte) = push_bit 7 1" by simp
  then show ?thesis by (simp only: bit_or_iff bit_push_bit_iff) (auto simp: bit_1_iff)
qed

lemma bit_high_zero: "v < 0x80 \<Longrightarrow> bit v k \<Longrightarrow> k < 7" for v :: u64
proof -
  assume "v < 0x80" and bit: "bit v k"
  then have "unat v < 2 ^ 7" by (simp add: word_less_nat_alt)
  then have "take_bit 7 (unat v) = unat v" by (rule take_bit_nat_eq_self)
  moreover have "bit (unat v) k" using bit by (simp add: bit_unsigned_iff)
  ultimately show "k < 7" by (metis bit_take_bit_iff)
qed

lemma varuint_group:
  fixes v :: u64
  shows "push_bit s (ucast (((ucast v :: byte) OR 0x80) AND 0x7F)) OR push_bit (s + 7) (drop_bit 7 v)
     = push_bit s v"
proof -
  define g where "g = ((ucast v :: byte) OR 0x80) AND 0x7F"
  have g: "bit g k \<longleftrightarrow> k < 7 \<and> bit v k" for k
    unfolding g_def bit_low7 bit_or_0x80 by (auto simp: bit_ucast_iff)
  have "push_bit s (ucast g) OR push_bit (s + 7) (drop_bit 7 v) = push_bit s v"
  proof (rule bit_word_eqI)
    fix n assume "n < LENGTH(64)"
    then show "bit (push_bit s (ucast g) OR push_bit (s + 7) (drop_bit 7 v)) n = bit (push_bit s v) n"
      by (cases "s + 7 \<le> n") (auto simp: bit_or_iff bit_push_bit_iff bit_ucast_iff g bit_drop_bit_eq)
  qed
  then show ?thesis by (simp only: g_def)
qed

lemma varuint_last: "v < 0x80 \<Longrightarrow> (ucast ((ucast v :: byte) AND 0x7F) :: u64) = v"
  by (rule bit_word_eqI)
    (auto simp: bit_ucast_iff bit_low7 dest: bit_high_zero)

lemma parses_varuint_loop:
  assumes "rd_rest r = varuint_bytes v @ tail" "unat v < 2 ^ (64 - 7 * k)" "k \<le> 9"
  shows "varuint_loop (7 * k) acc r =
    (Some (acc OR push_bit (7 * k) v), advance (length (varuint_bytes v)) r)"
  using assms
proof (induction v arbitrary: k acc r rule: varuint_bytes.induct)
  case (1 v)
  show ?case
  proof (cases "0x80 \<le> v")
    case True
    let ?b = "(ucast v :: byte) OR 0x80"
    have bs: "varuint_bytes v = ?b # varuint_bytes (drop_bit 7 v)"
      using True by (subst varuint_bytes.simps) simp
    have big: "128 \<le> unat v" using True by (simp add: word_le_nat_alt)
    have k: "k < 9" "7 * Suc k \<le> 64" "64 - 7 * k = 7 + (64 - 7 * Suc k)"
    proof -
      have "(2 :: nat) ^ 7 < 2 ^ (64 - 7 * k)" using big "1.prems"(2) by simp
      then have "7 < 64 - 7 * k" by (simp only: power_strict_increasing_iff)
      then show "k < 9" "7 * Suc k \<le> 64" "64 - 7 * k = 7 + (64 - 7 * Suc k)" by simp_all
    qed
    have "unat (drop_bit 7 v) = drop_bit 7 (unat v)" by (rule unat_drop_bit_eq)
    then have "unat (drop_bit 7 v) < 2 ^ (64 - 7 * Suc k)"
      using "1.prems"(2) k(3)
      by (simp only: drop_bit_eq_div power_add) (simp add: less_mult_imp_div_less mult.commute)
    moreover have "rd_rest (advance 1 r) = varuint_bytes (drop_bit 7 v) @ tail"
      using "1.prems"(1) bs by simp
    moreover have "bit ?b 7" by (simp add: bit_or_0x80)
    moreover have "rd_data r ! rd_pos r = ?b"
      using "1.prems"(1) bs by (simp add: nth_rest)
    ultimately show ?thesis
      using "1.IH" [OF True, of "advance 1 r" "Suc k" "acc OR push_bit (7 * k) (ucast (?b AND 0x7F))"]
        "1.prems"(1) k bs varuint_group [of "7 * k" v]
      by (simp add: varuint_loop.simps [of "7 * k"] Remaining_rest and_0x80 or.assoc add.commute)
  next
    case False
    then have bs: "varuint_bytes v = [ucast v]" by (subst varuint_bytes.simps) simp
    have "\<not> bit (ucast v :: byte) 7"
      using False bit_high_zero [of v 7] by (auto simp: bit_ucast_iff not_le)
    moreover have "rd_data r ! rd_pos r = ucast v"
      using "1.prems"(1) bs by (simp add: nth_rest)
    ultimately show ?thesis
      using "1.prems" bs False varuint_last [of v]
      by (simp add: varuint_loop.simps [of "7 * k"] Remaining_rest and_0x80)
  qed
qed

lemma parses_VarUInt [parses_intros]: "parses GetVarUInt (varuint_bytes v) v"
proof -
  have "unat v < 2 ^ LENGTH(64)" by (rule unsigned_less)
  then have "varuint_loop 0 0 r = (Some v, advance (length (varuint_bytes v)) r)"
    if "rd_rest r = varuint_bytes v @ tail" for r tail
    using parses_varuint_loop [OF that, of 0 0] by simp
  then show ?thesis by (auto simp: parses_def GetVarUInt_def)
qed

lemma parses_VarInt [parses_intros]: "is_i64 v \<Longrightarrow> parses GetVarInt (varuint_bytes (ZigZagEncode v)) v"
  unfolding GetVarInt_def
  by (rule parses_bind_return [OF parses_VarUInt]) (simp add: ZigZag_roundtrip)

section \<open>Sequences, arrays and whole payloads\<close>

text \<open>A plain \<open>return false\<close> that does not mark the reader as failed.\<close>

definition get_guard :: "bool \<Rightarrow> unit get" where
  "get_guard b r = (if b then (Some (), r) else (None, r))"

fun get_list :: "nat \<Rightarrow> 'a get \<Rightarrow> 'a list get" where
  "get_list 0 g = get_return []"
| "get_list (Suc n) g = get_bind g (\<lambda>x. get_bind (get_list n g) (\<lambda>xs. get_return (x # xs)))"

definition kMaxArrayElements :: nat where
  "kMaxArrayElements = 2 ^ 20"

definition ElementBudget :: "reader \<Rightarrow> nat \<Rightarrow> nat" where
  "ElementBudget r min_element_bytes =
     (let budget = Remaining r div (if min_element_bytes = 0 then 1 else min_element_bytes)
      in if budget < kMaxArrayElements then budget else kMaxArrayElements)"

definition get_array :: "nat \<Rightarrow> 'a get \<Rightarrow> 'a list get" where
  "get_array min_bytes g r =
     get_bind (GetArrayLen (ElementBudget r min_bytes)) (\<lambda>count. get_list count g) r"

definition put_array :: "('a \<Rightarrow> byte_buffer \<Rightarrow> byte_buffer) \<Rightarrow> 'a list \<Rightarrow> byte_buffer \<Rightarrow> byte_buffer" where
  "put_array put xs out = fold put xs (PutArrayLen (length xs) out)"

text \<open>
  The trailing record bytes of the data-plane messages: a length that must not exceed what
  remains, and the view of that length at the head of the remaining payload, all of which is
  consumed.
\<close>

definition get_need :: "nat \<Rightarrow> unit get" where
  "get_need n r = (if Remaining r < n then (None, r) else (Some (), r))"

definition get_tail :: "nat \<Rightarrow> bytes get" where
  "get_tail n = get_bind GetRemaining (\<lambda>rest. get_return (take n rest))"

definition wire_of :: "('a \<Rightarrow> byte_buffer \<Rightarrow> byte_buffer) \<Rightarrow> 'a \<Rightarrow> bytes" where
  "wire_of enc x = Readable (enc x EmptyBuffer)"

definition array_bytes :: "('a \<Rightarrow> byte_buffer \<Rightarrow> byte_buffer) \<Rightarrow> 'a list \<Rightarrow> bytes" where
  "array_bytes enc xs = StoreLe32 (word_of_nat (length xs)) @ concat (map (wire_of enc) xs)"

definition parses_end :: "'a get \<Rightarrow> bytes \<Rightarrow> 'a \<Rightarrow> bool" where
  "parses_end g bs v \<longleftrightarrow>
     (\<forall>r. rd_rest r = bs \<and> rd_pos r \<le> length (rd_data r) \<longrightarrow> g r = (Some v, advance (length bs) r))"

lemma parses_imp_end: "parses g bs v \<Longrightarrow> parses_end g bs v"
  by (simp add: parses_def parses_end_def)

lemma parses_return_eq: "v = w \<Longrightarrow> parses (get_return v) [] w"
  by (simp add: parses_return)

lemma parses_last: "parses g bs v \<Longrightarrow> parses (f v) [] w \<Longrightarrow> parses (get_bind g f) bs w"
  using parses_bind [of g bs v f "[]" w] by simp

lemma parses_bind_Cons: "parses g [b] v \<Longrightarrow> parses (f v) bs' w \<Longrightarrow> parses (get_bind g f) (b # bs') w"
  using parses_bind [of g "[b]" v f bs' w] by simp

lemma parses_guard: "b \<Longrightarrow> parses (f ()) bs w \<Longrightarrow> parses (get_bind (get_guard b) f) bs w"
  by (simp add: parses_def get_bind_def get_guard_def)

lemma parses_end_return_eq: "v = w \<Longrightarrow> parses_end (get_return v) [] w"
  by (simp add: parses_imp_end parses_return)

lemma parses_end_bind:
  "parses g bs v \<Longrightarrow> parses_end (f v) bs' w \<Longrightarrow> parses_end (get_bind g f) (bs @ bs') w"
  unfolding parses_end_def get_bind_def
proof (intro allI impI)
  fix r
  assume g: "parses g bs v"
    and f: "\<forall>r. rd_rest r = bs' \<and> rd_pos r \<le> length (rd_data r) \<longrightarrow> f v r = (Some w, advance (length bs') r)"
    and r: "rd_rest r = bs @ bs' \<and> rd_pos r \<le> length (rd_data r)"
  have "g r = (Some v, advance (length bs) r)" using parsesD [OF g] r by simp
  moreover have "length (rd_data r) - rd_pos r = length bs + length bs'"
    using r by (metis rd_rest_def length_drop length_append)
  then have "rd_pos (advance (length bs) r) \<le> length (rd_data (advance (length bs) r))"
    using r by (auto simp: advance_def)
  ultimately show "(case g r of (None, r') \<Rightarrow> (None, r') | (Some x, r') \<Rightarrow> f x r') =
      (Some w, advance (length (bs @ bs')) r)"
    using f r by simp
qed

lemma parses_end_bind_Cons:
  "parses g [b] v \<Longrightarrow> parses_end (f v) bs' w \<Longrightarrow> parses_end (get_bind g f) (b # bs') w"
  using parses_end_bind [of g "[b]" v f bs' w] by simp

lemma parses_end_guard: "b \<Longrightarrow> parses_end (f ()) bs w \<Longrightarrow> parses_end (get_bind (get_guard b) f) bs w"
  by (simp add: parses_end_def get_bind_def get_guard_def)

lemma parses_end_last:
  "parses_end g bs v \<Longrightarrow> w = h v \<Longrightarrow> parses_end (get_bind g (\<lambda>x. get_return (h x))) bs w"
  by (simp add: parses_end_def get_bind_def get_return_def)

definition trailing_ok :: "bytes \<Rightarrow> bool" where
  "trailing_ok b \<longleftrightarrow> length b < 2 ^ 32"

lemma parses_end_need:
  "n \<le> length bs \<Longrightarrow> parses_end (f ()) bs w \<Longrightarrow> parses_end (get_bind (get_need n) f) bs w"
  by (simp add: parses_end_def get_bind_def get_need_def Remaining_rest)

lemma parses_end_tail: "length b = n \<Longrightarrow> parses_end (get_tail n) b b"
  unfolding parses_end_def
proof (intro allI impI)
  fix r assume n: "length b = n" and r: "rd_rest r = b \<and> rd_pos r \<le> length (rd_data r)"
  then have "rd_pos r + length b = length (rd_data r)"
    by (metis rd_rest_def length_drop le_add_diff_inverse)
  then have "r\<lparr>rd_pos := length (rd_data r)\<rparr> = advance (length b) r"
    by (simp add: advance_def)
  then show "get_tail n r = (Some b, advance (length b) r)"
    using n r by (simp add: get_tail_def get_bind_def GetRemaining_def get_return_def
        flip: rd_rest_def)
qed

lemma trailing_length: "trailing_ok b \<Longrightarrow> unat (word_of_nat (length b) :: u32) = length b"
  unfolding trailing_ok_def by (rule unat_of_length32)

lemmas parses_end_steps = parses_end_need parses_end_guard parses_end_last [OF parses_end_tail]
  parses_end_return_eq

lemmas parses_steps = parses_guard parses_return_eq

lemmas [parses_chain] =
  parses_U8 [THEN parses_bind_Cons] parses_Bool_cases [THEN parses_bind_Cons]
  parses_U16 [THEN parses_bind] parses_U16 [THEN parses_last]
  parses_U32 [THEN parses_bind] parses_U32 [THEN parses_last]
  parses_U64 [THEN parses_bind] parses_U64 [THEN parses_last]
  parses_I16 [THEN parses_bind] parses_I16 [THEN parses_last]
  parses_I32 [THEN parses_bind] parses_I32 [THEN parses_last]
  parses_I64 [THEN parses_bind] parses_I64 [THEN parses_last]
  parses_VarUInt [THEN parses_bind] parses_VarUInt [THEN parses_last]
  parses_String [THEN parses_bind] parses_String [THEN parses_last]
  parses_Bytes [THEN parses_bind] parses_Bytes [THEN parses_last]
  parses_U8 [THEN parses_end_bind_Cons] parses_U16 [THEN parses_end_bind]
  parses_U32 [THEN parses_end_bind] parses_I32 [THEN parses_end_bind]
  parses_I64 [THEN parses_end_bind] parses_String [THEN parses_end_bind]

section \<open>The contract of a message codec\<close>

text \<open>
  A message codec appends a fixed encoding of the message to the payload, and its reader returns
  the message from a payload that is exactly this encoding.  A wire codec moreover leaves what
  follows the encoding unread, so that it can be embedded in a larger message.
\<close>

locale message_codec =
  fixes enc :: "'a \<Rightarrow> byte_buffer \<Rightarrow> byte_buffer" and dec :: "'a get" and wf :: "'a \<Rightarrow> bool"
  assumes enc_ok: "buf_ok out \<Longrightarrow> buf_ok (enc x out)"
    and enc_wire: "buf_ok out \<Longrightarrow> Readable (enc x out) = Readable out @ wire_of enc x"
    and dec_end: "wf x \<Longrightarrow> parses_end dec (wire_of enc x) x"
begin

lemma roundtrip:
  assumes "wf x"
  shows "fst (dec (PayloadReader (Readable (enc x EmptyBuffer)))) = Some x \<and>
         Complete (snd (dec (PayloadReader (Readable (enc x EmptyBuffer)))))"
proof -
  let ?bs = "Readable (enc x EmptyBuffer)"
  have "dec (PayloadReader ?bs) = (Some x, advance (length ?bs) (PayloadReader ?bs))"
    using dec_end [OF assms]
    by (simp add: parses_end_def wire_of_def PayloadReader_def rd_rest_def)
  then show ?thesis by (simp add: Complete_def PayloadReader_def advance_def Remaining_def)
qed

end

locale wire_codec =
  fixes enc :: "'a \<Rightarrow> byte_buffer \<Rightarrow> byte_buffer" and dec :: "'a get" and wf :: "'a \<Rightarrow> bool"
  assumes enc_ok: "buf_ok out \<Longrightarrow> buf_ok (enc x out)"
    and enc_wire: "buf_ok out \<Longrightarrow> Readable (enc x out) = Readable out @ wire_of enc x"
    and dec_wire: "wf x \<Longrightarrow> parses dec (wire_of enc x) x"
begin

lemma fold_enc_ok: "buf_ok out \<Longrightarrow> buf_ok (fold enc xs out)"
  by (induction xs arbitrary: out) (simp_all add: enc_ok)

lemma fold_enc_wire:
  "buf_ok out \<Longrightarrow> Readable (fold enc xs out) = Readable out @ concat (map (wire_of enc) xs)"
  by (induction xs arbitrary: out) (simp_all add: enc_ok enc_wire)

lemma array_ok: "buf_ok out \<Longrightarrow> buf_ok (put_array enc xs out)"
  by (simp add: put_array_def fold_enc_ok)

lemma array_wire:
  "buf_ok out \<Longrightarrow> Readable (put_array enc xs out) = Readable out @ array_bytes enc xs"
  by (simp add: put_array_def fold_enc_wire array_bytes_def)

lemma list_parses:
  "list_all wf xs \<Longrightarrow> parses (get_list (length xs) dec) (concat (map (wire_of enc) xs)) xs"
proof (induction xs)
  case Nil
  then show ?case by (simp add: parses_return)
next
  case (Cons x xs)
  then have "parses (get_bind (get_list (length xs) dec) (\<lambda>xs. get_return (x # xs)))
      (concat (map (wire_of enc) xs)) (x # xs)"
    by (intro parses_last [of _ _ xs] parses_return_eq) simp_all
  with Cons.prems dec_wire [of x] show ?case
    by (simp add: parses_bind)
qed

lemma length_wires: "(\<And>x. m \<le> length (wire_of enc x)) \<Longrightarrow> m * length xs \<le> length (concat (map (wire_of enc) xs))"
  by (induction xs) (simp_all add: add_mono)

lemma array_parses:
  assumes wf: "list_all wf xs" and n: "length xs \<le> kMaxArrayElements"
    and m: "0 < m" "\<And>x. m \<le> length (wire_of enc x)"
  shows "parses (get_array m dec) (array_bytes enc xs) xs"
  unfolding parses_def array_bytes_def
proof (intro allI impI)
  fix r tail
  assume r: "rd_rest r = (StoreLe32 (word_of_nat (length xs)) @ concat (map (wire_of enc) xs)) @ tail"
  have "length xs * m \<le> Remaining r"
    using r length_wires [OF m(2), of xs] by (simp add: Remaining_rest mult.commute)
  then have "length xs \<le> Remaining r div m"
    using m(1) by (simp add: less_eq_div_iff_mult_less_eq)
  then have b: "length xs \<le> ElementBudget r m"
    using n m(1) by (simp add: ElementBudget_def Let_def)
  have "parses (get_bind (GetArrayLen (ElementBudget r m)) (\<lambda>count. get_list count dec))
      (StoreLe32 (word_of_nat (length xs)) @ concat (map (wire_of enc) xs)) xs"
    using b n by (intro parses_bind [OF parses_ArrayLen] list_parses wf) (simp_all add: kMaxArrayElements_def)
  with r show "get_array m dec r = (Some xs,
      advance (length (StoreLe32 (word_of_nat (length xs)) @ concat (map (wire_of enc) xs))) r)"
    by (simp add: get_array_def parses_def)
qed

end

sublocale wire_codec \<subseteq> whole: message_codec
  by unfold_locales (simp_all add: enc_ok enc_wire dec_wire parses_imp_end)

section \<open>Arrays of strings\<close>

interpretation str_codec: wire_codec PutString GetString string_ok
  by unfold_locales (simp_all add: wire_of_def parses_String)

definition strings_ok :: "string list \<Rightarrow> bool" where
  "strings_ok xs \<longleftrightarrow> list_all string_ok xs \<and> length xs \<le> kMaxArrayElements"

lemma parses_strings: "strings_ok xs \<Longrightarrow> parses (get_array 2 GetString) (array_bytes PutString xs) xs"
  unfolding strings_ok_def
  by (rule str_codec.array_parses) (simp_all add: wire_of_def string_bytes_def)

lemmas [parses_chain] = parses_strings [THEN parses_bind] parses_strings [THEN parses_last]

lemmas [simp, buffer_simps] = str_codec.array_ok str_codec.array_wire

interpretation i32_codec: wire_codec PutI32 GetI32 is_i32
  by unfold_locales (simp_all add: wire_of_def parses_I32)

lemmas [simp, buffer_simps] = i32_codec.array_ok i32_codec.array_wire

end
