(* ===== verification/PL_Messages_Data.thy ===== *)
theory PL_Messages_Data
  imports PL_Codec
begin

text \<open>
  The response header and the data-plane messages (\<open>include/pulselog/protocol/messages.h\<close>,
  \<open>src/protocol/messages_data.cc\<close>): produce, fetch and list-offsets.  Each message is a record
  with its \<open>Encode\<close> and \<open>Decode\<close>; each pair interprets the codec contract for messages whose
  fields fit their wire widths.
\<close>

section \<open>ResponseHeader\<close>

record response_header =
  rh_error :: error_code
  rh_message :: string

definition ResponseHeader_Encode :: "response_header \<Rightarrow> byte_buffer \<Rightarrow> byte_buffer" where
  "ResponseHeader_Encode m w =
     (let w = PutU16 (error_u16 (rh_error m)) w;
          w = PutString (rh_message m) w
      in w)"

definition ResponseHeader_Decode :: "response_header get" where
  "ResponseHeader_Decode =
     get_bind GetU16 (\<lambda>raw.
     get_bind GetString (\<lambda>error_message.
     get_return \<lparr>rh_error = error_of_u16 raw, rh_message = error_message\<rparr>))"

definition ok_header :: response_header where
  "ok_header = \<lparr>rh_error = kOk, rh_message = []\<rparr>"

definition header_ok :: "response_header \<Rightarrow> bool" where
  "header_ok m \<longleftrightarrow> string_ok (rh_message m)"

definition ToStatus :: "response_header \<Rightarrow> status" where
  "ToStatus m = (if rh_error m = kOk then OkStatus else \<lparr>st_code = rh_error m, st_message = rh_message m\<rparr>)"

definition header_bytes :: "response_header \<Rightarrow> bytes" where
  "header_bytes m = StoreLe16 (error_u16 (rh_error m)) @ string_bytes (rh_message m)"

lemma ResponseHeader_simps [simp, buffer_simps]:
  "buf_ok w \<Longrightarrow> buf_ok (ResponseHeader_Encode m w)"
  "buf_ok w \<Longrightarrow> Readable (ResponseHeader_Encode m w) = Readable w @ header_bytes m"
  by (simp_all add: ResponseHeader_Encode_def header_bytes_def)

lemma parses_ResponseHeader [parses_intros]:
  "header_ok m \<Longrightarrow> parses ResponseHeader_Decode (header_bytes m) m"
  unfolding ResponseHeader_Decode_def header_bytes_def header_ok_def
  by (cases m) (auto intro!: parses_steps parses_chain)

lemmas [parses_chain] =
  parses_ResponseHeader [THEN parses_bind] parses_ResponseHeader [THEN parses_last]
  parses_ResponseHeader [THEN parses_end_bind]

interpretation response_header: wire_codec ResponseHeader_Encode ResponseHeader_Decode header_ok
  by unfold_locales (simp_all add: wire_of_def parses_intros)

definition EncodeErrorResponse :: "byte_buffer \<Rightarrow> error_code \<Rightarrow> string \<Rightarrow> byte_buffer" where
  "EncodeErrorResponse out code message =
     ResponseHeader_Encode \<lparr>rh_error = code, rh_message = message\<rparr> out"

section \<open>Produce\<close>

fun ack_u8 :: "ack_mode \<Rightarrow> u8" where
  "ack_u8 AckNone = 0" | "ack_u8 AckLeader = 1" | "ack_u8 AckQuorum = 2"

definition ack_of_u8 :: "u8 \<Rightarrow> ack_mode" where
  "ack_of_u8 v = (if v = 0 then AckNone else if v = 1 then AckLeader else AckQuorum)"

lemma ack_codec [simp]: "ack_of_u8 (ack_u8 a) = a" "ack_u8 a \<le> 2"
  by (cases a; simp add: ack_of_u8_def)+

record produce_request =
  preq_topic :: string
  preq_partition :: int
  preq_acks :: ack_mode
  preq_timeout_ms :: int
  preq_record_count :: u32
  preq_records :: bytes

definition ProduceRequest_Encode :: "produce_request \<Rightarrow> byte_buffer \<Rightarrow> byte_buffer" where
  "ProduceRequest_Encode m w =
     (let w = PutString (preq_topic m) w;
          w = PutI32 (preq_partition m) w;
          w = PutU8 (ack_u8 (preq_acks m)) w;
          w = PutI32 (preq_timeout_ms m) w;
          w = PutU32 (preq_record_count m) w;
          w = PutU32 (word_of_nat (length (preq_records m))) w;
          w = PutRaw (preq_records m) w
      in w)"

definition ProduceRequest_Decode :: "produce_request get" where
  "ProduceRequest_Decode =
     get_bind GetString (\<lambda>topic.
     get_bind GetI32 (\<lambda>partition_raw.
     get_bind GetU8 (\<lambda>acks_raw.
     get_bind GetI32 (\<lambda>timeout_ms.
     get_bind GetU32 (\<lambda>record_count.
     get_bind GetU32 (\<lambda>records_len.
     get_bind (get_need (unat records_len)) (\<lambda>_.
     get_bind (get_guard (acks_raw \<le> 2)) (\<lambda>_.
     get_bind (get_guard (0 \<le> partition_raw)) (\<lambda>_.
     get_bind (get_tail (unat records_len)) (\<lambda>records.
     get_return \<lparr>preq_topic = topic, preq_partition = partition_raw, preq_acks = ack_of_u8 acks_raw,
       preq_timeout_ms = timeout_ms, preq_record_count = record_count, preq_records = records\<rparr>))))))))))"

definition ProduceRequest_wf :: "produce_request \<Rightarrow> bool" where
  "ProduceRequest_wf m \<longleftrightarrow>
     string_ok (preq_topic m) \<and> is_i32 (preq_partition m) \<and> 0 \<le> preq_partition m \<and>
     is_i32 (preq_timeout_ms m) \<and> trailing_ok (preq_records m)"

interpretation produce_request: message_codec ProduceRequest_Encode ProduceRequest_Decode ProduceRequest_wf
proof unfold_locales
  fix m assume "ProduceRequest_wf m"
  then show "parses_end ProduceRequest_Decode (wire_of ProduceRequest_Encode m) m"
    unfolding ProduceRequest_Decode_def
    by (cases m) (auto simp: wire_of_def ProduceRequest_Encode_def ProduceRequest_wf_def trailing_length
        intro!: parses_end_steps parses_chain)
qed (simp_all add: wire_of_def ProduceRequest_Encode_def)

record produce_response =
  prsp_header :: response_header
  prsp_base_offset :: int
  prsp_last_offset :: int
  prsp_append_time :: int
  prsp_high_water_mark :: int

definition ProduceResponse_Encode :: "produce_response \<Rightarrow> byte_buffer \<Rightarrow> byte_buffer" where
  "ProduceResponse_Encode m w =
     (let w = ResponseHeader_Encode (prsp_header m) w;
          w = PutI64 (prsp_base_offset m) w;
          w = PutI64 (prsp_last_offset m) w;
          w = PutI64 (prsp_append_time m) w;
          w = PutI64 (prsp_high_water_mark m) w
      in w)"

definition ProduceResponse_Decode :: "produce_response get" where
  "ProduceResponse_Decode =
     get_bind ResponseHeader_Decode (\<lambda>header.
     get_bind GetI64 (\<lambda>base_offset.
     get_bind GetI64 (\<lambda>last_offset.
     get_bind GetI64 (\<lambda>append_time.
     get_bind GetI64 (\<lambda>high_water_mark.
     get_return \<lparr>prsp_header = header, prsp_base_offset = base_offset,
       prsp_last_offset = last_offset, prsp_append_time = append_time,
       prsp_high_water_mark = high_water_mark\<rparr>)))))"

definition ProduceResponse_wf :: "produce_response \<Rightarrow> bool" where
  "ProduceResponse_wf m \<longleftrightarrow>
     header_ok (prsp_header m) \<and> is_i64 (prsp_base_offset m) \<and> is_i64 (prsp_last_offset m) \<and>
     is_i64 (prsp_append_time m) \<and> is_i64 (prsp_high_water_mark m)"

interpretation produce_response: wire_codec ProduceResponse_Encode ProduceResponse_Decode ProduceResponse_wf
proof unfold_locales
  fix m assume "ProduceResponse_wf m"
  then show "parses ProduceResponse_Decode (wire_of ProduceResponse_Encode m) m"
    unfolding ProduceResponse_Decode_def
    by (cases m) (auto simp: wire_of_def ProduceResponse_Encode_def ProduceResponse_wf_def
        intro!: parses_steps parses_chain)
qed (simp_all add: wire_of_def ProduceResponse_Encode_def)


section \<open>Fetch\<close>

datatype isolation_level = ReadUncommitted | ReadReplicated

fun iso_u8 :: "isolation_level \<Rightarrow> u8" where
  "iso_u8 ReadUncommitted = 0" | "iso_u8 ReadReplicated = 1"

definition iso_of_u8 :: "u8 \<Rightarrow> isolation_level" where
  "iso_of_u8 v = (if v = 0 then ReadUncommitted else ReadReplicated)"

lemma iso_codec [simp]: "iso_of_u8 (iso_u8 a) = a" "iso_u8 a \<le> 1"
  by (cases a; simp add: iso_of_u8_def)+

record fetch_request =
  freq_topic :: string
  freq_partition :: int
  freq_fetch_offset :: int
  freq_max_bytes :: u32
  freq_min_bytes :: u32
  freq_max_wait_ms :: int
  freq_isolation :: isolation_level

definition FetchRequest_Encode :: "fetch_request \<Rightarrow> byte_buffer \<Rightarrow> byte_buffer" where
  "FetchRequest_Encode m w =
     (let w = PutString (freq_topic m) w;
          w = PutI32 (freq_partition m) w;
          w = PutI64 (freq_fetch_offset m) w;
          w = PutU32 (freq_max_bytes m) w;
          w = PutU32 (freq_min_bytes m) w;
          w = PutI32 (freq_max_wait_ms m) w;
          w = PutU8 (iso_u8 (freq_isolation m)) w
      in w)"

definition FetchRequest_Decode :: "fetch_request get" where
  "FetchRequest_Decode =
     get_bind GetString (\<lambda>topic.
     get_bind GetI32 (\<lambda>partition_raw.
     get_bind GetI64 (\<lambda>fetch_offset.
     get_bind GetU32 (\<lambda>max_bytes.
     get_bind GetU32 (\<lambda>min_bytes.
     get_bind GetI32 (\<lambda>max_wait_ms.
     get_bind GetU8 (\<lambda>isolation_raw.
     get_bind (get_guard (0 \<le> partition_raw)) (\<lambda>_.
     get_bind (get_guard (isolation_raw \<le> 1)) (\<lambda>_.
     get_return \<lparr>freq_topic = topic, freq_partition = partition_raw,
       freq_fetch_offset = fetch_offset, freq_max_bytes = max_bytes, freq_min_bytes = min_bytes,
       freq_max_wait_ms = max_wait_ms, freq_isolation = iso_of_u8 isolation_raw\<rparr>)))))))))"

definition FetchRequest_wf :: "fetch_request \<Rightarrow> bool" where
  "FetchRequest_wf m \<longleftrightarrow>
     string_ok (freq_topic m) \<and> is_i32 (freq_partition m) \<and> 0 \<le> freq_partition m \<and>
     is_i64 (freq_fetch_offset m) \<and> is_i32 (freq_max_wait_ms m)"

interpretation fetch_request: wire_codec FetchRequest_Encode FetchRequest_Decode FetchRequest_wf
proof unfold_locales
  fix m assume "FetchRequest_wf m"
  then show "parses FetchRequest_Decode (wire_of FetchRequest_Encode m) m"
    unfolding FetchRequest_Decode_def
    by (cases m) (auto simp: wire_of_def FetchRequest_Encode_def FetchRequest_wf_def
        intro!: parses_steps parses_chain)
qed (simp_all add: wire_of_def FetchRequest_Encode_def)


record fetch_response =
  frsp_header :: response_header
  frsp_high_water_mark :: int
  frsp_log_start_offset :: int
  frsp_base_offset :: int
  frsp_record_count :: u32
  frsp_records :: bytes

definition FetchResponse_Encode :: "fetch_response \<Rightarrow> byte_buffer \<Rightarrow> byte_buffer" where
  "FetchResponse_Encode m w =
     (let w = ResponseHeader_Encode (frsp_header m) w;
          w = PutI64 (frsp_high_water_mark m) w;
          w = PutI64 (frsp_log_start_offset m) w;
          w = PutI64 (frsp_base_offset m) w;
          w = PutU32 (frsp_record_count m) w;
          w = PutU32 (word_of_nat (length (frsp_records m))) w;
          w = PutRaw (frsp_records m) w
      in w)"

definition FetchResponse_Decode :: "fetch_response get" where
  "FetchResponse_Decode =
     get_bind ResponseHeader_Decode (\<lambda>header.
     get_bind GetI64 (\<lambda>high_water_mark.
     get_bind GetI64 (\<lambda>log_start_offset.
     get_bind GetI64 (\<lambda>base_offset.
     get_bind GetU32 (\<lambda>record_count.
     get_bind GetU32 (\<lambda>records_len.
     get_bind (get_need (unat records_len)) (\<lambda>_.
     get_bind (get_tail (unat records_len)) (\<lambda>records.
     get_return \<lparr>frsp_header = header, frsp_high_water_mark = high_water_mark,
       frsp_log_start_offset = log_start_offset, frsp_base_offset = base_offset,
       frsp_record_count = record_count, frsp_records = records\<rparr>))))))))"

definition FetchResponse_wf :: "fetch_response \<Rightarrow> bool" where
  "FetchResponse_wf m \<longleftrightarrow>
     header_ok (frsp_header m) \<and> is_i64 (frsp_high_water_mark m) \<and>
     is_i64 (frsp_log_start_offset m) \<and> is_i64 (frsp_base_offset m) \<and> trailing_ok (frsp_records m)"

interpretation fetch_response: message_codec FetchResponse_Encode FetchResponse_Decode FetchResponse_wf
proof unfold_locales
  fix m assume "FetchResponse_wf m"
  then show "parses_end FetchResponse_Decode (wire_of FetchResponse_Encode m) m"
    unfolding FetchResponse_Decode_def
    by (cases m) (auto simp: wire_of_def FetchResponse_Encode_def FetchResponse_wf_def trailing_length
        intro!: parses_end_steps parses_chain)
qed (simp_all add: wire_of_def FetchResponse_Encode_def)


section \<open>ListOffsets\<close>

definition kListOffsetsEarliest :: timestamp_ms where "kListOffsetsEarliest = - 2"
definition kListOffsetsLatest :: timestamp_ms where "kListOffsetsLatest = - 1"

record list_offsets_request =
  lreq_topic :: string
  lreq_partition :: int
  lreq_timestamp :: int

definition ListOffsetsRequest_Encode :: "list_offsets_request \<Rightarrow> byte_buffer \<Rightarrow> byte_buffer" where
  "ListOffsetsRequest_Encode m w =
     (let w = PutString (lreq_topic m) w;
          w = PutI32 (lreq_partition m) w;
          w = PutI64 (lreq_timestamp m) w
      in w)"

definition ListOffsetsRequest_Decode :: "list_offsets_request get" where
  "ListOffsetsRequest_Decode =
     get_bind GetString (\<lambda>topic.
     get_bind GetI32 (\<lambda>partition_raw.
     get_bind (get_guard (0 \<le> partition_raw)) (\<lambda>_.
     get_bind GetI64 (\<lambda>timestamp.
     get_return \<lparr>lreq_topic = topic, lreq_partition = partition_raw,
       lreq_timestamp = timestamp\<rparr>))))"

definition ListOffsetsRequest_wf :: "list_offsets_request \<Rightarrow> bool" where
  "ListOffsetsRequest_wf m \<longleftrightarrow>
     string_ok (lreq_topic m) \<and> is_i32 (lreq_partition m) \<and> 0 \<le> lreq_partition m \<and>
     is_i64 (lreq_timestamp m)"

interpretation list_offsets_request: wire_codec ListOffsetsRequest_Encode ListOffsetsRequest_Decode ListOffsetsRequest_wf
proof unfold_locales
  fix m assume "ListOffsetsRequest_wf m"
  then show "parses ListOffsetsRequest_Decode (wire_of ListOffsetsRequest_Encode m) m"
    unfolding ListOffsetsRequest_Decode_def
    by (cases m) (auto simp: wire_of_def ListOffsetsRequest_Encode_def ListOffsetsRequest_wf_def
        intro!: parses_steps parses_chain)
qed (simp_all add: wire_of_def ListOffsetsRequest_Encode_def)


record list_offsets_response =
  lrsp_header :: response_header
  lrsp_offset :: int
  lrsp_timestamp :: int

definition ListOffsetsResponse_Encode :: "list_offsets_response \<Rightarrow> byte_buffer \<Rightarrow> byte_buffer" where
  "ListOffsetsResponse_Encode m w =
     (let w = ResponseHeader_Encode (lrsp_header m) w;
          w = PutI64 (lrsp_offset m) w;
          w = PutI64 (lrsp_timestamp m) w
      in w)"

definition ListOffsetsResponse_Decode :: "list_offsets_response get" where
  "ListOffsetsResponse_Decode =
     get_bind ResponseHeader_Decode (\<lambda>header.
     get_bind GetI64 (\<lambda>offset.
     get_bind GetI64 (\<lambda>timestamp.
     get_return \<lparr>lrsp_header = header, lrsp_offset = offset, lrsp_timestamp = timestamp\<rparr>)))"

definition ListOffsetsResponse_wf :: "list_offsets_response \<Rightarrow> bool" where
  "ListOffsetsResponse_wf m \<longleftrightarrow>
     header_ok (lrsp_header m) \<and> is_i64 (lrsp_offset m) \<and> is_i64 (lrsp_timestamp m)"

interpretation list_offsets_response: wire_codec ListOffsetsResponse_Encode ListOffsetsResponse_Decode ListOffsetsResponse_wf
proof unfold_locales
  fix m assume "ListOffsetsResponse_wf m"
  then show "parses ListOffsetsResponse_Decode (wire_of ListOffsetsResponse_Encode m) m"
    unfolding ListOffsetsResponse_Decode_def
    by (cases m) (auto simp: wire_of_def ListOffsetsResponse_Encode_def ListOffsetsResponse_wf_def
        intro!: parses_steps parses_chain)
qed (simp_all add: wire_of_def ListOffsetsResponse_Encode_def)


end
