(* ===== verification/PL_Messages_Control.thy ===== *)
theory PL_Messages_Control
  imports PL_Messages_Data
begin

text \<open>
  The control-plane messages (\<open>src/protocol/messages_control.cc\<close>): topics, metadata, health and
  cluster description, with the nested arrays of endpoints, topics and partitions.
\<close>

section \<open>Broker identifiers\<close>

definition EncodeBrokerIds :: "int list \<Rightarrow> byte_buffer \<Rightarrow> byte_buffer" where
  "EncodeBrokerIds ids w = put_array PutI32 ids w"

definition DecodeBrokerIds :: "int list get" where
  "DecodeBrokerIds = get_array 4 GetI32"

definition ids_ok :: "int list \<Rightarrow> bool" where
  "ids_ok ids \<longleftrightarrow> list_all is_i32 ids \<and> length ids \<le> kMaxArrayElements"

lemma EncodeBrokerIds_simps [simp, buffer_simps]:
  "buf_ok w \<Longrightarrow> buf_ok (EncodeBrokerIds ids w)"
  "buf_ok w \<Longrightarrow> Readable (EncodeBrokerIds ids w) = Readable w @ array_bytes PutI32 ids"
  by (simp_all add: EncodeBrokerIds_def)

lemma parses_BrokerIds: "ids_ok ids \<Longrightarrow> parses DecodeBrokerIds (array_bytes PutI32 ids) ids"
  unfolding ids_ok_def DecodeBrokerIds_def
  by (rule i32_codec.array_parses) (simp_all add: wire_of_def)

lemmas [parses_chain] = parses_BrokerIds [THEN parses_bind] parses_BrokerIds [THEN parses_last]

datatype assignment_strategy = StrategyRange | StrategyRoundRobin

fun strategy_u8 :: "assignment_strategy \<Rightarrow> u8" where
  "strategy_u8 StrategyRange = 0" | "strategy_u8 StrategyRoundRobin = 1"

definition strategy_of_u8 :: "u8 \<Rightarrow> assignment_strategy" where
  "strategy_of_u8 v = (if v = 0 then StrategyRange else StrategyRoundRobin)"

lemma strategy_codec [simp]: "strategy_of_u8 (strategy_u8 a) = a" "strategy_u8 a \<le> 1"
  by (cases a; simp add: strategy_of_u8_def)+

definition AssignmentStrategyName :: "assignment_strategy \<Rightarrow> string" where
  "AssignmentStrategyName s = (case s of StrategyRange \<Rightarrow> ''range'' | StrategyRoundRobin \<Rightarrow> ''roundrobin'')"

definition ParseAssignmentStrategy :: "string \<Rightarrow> assignment_strategy option" where
  "ParseAssignmentStrategy text =
     (if text = ''range'' then Some StrategyRange
      else if text = ''roundrobin'' \<or> text = ''round-robin'' then Some StrategyRoundRobin
      else None)"

lemma ParseAssignmentStrategy_Name: "ParseAssignmentStrategy (AssignmentStrategyName s) = Some s"
  by (cases s) (simp_all add: AssignmentStrategyName_def ParseAssignmentStrategy_def)

section \<open>CreateTopic and DeleteTopic\<close>

fun compression_u8 :: "compression \<Rightarrow> u8" where
  "compression_u8 CompressionNone = 0" | "compression_u8 Lz4Like = 1"

definition compression_of_u8 :: "u8 \<Rightarrow> compression" where
  "compression_of_u8 v = (if v = 0 then CompressionNone else Lz4Like)"

lemma compression_codec [simp]: "compression_of_u8 (compression_u8 a) = a" "compression_u8 a \<le> 1"
  by (cases a; simp add: compression_of_u8_def)+

record create_topic_request =
  ctq_topic :: string
  ctq_partitions :: int
  ctq_replication_factor :: int
  ctq_retention_ms :: int
  ctq_segment_bytes :: int
  ctq_compression :: compression
  ctq_from_controller :: bool

definition CreateTopicRequest_Encode :: "create_topic_request \<Rightarrow> byte_buffer \<Rightarrow> byte_buffer" where
  "CreateTopicRequest_Encode m w =
     (let w = PutString (ctq_topic m) w;
          w = PutI32 (ctq_partitions m) w;
          w = PutI16 (ctq_replication_factor m) w;
          w = PutI64 (ctq_retention_ms m) w;
          w = PutI64 (ctq_segment_bytes m) w;
          w = PutU8 (compression_u8 (ctq_compression m)) w;
          w = PutBool (ctq_from_controller m) w
      in w)"

definition CreateTopicRequest_Decode :: "create_topic_request get" where
  "CreateTopicRequest_Decode =
     get_bind GetString (\<lambda>topic.
     get_bind GetI32 (\<lambda>partitions.
     get_bind GetI16 (\<lambda>replication_factor.
     get_bind GetI64 (\<lambda>retention_ms.
     get_bind GetI64 (\<lambda>segment_bytes.
     get_bind GetU8 (\<lambda>compression_raw.
     get_bind (get_guard (compression_raw \<le> 1)) (\<lambda>_.
     get_bind GetBool (\<lambda>from_controller.
     get_return \<lparr>ctq_topic = topic, ctq_partitions = partitions,
       ctq_replication_factor = replication_factor, ctq_retention_ms = retention_ms,
       ctq_segment_bytes = segment_bytes, ctq_compression = compression_of_u8 compression_raw,
       ctq_from_controller = from_controller\<rparr>))))))))"

definition CreateTopicRequest_wf :: "create_topic_request \<Rightarrow> bool" where
  "CreateTopicRequest_wf m \<longleftrightarrow>
     string_ok (ctq_topic m) \<and> is_i32 (ctq_partitions m) \<and> is_i16 (ctq_replication_factor m) \<and>
     is_i64 (ctq_retention_ms m) \<and> is_i64 (ctq_segment_bytes m)"

interpretation create_topic_request: wire_codec CreateTopicRequest_Encode CreateTopicRequest_Decode CreateTopicRequest_wf
proof unfold_locales
  fix m assume "CreateTopicRequest_wf m"
  then show "parses CreateTopicRequest_Decode (wire_of CreateTopicRequest_Encode m) m"
    unfolding CreateTopicRequest_Decode_def
    by (cases m) (auto simp: wire_of_def CreateTopicRequest_Encode_def CreateTopicRequest_wf_def
        intro!: parses_steps parses_chain)
qed (simp_all add: wire_of_def CreateTopicRequest_Encode_def)


record create_topic_response =
  ctr_header :: response_header
  ctr_partitions :: int

definition CreateTopicResponse_Encode :: "create_topic_response \<Rightarrow> byte_buffer \<Rightarrow> byte_buffer" where
  "CreateTopicResponse_Encode m w =
     (let w = ResponseHeader_Encode (ctr_header m) w;
          w = PutI32 (ctr_partitions m) w
      in w)"

definition CreateTopicResponse_Decode :: "create_topic_response get" where
  "CreateTopicResponse_Decode =
     get_bind ResponseHeader_Decode (\<lambda>header.
     get_bind GetI32 (\<lambda>partitions.
     get_return \<lparr>ctr_header = header, ctr_partitions = partitions\<rparr>))"

definition CreateTopicResponse_wf :: "create_topic_response \<Rightarrow> bool" where
  "CreateTopicResponse_wf m \<longleftrightarrow>
     header_ok (ctr_header m) \<and> is_i32 (ctr_partitions m)"

interpretation create_topic_response: wire_codec CreateTopicResponse_Encode CreateTopicResponse_Decode CreateTopicResponse_wf
proof unfold_locales
  fix m assume "CreateTopicResponse_wf m"
  then show "parses CreateTopicResponse_Decode (wire_of CreateTopicResponse_Encode m) m"
    unfolding CreateTopicResponse_Decode_def
    by (cases m) (auto simp: wire_of_def CreateTopicResponse_Encode_def CreateTopicResponse_wf_def
        intro!: parses_steps parses_chain)
qed (simp_all add: wire_of_def CreateTopicResponse_Encode_def)


record delete_topic_request =
  dtq_topic :: string

definition DeleteTopicRequest_Encode :: "delete_topic_request \<Rightarrow> byte_buffer \<Rightarrow> byte_buffer" where
  "DeleteTopicRequest_Encode m w =
     (let w = PutString (dtq_topic m) w
      in w)"

definition DeleteTopicRequest_Decode :: "delete_topic_request get" where
  "DeleteTopicRequest_Decode =
     get_bind GetString (\<lambda>topic.
     get_return \<lparr>dtq_topic = topic\<rparr>)"

definition DeleteTopicRequest_wf :: "delete_topic_request \<Rightarrow> bool" where
  "DeleteTopicRequest_wf m \<longleftrightarrow>
     string_ok (dtq_topic m)"

interpretation delete_topic_request: wire_codec DeleteTopicRequest_Encode DeleteTopicRequest_Decode DeleteTopicRequest_wf
proof unfold_locales
  fix m assume "DeleteTopicRequest_wf m"
  then show "parses DeleteTopicRequest_Decode (wire_of DeleteTopicRequest_Encode m) m"
    unfolding DeleteTopicRequest_Decode_def
    by (cases m) (auto simp: wire_of_def DeleteTopicRequest_Encode_def DeleteTopicRequest_wf_def
        intro!: parses_steps parses_chain)
qed (simp_all add: wire_of_def DeleteTopicRequest_Encode_def)


record delete_topic_response =
  dtr_header :: response_header

definition DeleteTopicResponse_Encode :: "delete_topic_response \<Rightarrow> byte_buffer \<Rightarrow> byte_buffer" where
  "DeleteTopicResponse_Encode m w =
     (let w = ResponseHeader_Encode (dtr_header m) w
      in w)"

definition DeleteTopicResponse_Decode :: "delete_topic_response get" where
  "DeleteTopicResponse_Decode =
     get_bind ResponseHeader_Decode (\<lambda>header.
     get_return \<lparr>dtr_header = header\<rparr>)"

definition DeleteTopicResponse_wf :: "delete_topic_response \<Rightarrow> bool" where
  "DeleteTopicResponse_wf m \<longleftrightarrow>
     header_ok (dtr_header m)"

interpretation delete_topic_response: wire_codec DeleteTopicResponse_Encode DeleteTopicResponse_Decode DeleteTopicResponse_wf
proof unfold_locales
  fix m assume "DeleteTopicResponse_wf m"
  then show "parses DeleteTopicResponse_Decode (wire_of DeleteTopicResponse_Encode m) m"
    unfolding DeleteTopicResponse_Decode_def
    by (cases m) (auto simp: wire_of_def DeleteTopicResponse_Encode_def DeleteTopicResponse_wf_def
        intro!: parses_steps parses_chain)
qed (simp_all add: wire_of_def DeleteTopicResponse_Encode_def)


section \<open>Metadata\<close>

record metadata_request =
  mdq_topics :: "string list"

definition MetadataRequest_Encode :: "metadata_request \<Rightarrow> byte_buffer \<Rightarrow> byte_buffer" where
  "MetadataRequest_Encode m w =
     (let w = put_array PutString (mdq_topics m) w
      in w)"

definition MetadataRequest_Decode :: "metadata_request get" where
  "MetadataRequest_Decode =
     get_bind (get_array 2 GetString) (\<lambda>topics.
     get_return \<lparr>mdq_topics = topics\<rparr>)"

definition MetadataRequest_wf :: "metadata_request \<Rightarrow> bool" where
  "MetadataRequest_wf m \<longleftrightarrow>
     strings_ok (mdq_topics m)"

interpretation metadata_request: wire_codec MetadataRequest_Encode MetadataRequest_Decode MetadataRequest_wf
proof unfold_locales
  fix m assume "MetadataRequest_wf m"
  then show "parses MetadataRequest_Decode (wire_of MetadataRequest_Encode m) m"
    unfolding MetadataRequest_Decode_def
    by (cases m) (auto simp: wire_of_def MetadataRequest_Encode_def MetadataRequest_wf_def
        intro!: parses_steps parses_chain)
qed (simp_all add: wire_of_def MetadataRequest_Encode_def)


record broker_endpoint =
  ep_id :: int
  ep_host :: string
  ep_port :: u16

definition BrokerEndpoint_Encode :: "broker_endpoint \<Rightarrow> byte_buffer \<Rightarrow> byte_buffer" where
  "BrokerEndpoint_Encode m w =
     (let w = PutI32 (ep_id m) w;
          w = PutString (ep_host m) w;
          w = PutU16 (ep_port m) w
      in w)"

definition BrokerEndpoint_Decode :: "broker_endpoint get" where
  "BrokerEndpoint_Decode =
     get_bind GetI32 (\<lambda>id.
     get_bind GetString (\<lambda>host.
     get_bind GetU16 (\<lambda>port.
     get_return \<lparr>ep_id = id, ep_host = host, ep_port = port\<rparr>)))"

definition BrokerEndpoint_wf :: "broker_endpoint \<Rightarrow> bool" where
  "BrokerEndpoint_wf m \<longleftrightarrow>
     is_i32 (ep_id m) \<and> string_ok (ep_host m)"

interpretation broker_endpoint: wire_codec BrokerEndpoint_Encode BrokerEndpoint_Decode BrokerEndpoint_wf
proof unfold_locales
  fix m assume "BrokerEndpoint_wf m"
  then show "parses BrokerEndpoint_Decode (wire_of BrokerEndpoint_Encode m) m"
    unfolding BrokerEndpoint_Decode_def
    by (cases m) (auto simp: wire_of_def BrokerEndpoint_Encode_def BrokerEndpoint_wf_def
        intro!: parses_steps parses_chain)
qed (simp_all add: wire_of_def BrokerEndpoint_Encode_def)


definition endpoints_ok :: "broker_endpoint list \<Rightarrow> bool" where
  "endpoints_ok xs \<longleftrightarrow> list_all BrokerEndpoint_wf xs \<and> length xs \<le> kMaxArrayElements"

lemma parses_broker_endpoints: "endpoints_ok xs \<Longrightarrow> parses (get_array 8 BrokerEndpoint_Decode) (array_bytes BrokerEndpoint_Encode xs) xs"
  unfolding endpoints_ok_def
  by (rule broker_endpoint.array_parses)
    (simp_all add: wire_of_def BrokerEndpoint_Encode_def string_bytes_def array_bytes_def)

lemmas [parses_chain] = parses_broker_endpoints [THEN parses_bind] parses_broker_endpoints [THEN parses_last]

lemmas [simp, buffer_simps] = broker_endpoint.array_ok broker_endpoint.array_wire

record partition_metadata =
  pm_index :: int
  pm_leader :: int
  pm_leader_epoch :: int
  pm_replicas :: "int list"
  pm_in_sync_replicas :: "int list"

definition PartitionMetadata_Encode :: "partition_metadata \<Rightarrow> byte_buffer \<Rightarrow> byte_buffer" where
  "PartitionMetadata_Encode m w =
     (let w = PutI32 (pm_index m) w;
          w = PutI32 (pm_leader m) w;
          w = PutI64 (pm_leader_epoch m) w;
          w = EncodeBrokerIds (pm_replicas m) w;
          w = EncodeBrokerIds (pm_in_sync_replicas m) w
      in w)"

definition PartitionMetadata_Decode :: "partition_metadata get" where
  "PartitionMetadata_Decode =
     get_bind GetI32 (\<lambda>index.
     get_bind GetI32 (\<lambda>leader.
     get_bind GetI64 (\<lambda>leader_epoch.
     get_bind DecodeBrokerIds (\<lambda>replicas.
     get_bind DecodeBrokerIds (\<lambda>in_sync_replicas.
     get_return \<lparr>pm_index = index, pm_leader = leader, pm_leader_epoch = leader_epoch,
       pm_replicas = replicas, pm_in_sync_replicas = in_sync_replicas\<rparr>)))))"

definition PartitionMetadata_wf :: "partition_metadata \<Rightarrow> bool" where
  "PartitionMetadata_wf m \<longleftrightarrow>
     is_i32 (pm_index m) \<and> is_i32 (pm_leader m) \<and> is_i64 (pm_leader_epoch m) \<and>
     ids_ok (pm_replicas m) \<and> ids_ok (pm_in_sync_replicas m)"

interpretation partition_metadata: wire_codec PartitionMetadata_Encode PartitionMetadata_Decode PartitionMetadata_wf
proof unfold_locales
  fix m assume "PartitionMetadata_wf m"
  then show "parses PartitionMetadata_Decode (wire_of PartitionMetadata_Encode m) m"
    unfolding PartitionMetadata_Decode_def
    by (cases m) (auto simp: wire_of_def PartitionMetadata_Encode_def PartitionMetadata_wf_def
        intro!: parses_steps parses_chain)
qed (simp_all add: wire_of_def PartitionMetadata_Encode_def)


definition partitions_ok :: "partition_metadata list \<Rightarrow> bool" where
  "partitions_ok xs \<longleftrightarrow> list_all PartitionMetadata_wf xs \<and> length xs \<le> kMaxArrayElements"

lemma parses_partition_metadatas: "partitions_ok xs \<Longrightarrow> parses (get_array 24 PartitionMetadata_Decode) (array_bytes PartitionMetadata_Encode xs) xs"
  unfolding partitions_ok_def
  by (rule partition_metadata.array_parses)
    (simp_all add: wire_of_def PartitionMetadata_Encode_def string_bytes_def array_bytes_def)

lemmas [parses_chain] = parses_partition_metadatas [THEN parses_bind] parses_partition_metadatas [THEN parses_last]

lemmas [simp, buffer_simps] = partition_metadata.array_ok partition_metadata.array_wire

record topic_metadata =
  tm_name :: string
  tm_partitions :: "partition_metadata list"

definition TopicMetadata_Encode :: "topic_metadata \<Rightarrow> byte_buffer \<Rightarrow> byte_buffer" where
  "TopicMetadata_Encode m w =
     (let w = PutString (tm_name m) w;
          w = put_array PartitionMetadata_Encode (tm_partitions m) w
      in w)"

definition TopicMetadata_Decode :: "topic_metadata get" where
  "TopicMetadata_Decode =
     get_bind GetString (\<lambda>name.
     get_bind (get_array 24 PartitionMetadata_Decode) (\<lambda>partitions.
     get_return \<lparr>tm_name = name, tm_partitions = partitions\<rparr>))"

definition TopicMetadata_wf :: "topic_metadata \<Rightarrow> bool" where
  "TopicMetadata_wf m \<longleftrightarrow>
     string_ok (tm_name m) \<and> partitions_ok (tm_partitions m)"

interpretation topic_metadata: wire_codec TopicMetadata_Encode TopicMetadata_Decode TopicMetadata_wf
proof unfold_locales
  fix m assume "TopicMetadata_wf m"
  then show "parses TopicMetadata_Decode (wire_of TopicMetadata_Encode m) m"
    unfolding TopicMetadata_Decode_def
    by (cases m) (auto simp: wire_of_def TopicMetadata_Encode_def TopicMetadata_wf_def
        intro!: parses_steps parses_chain)
qed (simp_all add: wire_of_def TopicMetadata_Encode_def)


definition topics_ok :: "topic_metadata list \<Rightarrow> bool" where
  "topics_ok xs \<longleftrightarrow> list_all TopicMetadata_wf xs \<and> length xs \<le> kMaxArrayElements"

lemma parses_topic_metadatas: "topics_ok xs \<Longrightarrow> parses (get_array 6 TopicMetadata_Decode) (array_bytes TopicMetadata_Encode xs) xs"
  unfolding topics_ok_def
  by (rule topic_metadata.array_parses)
    (simp_all add: wire_of_def TopicMetadata_Encode_def string_bytes_def array_bytes_def)

lemmas [parses_chain] = parses_topic_metadatas [THEN parses_bind] parses_topic_metadatas [THEN parses_last]

lemmas [simp, buffer_simps] = topic_metadata.array_ok topic_metadata.array_wire

record metadata_response =
  mdr_header :: response_header
  mdr_controller_id :: int
  mdr_brokers :: "broker_endpoint list"
  mdr_topics :: "topic_metadata list"

definition MetadataResponse_Encode :: "metadata_response \<Rightarrow> byte_buffer \<Rightarrow> byte_buffer" where
  "MetadataResponse_Encode m w =
     (let w = ResponseHeader_Encode (mdr_header m) w;
          w = PutI32 (mdr_controller_id m) w;
          w = put_array BrokerEndpoint_Encode (mdr_brokers m) w;
          w = put_array TopicMetadata_Encode (mdr_topics m) w
      in w)"

definition MetadataResponse_Decode :: "metadata_response get" where
  "MetadataResponse_Decode =
     get_bind ResponseHeader_Decode (\<lambda>header.
     get_bind GetI32 (\<lambda>controller_id.
     get_bind (get_array 8 BrokerEndpoint_Decode) (\<lambda>brokers.
     get_bind (get_array 6 TopicMetadata_Decode) (\<lambda>topics.
     get_return \<lparr>mdr_header = header, mdr_controller_id = controller_id,
       mdr_brokers = brokers, mdr_topics = topics\<rparr>))))"

definition MetadataResponse_wf :: "metadata_response \<Rightarrow> bool" where
  "MetadataResponse_wf m \<longleftrightarrow>
     header_ok (mdr_header m) \<and> is_i32 (mdr_controller_id m) \<and> endpoints_ok (mdr_brokers m) \<and>
     topics_ok (mdr_topics m)"

interpretation metadata_response: wire_codec MetadataResponse_Encode MetadataResponse_Decode MetadataResponse_wf
proof unfold_locales
  fix m assume "MetadataResponse_wf m"
  then show "parses MetadataResponse_Decode (wire_of MetadataResponse_Encode m) m"
    unfolding MetadataResponse_Decode_def
    by (cases m) (auto simp: wire_of_def MetadataResponse_Encode_def MetadataResponse_wf_def
        intro!: parses_steps parses_chain)
qed (simp_all add: wire_of_def MetadataResponse_Encode_def)


section \<open>ListTopics, Health and DescribeCluster\<close>

text \<open>The three requests without fields write and read nothing.\<close>

definition EmptyRequest_Encode :: "unit \<Rightarrow> byte_buffer \<Rightarrow> byte_buffer" where
  "EmptyRequest_Encode m w = w"

definition EmptyRequest_Decode :: "unit get" where
  "EmptyRequest_Decode = get_return ()"

interpretation empty_request: wire_codec EmptyRequest_Encode EmptyRequest_Decode "\<lambda>_. True"
  by unfold_locales (simp_all add: wire_of_def EmptyRequest_Encode_def EmptyRequest_Decode_def parses_return)

record topic_summary =
  ts_name :: string
  ts_partitions :: int
  ts_total_bytes :: int
  ts_total_records :: int

definition TopicSummary_Encode :: "topic_summary \<Rightarrow> byte_buffer \<Rightarrow> byte_buffer" where
  "TopicSummary_Encode m w =
     (let w = PutString (ts_name m) w;
          w = PutI32 (ts_partitions m) w;
          w = PutI64 (ts_total_bytes m) w;
          w = PutI64 (ts_total_records m) w
      in w)"

definition TopicSummary_Decode :: "topic_summary get" where
  "TopicSummary_Decode =
     get_bind GetString (\<lambda>name.
     get_bind GetI32 (\<lambda>partitions.
     get_bind GetI64 (\<lambda>total_bytes.
     get_bind GetI64 (\<lambda>total_records.
     get_return \<lparr>ts_name = name, ts_partitions = partitions, ts_total_bytes = total_bytes,
       ts_total_records = total_records\<rparr>))))"

definition TopicSummary_wf :: "topic_summary \<Rightarrow> bool" where
  "TopicSummary_wf m \<longleftrightarrow>
     string_ok (ts_name m) \<and> is_i32 (ts_partitions m) \<and> is_i64 (ts_total_bytes m) \<and>
     is_i64 (ts_total_records m)"

interpretation topic_summary: wire_codec TopicSummary_Encode TopicSummary_Decode TopicSummary_wf
proof unfold_locales
  fix m assume "TopicSummary_wf m"
  then show "parses TopicSummary_Decode (wire_of TopicSummary_Encode m) m"
    unfolding TopicSummary_Decode_def
    by (cases m) (auto simp: wire_of_def TopicSummary_Encode_def TopicSummary_wf_def
        intro!: parses_steps parses_chain)
qed (simp_all add: wire_of_def TopicSummary_Encode_def)


definition summaries_ok :: "topic_summary list \<Rightarrow> bool" where
  "summaries_ok xs \<longleftrightarrow> list_all TopicSummary_wf xs \<and> length xs \<le> kMaxArrayElements"

lemma parses_topic_summarys: "summaries_ok xs \<Longrightarrow> parses (get_array 22 TopicSummary_Decode) (array_bytes TopicSummary_Encode xs) xs"
  unfolding summaries_ok_def
  by (rule topic_summary.array_parses)
    (simp_all add: wire_of_def TopicSummary_Encode_def string_bytes_def array_bytes_def)

lemmas [parses_chain] = parses_topic_summarys [THEN parses_bind] parses_topic_summarys [THEN parses_last]

lemmas [simp, buffer_simps] = topic_summary.array_ok topic_summary.array_wire

record list_topics_response =
  ltr_header :: response_header
  ltr_topics :: "topic_summary list"

definition ListTopicsResponse_Encode :: "list_topics_response \<Rightarrow> byte_buffer \<Rightarrow> byte_buffer" where
  "ListTopicsResponse_Encode m w =
     (let w = ResponseHeader_Encode (ltr_header m) w;
          w = put_array TopicSummary_Encode (ltr_topics m) w
      in w)"

definition ListTopicsResponse_Decode :: "list_topics_response get" where
  "ListTopicsResponse_Decode =
     get_bind ResponseHeader_Decode (\<lambda>header.
     get_bind (get_array 22 TopicSummary_Decode) (\<lambda>topics.
     get_return \<lparr>ltr_header = header, ltr_topics = topics\<rparr>))"

definition ListTopicsResponse_wf :: "list_topics_response \<Rightarrow> bool" where
  "ListTopicsResponse_wf m \<longleftrightarrow>
     header_ok (ltr_header m) \<and> summaries_ok (ltr_topics m)"

interpretation list_topics_response: wire_codec ListTopicsResponse_Encode ListTopicsResponse_Decode ListTopicsResponse_wf
proof unfold_locales
  fix m assume "ListTopicsResponse_wf m"
  then show "parses ListTopicsResponse_Decode (wire_of ListTopicsResponse_Encode m) m"
    unfolding ListTopicsResponse_Decode_def
    by (cases m) (auto simp: wire_of_def ListTopicsResponse_Encode_def ListTopicsResponse_wf_def
        intro!: parses_steps parses_chain)
qed (simp_all add: wire_of_def ListTopicsResponse_Encode_def)


record health_response =
  hr_header :: response_header
  hr_broker_id :: int
  hr_uptime_ms :: int
  hr_hosted_partitions :: int
  hr_leader_partitions :: int
  hr_ready :: bool
  hr_version :: string

definition HealthResponse_Encode :: "health_response \<Rightarrow> byte_buffer \<Rightarrow> byte_buffer" where
  "HealthResponse_Encode m w =
     (let w = ResponseHeader_Encode (hr_header m) w;
          w = PutI32 (hr_broker_id m) w;
          w = PutI64 (hr_uptime_ms m) w;
          w = PutI32 (hr_hosted_partitions m) w;
          w = PutI32 (hr_leader_partitions m) w;
          w = PutBool (hr_ready m) w;
          w = PutString (hr_version m) w
      in w)"

definition HealthResponse_Decode :: "health_response get" where
  "HealthResponse_Decode =
     get_bind ResponseHeader_Decode (\<lambda>header.
     get_bind GetI32 (\<lambda>broker_id.
     get_bind GetI64 (\<lambda>uptime_ms.
     get_bind GetI32 (\<lambda>hosted_partitions.
     get_bind GetI32 (\<lambda>leader_partitions.
     get_bind GetBool (\<lambda>ready.
     get_bind GetString (\<lambda>version.
     get_return \<lparr>hr_header = header, hr_broker_id = broker_id, hr_uptime_ms = uptime_ms,
       hr_hosted_partitions = hosted_partitions, hr_leader_partitions = leader_partitions,
       hr_ready = ready, hr_version = version\<rparr>)))))))"

definition HealthResponse_wf :: "health_response \<Rightarrow> bool" where
  "HealthResponse_wf m \<longleftrightarrow>
     header_ok (hr_header m) \<and> is_i32 (hr_broker_id m) \<and> is_i64 (hr_uptime_ms m) \<and>
     is_i32 (hr_hosted_partitions m) \<and> is_i32 (hr_leader_partitions m) \<and> string_ok (hr_version m)"

interpretation health_response: wire_codec HealthResponse_Encode HealthResponse_Decode HealthResponse_wf
proof unfold_locales
  fix m assume "HealthResponse_wf m"
  then show "parses HealthResponse_Decode (wire_of HealthResponse_Encode m) m"
    unfolding HealthResponse_Decode_def
    by (cases m) (auto simp: wire_of_def HealthResponse_Encode_def HealthResponse_wf_def
        intro!: parses_steps parses_chain)
qed (simp_all add: wire_of_def HealthResponse_Encode_def)


record describe_cluster_response =
  dcr_header :: response_header
  dcr_controller_id :: int
  dcr_brokers :: "broker_endpoint list"
  dcr_live_brokers :: "int list"

definition DescribeClusterResponse_Encode :: "describe_cluster_response \<Rightarrow> byte_buffer \<Rightarrow> byte_buffer" where
  "DescribeClusterResponse_Encode m w =
     (let w = ResponseHeader_Encode (dcr_header m) w;
          w = PutI32 (dcr_controller_id m) w;
          w = put_array BrokerEndpoint_Encode (dcr_brokers m) w;
          w = EncodeBrokerIds (dcr_live_brokers m) w
      in w)"

definition DescribeClusterResponse_Decode :: "describe_cluster_response get" where
  "DescribeClusterResponse_Decode =
     get_bind ResponseHeader_Decode (\<lambda>header.
     get_bind GetI32 (\<lambda>controller_id.
     get_bind (get_array 8 BrokerEndpoint_Decode) (\<lambda>brokers.
     get_bind DecodeBrokerIds (\<lambda>live_brokers.
     get_return \<lparr>dcr_header = header, dcr_controller_id = controller_id,
       dcr_brokers = brokers, dcr_live_brokers = live_brokers\<rparr>))))"

definition DescribeClusterResponse_wf :: "describe_cluster_response \<Rightarrow> bool" where
  "DescribeClusterResponse_wf m \<longleftrightarrow>
     header_ok (dcr_header m) \<and> is_i32 (dcr_controller_id m) \<and> endpoints_ok (dcr_brokers m) \<and>
     ids_ok (dcr_live_brokers m)"

interpretation describe_cluster_response: wire_codec DescribeClusterResponse_Encode DescribeClusterResponse_Decode DescribeClusterResponse_wf
proof unfold_locales
  fix m assume "DescribeClusterResponse_wf m"
  then show "parses DescribeClusterResponse_Decode (wire_of DescribeClusterResponse_Encode m) m"
    unfolding DescribeClusterResponse_Decode_def
    by (cases m) (auto simp: wire_of_def DescribeClusterResponse_Encode_def DescribeClusterResponse_wf_def
        intro!: parses_steps parses_chain)
qed (simp_all add: wire_of_def DescribeClusterResponse_Encode_def)


end
