(* ===== verification/PL_Messages_Group.thy ===== *)
theory PL_Messages_Group
  imports PL_Messages_Control
begin

text \<open>
  The consumer-group and replication messages (\<open>src/protocol/messages_group.cc\<close>).
\<close>

section \<open>JoinGroup\<close>

record join_group_request =
  jgq_group_id :: string
  jgq_member_id :: string
  jgq_topics :: "string list"
  jgq_session_timeout_ms :: int
  jgq_strategy :: assignment_strategy

definition JoinGroupRequest_Encode :: "join_group_request \<Rightarrow> byte_buffer \<Rightarrow> byte_buffer" where
  "JoinGroupRequest_Encode m w =
     (let w = PutString (jgq_group_id m) w;
          w = PutString (jgq_member_id m) w;
          w = put_array PutString (jgq_topics m) w;
          w = PutI32 (jgq_session_timeout_ms m) w;
          w = PutU8 (strategy_u8 (jgq_strategy m)) w
      in w)"

definition JoinGroupRequest_Decode :: "join_group_request get" where
  "JoinGroupRequest_Decode =
     get_bind GetString (\<lambda>group_id.
     get_bind GetString (\<lambda>member_id.
     get_bind (get_array 2 GetString) (\<lambda>topics.
     get_bind GetI32 (\<lambda>session_timeout_ms.
     get_bind GetU8 (\<lambda>strategy_raw.
     get_bind (get_guard (strategy_raw \<le> 1)) (\<lambda>_.
     get_return \<lparr>jgq_group_id = group_id, jgq_member_id = member_id, jgq_topics = topics,
       jgq_session_timeout_ms = session_timeout_ms, jgq_strategy = strategy_of_u8 strategy_raw\<rparr>))))))"

definition JoinGroupRequest_wf :: "join_group_request \<Rightarrow> bool" where
  "JoinGroupRequest_wf m \<longleftrightarrow>
     string_ok (jgq_group_id m) \<and> string_ok (jgq_member_id m) \<and> strings_ok (jgq_topics m) \<and>
     is_i32 (jgq_session_timeout_ms m)"

interpretation join_group_request: wire_codec JoinGroupRequest_Encode JoinGroupRequest_Decode JoinGroupRequest_wf
proof unfold_locales
  fix m assume "JoinGroupRequest_wf m"
  then show "parses JoinGroupRequest_Decode (wire_of JoinGroupRequest_Encode m) m"
    unfolding JoinGroupRequest_Decode_def
    by (cases m) (auto simp: wire_of_def JoinGroupRequest_Encode_def JoinGroupRequest_wf_def
        intro!: parses_steps parses_chain)
qed (simp_all add: wire_of_def JoinGroupRequest_Encode_def)


definition TopicPartition_Encode :: "topic_partition \<Rightarrow> byte_buffer \<Rightarrow> byte_buffer" where
  "TopicPartition_Encode tp w =
     (let w = PutString (tp_topic tp) w;
          w = PutI32 (tp_partition tp) w
      in w)"

definition TopicPartition_Decode :: "topic_partition get" where
  "TopicPartition_Decode =
     get_bind GetString (\<lambda>topic.
     get_bind GetI32 (\<lambda>partition_raw.
     get_bind (get_guard (0 \<le> partition_raw)) (\<lambda>_.
     get_return (TopicPartition topic partition_raw))))"

definition TopicPartition_wf :: "topic_partition \<Rightarrow> bool" where
  "TopicPartition_wf tp \<longleftrightarrow> string_ok (tp_topic tp) \<and> is_i32 (tp_partition tp) \<and> 0 \<le> tp_partition tp"

interpretation topic_partition: wire_codec TopicPartition_Encode TopicPartition_Decode TopicPartition_wf
proof unfold_locales
  fix m assume "TopicPartition_wf m"
  then show "parses TopicPartition_Decode (wire_of TopicPartition_Encode m) m"
    unfolding TopicPartition_Decode_def
    by (cases m) (auto simp: wire_of_def TopicPartition_Encode_def TopicPartition_wf_def
        intro!: parses_steps parses_chain)
qed (simp_all add: wire_of_def TopicPartition_Encode_def)

definition assignment_ok :: "topic_partition list \<Rightarrow> bool" where
  "assignment_ok xs \<longleftrightarrow> list_all TopicPartition_wf xs \<and> length xs \<le> kMaxArrayElements"

lemma parses_assignment:
  "assignment_ok xs \<Longrightarrow> parses (get_array 6 TopicPartition_Decode) (array_bytes TopicPartition_Encode xs) xs"
  unfolding assignment_ok_def
  by (rule topic_partition.array_parses)
    (simp_all add: wire_of_def TopicPartition_Encode_def string_bytes_def)

lemmas [parses_chain] = parses_assignment [THEN parses_bind] parses_assignment [THEN parses_last]

lemmas [simp, buffer_simps] = topic_partition.array_ok topic_partition.array_wire

record join_group_response =
  jgr_header :: response_header
  jgr_generation :: int
  jgr_member_id :: string
  jgr_leader_id :: string
  jgr_assignment :: "topic_partition list"

definition JoinGroupResponse_Encode :: "join_group_response \<Rightarrow> byte_buffer \<Rightarrow> byte_buffer" where
  "JoinGroupResponse_Encode m w =
     (let w = ResponseHeader_Encode (jgr_header m) w;
          w = PutI32 (jgr_generation m) w;
          w = PutString (jgr_member_id m) w;
          w = PutString (jgr_leader_id m) w;
          w = put_array TopicPartition_Encode (jgr_assignment m) w
      in w)"

definition JoinGroupResponse_Decode :: "join_group_response get" where
  "JoinGroupResponse_Decode =
     get_bind ResponseHeader_Decode (\<lambda>header.
     get_bind GetI32 (\<lambda>generation.
     get_bind GetString (\<lambda>member_id.
     get_bind GetString (\<lambda>leader_id.
     get_bind (get_array 6 TopicPartition_Decode) (\<lambda>assignment.
     get_return \<lparr>jgr_header = header, jgr_generation = generation,
       jgr_member_id = member_id, jgr_leader_id = leader_id, jgr_assignment = assignment\<rparr>)))))"

definition JoinGroupResponse_wf :: "join_group_response \<Rightarrow> bool" where
  "JoinGroupResponse_wf m \<longleftrightarrow>
     header_ok (jgr_header m) \<and> is_i32 (jgr_generation m) \<and> string_ok (jgr_member_id m) \<and>
     string_ok (jgr_leader_id m) \<and> assignment_ok (jgr_assignment m)"

interpretation join_group_response: wire_codec JoinGroupResponse_Encode JoinGroupResponse_Decode JoinGroupResponse_wf
proof unfold_locales
  fix m assume "JoinGroupResponse_wf m"
  then show "parses JoinGroupResponse_Decode (wire_of JoinGroupResponse_Encode m) m"
    unfolding JoinGroupResponse_Decode_def
    by (cases m) (auto simp: wire_of_def JoinGroupResponse_Encode_def JoinGroupResponse_wf_def
        intro!: parses_steps parses_chain)
qed (simp_all add: wire_of_def JoinGroupResponse_Encode_def)


section \<open>Heartbeat and LeaveGroup\<close>

record heartbeat_request =
  hbq_group_id :: string
  hbq_member_id :: string
  hbq_generation :: int

definition HeartbeatRequest_Encode :: "heartbeat_request \<Rightarrow> byte_buffer \<Rightarrow> byte_buffer" where
  "HeartbeatRequest_Encode m w =
     (let w = PutString (hbq_group_id m) w;
          w = PutString (hbq_member_id m) w;
          w = PutI32 (hbq_generation m) w
      in w)"

definition HeartbeatRequest_Decode :: "heartbeat_request get" where
  "HeartbeatRequest_Decode =
     get_bind GetString (\<lambda>group_id.
     get_bind GetString (\<lambda>member_id.
     get_bind GetI32 (\<lambda>generation.
     get_return \<lparr>hbq_group_id = group_id, hbq_member_id = member_id,
       hbq_generation = generation\<rparr>)))"

definition HeartbeatRequest_wf :: "heartbeat_request \<Rightarrow> bool" where
  "HeartbeatRequest_wf m \<longleftrightarrow>
     string_ok (hbq_group_id m) \<and> string_ok (hbq_member_id m) \<and> is_i32 (hbq_generation m)"

interpretation heartbeat_request: wire_codec HeartbeatRequest_Encode HeartbeatRequest_Decode HeartbeatRequest_wf
proof unfold_locales
  fix m assume "HeartbeatRequest_wf m"
  then show "parses HeartbeatRequest_Decode (wire_of HeartbeatRequest_Encode m) m"
    unfolding HeartbeatRequest_Decode_def
    by (cases m) (auto simp: wire_of_def HeartbeatRequest_Encode_def HeartbeatRequest_wf_def
        intro!: parses_steps parses_chain)
qed (simp_all add: wire_of_def HeartbeatRequest_Encode_def)


record heartbeat_response =
  hbr_header :: response_header
  hbr_generation :: int
  hbr_rejoin_required :: bool

definition HeartbeatResponse_Encode :: "heartbeat_response \<Rightarrow> byte_buffer \<Rightarrow> byte_buffer" where
  "HeartbeatResponse_Encode m w =
     (let w = ResponseHeader_Encode (hbr_header m) w;
          w = PutI32 (hbr_generation m) w;
          w = PutBool (hbr_rejoin_required m) w
      in w)"

definition HeartbeatResponse_Decode :: "heartbeat_response get" where
  "HeartbeatResponse_Decode =
     get_bind ResponseHeader_Decode (\<lambda>header.
     get_bind GetI32 (\<lambda>generation.
     get_bind GetBool (\<lambda>rejoin_required.
     get_return \<lparr>hbr_header = header, hbr_generation = generation,
       hbr_rejoin_required = rejoin_required\<rparr>)))"

definition HeartbeatResponse_wf :: "heartbeat_response \<Rightarrow> bool" where
  "HeartbeatResponse_wf m \<longleftrightarrow>
     header_ok (hbr_header m) \<and> is_i32 (hbr_generation m)"

interpretation heartbeat_response: wire_codec HeartbeatResponse_Encode HeartbeatResponse_Decode HeartbeatResponse_wf
proof unfold_locales
  fix m assume "HeartbeatResponse_wf m"
  then show "parses HeartbeatResponse_Decode (wire_of HeartbeatResponse_Encode m) m"
    unfolding HeartbeatResponse_Decode_def
    by (cases m) (auto simp: wire_of_def HeartbeatResponse_Encode_def HeartbeatResponse_wf_def
        intro!: parses_steps parses_chain)
qed (simp_all add: wire_of_def HeartbeatResponse_Encode_def)


record leave_group_request =
  lgq_group_id :: string
  lgq_member_id :: string

definition LeaveGroupRequest_Encode :: "leave_group_request \<Rightarrow> byte_buffer \<Rightarrow> byte_buffer" where
  "LeaveGroupRequest_Encode m w =
     (let w = PutString (lgq_group_id m) w;
          w = PutString (lgq_member_id m) w
      in w)"

definition LeaveGroupRequest_Decode :: "leave_group_request get" where
  "LeaveGroupRequest_Decode =
     get_bind GetString (\<lambda>group_id.
     get_bind GetString (\<lambda>member_id.
     get_return \<lparr>lgq_group_id = group_id, lgq_member_id = member_id\<rparr>))"

definition LeaveGroupRequest_wf :: "leave_group_request \<Rightarrow> bool" where
  "LeaveGroupRequest_wf m \<longleftrightarrow>
     string_ok (lgq_group_id m) \<and> string_ok (lgq_member_id m)"

interpretation leave_group_request: wire_codec LeaveGroupRequest_Encode LeaveGroupRequest_Decode LeaveGroupRequest_wf
proof unfold_locales
  fix m assume "LeaveGroupRequest_wf m"
  then show "parses LeaveGroupRequest_Decode (wire_of LeaveGroupRequest_Encode m) m"
    unfolding LeaveGroupRequest_Decode_def
    by (cases m) (auto simp: wire_of_def LeaveGroupRequest_Encode_def LeaveGroupRequest_wf_def
        intro!: parses_steps parses_chain)
qed (simp_all add: wire_of_def LeaveGroupRequest_Encode_def)


record leave_group_response =
  lgr_header :: response_header

definition LeaveGroupResponse_Encode :: "leave_group_response \<Rightarrow> byte_buffer \<Rightarrow> byte_buffer" where
  "LeaveGroupResponse_Encode m w =
     (let w = ResponseHeader_Encode (lgr_header m) w
      in w)"

definition LeaveGroupResponse_Decode :: "leave_group_response get" where
  "LeaveGroupResponse_Decode =
     get_bind ResponseHeader_Decode (\<lambda>header.
     get_return \<lparr>lgr_header = header\<rparr>)"

definition LeaveGroupResponse_wf :: "leave_group_response \<Rightarrow> bool" where
  "LeaveGroupResponse_wf m \<longleftrightarrow>
     header_ok (lgr_header m)"

interpretation leave_group_response: wire_codec LeaveGroupResponse_Encode LeaveGroupResponse_Decode LeaveGroupResponse_wf
proof unfold_locales
  fix m assume "LeaveGroupResponse_wf m"
  then show "parses LeaveGroupResponse_Decode (wire_of LeaveGroupResponse_Encode m) m"
    unfolding LeaveGroupResponse_Decode_def
    by (cases m) (auto simp: wire_of_def LeaveGroupResponse_Encode_def LeaveGroupResponse_wf_def
        intro!: parses_steps parses_chain)
qed (simp_all add: wire_of_def LeaveGroupResponse_Encode_def)


section \<open>Offset commit and fetch\<close>

record commit_offset_request =
  coq_group_id :: string
  coq_member_id :: string
  coq_generation :: int
  coq_topic :: string
  coq_partition :: int
  coq_offset :: int
  coq_metadata :: string

definition CommitOffsetRequest_Encode :: "commit_offset_request \<Rightarrow> byte_buffer \<Rightarrow> byte_buffer" where
  "CommitOffsetRequest_Encode m w =
     (let w = PutString (coq_group_id m) w;
          w = PutString (coq_member_id m) w;
          w = PutI32 (coq_generation m) w;
          w = PutString (coq_topic m) w;
          w = PutI32 (coq_partition m) w;
          w = PutI64 (coq_offset m) w;
          w = PutString (coq_metadata m) w
      in w)"

definition CommitOffsetRequest_Decode :: "commit_offset_request get" where
  "CommitOffsetRequest_Decode =
     get_bind GetString (\<lambda>group_id.
     get_bind GetString (\<lambda>member_id.
     get_bind GetI32 (\<lambda>generation.
     get_bind GetString (\<lambda>topic.
     get_bind GetI32 (\<lambda>partition_raw.
     get_bind (get_guard (0 \<le> partition_raw)) (\<lambda>_.
     get_bind GetI64 (\<lambda>offset.
     get_bind GetString (\<lambda>metadata.
     get_return \<lparr>coq_group_id = group_id, coq_member_id = member_id,
       coq_generation = generation, coq_topic = topic, coq_partition = partition_raw,
       coq_offset = offset, coq_metadata = metadata\<rparr>))))))))"

definition CommitOffsetRequest_wf :: "commit_offset_request \<Rightarrow> bool" where
  "CommitOffsetRequest_wf m \<longleftrightarrow>
     string_ok (coq_group_id m) \<and> string_ok (coq_member_id m) \<and> is_i32 (coq_generation m) \<and>
     string_ok (coq_topic m) \<and> is_i32 (coq_partition m) \<and> 0 \<le> coq_partition m \<and>
     is_i64 (coq_offset m) \<and> string_ok (coq_metadata m)"

interpretation commit_offset_request: wire_codec CommitOffsetRequest_Encode CommitOffsetRequest_Decode CommitOffsetRequest_wf
proof unfold_locales
  fix m assume "CommitOffsetRequest_wf m"
  then show "parses CommitOffsetRequest_Decode (wire_of CommitOffsetRequest_Encode m) m"
    unfolding CommitOffsetRequest_Decode_def
    by (cases m) (auto simp: wire_of_def CommitOffsetRequest_Encode_def CommitOffsetRequest_wf_def
        intro!: parses_steps parses_chain)
qed (simp_all add: wire_of_def CommitOffsetRequest_Encode_def)


record commit_offset_response =
  cor_header :: response_header

definition CommitOffsetResponse_Encode :: "commit_offset_response \<Rightarrow> byte_buffer \<Rightarrow> byte_buffer" where
  "CommitOffsetResponse_Encode m w =
     (let w = ResponseHeader_Encode (cor_header m) w
      in w)"

definition CommitOffsetResponse_Decode :: "commit_offset_response get" where
  "CommitOffsetResponse_Decode =
     get_bind ResponseHeader_Decode (\<lambda>header.
     get_return \<lparr>cor_header = header\<rparr>)"

definition CommitOffsetResponse_wf :: "commit_offset_response \<Rightarrow> bool" where
  "CommitOffsetResponse_wf m \<longleftrightarrow>
     header_ok (cor_header m)"

interpretation commit_offset_response: wire_codec CommitOffsetResponse_Encode CommitOffsetResponse_Decode CommitOffsetResponse_wf
proof unfold_locales
  fix m assume "CommitOffsetResponse_wf m"
  then show "parses CommitOffsetResponse_Decode (wire_of CommitOffsetResponse_Encode m) m"
    unfolding CommitOffsetResponse_Decode_def
    by (cases m) (auto simp: wire_of_def CommitOffsetResponse_Encode_def CommitOffsetResponse_wf_def
        intro!: parses_steps parses_chain)
qed (simp_all add: wire_of_def CommitOffsetResponse_Encode_def)


record fetch_offset_request =
  foq_group_id :: string
  foq_topic :: string
  foq_partition :: int

definition FetchOffsetRequest_Encode :: "fetch_offset_request \<Rightarrow> byte_buffer \<Rightarrow> byte_buffer" where
  "FetchOffsetRequest_Encode m w =
     (let w = PutString (foq_group_id m) w;
          w = PutString (foq_topic m) w;
          w = PutI32 (foq_partition m) w
      in w)"

definition FetchOffsetRequest_Decode :: "fetch_offset_request get" where
  "FetchOffsetRequest_Decode =
     get_bind GetString (\<lambda>group_id.
     get_bind GetString (\<lambda>topic.
     get_bind GetI32 (\<lambda>partition_raw.
     get_bind (get_guard (0 \<le> partition_raw)) (\<lambda>_.
     get_return \<lparr>foq_group_id = group_id, foq_topic = topic, foq_partition = partition_raw\<rparr>))))"

definition FetchOffsetRequest_wf :: "fetch_offset_request \<Rightarrow> bool" where
  "FetchOffsetRequest_wf m \<longleftrightarrow>
     string_ok (foq_group_id m) \<and> string_ok (foq_topic m) \<and>
     is_i32 (foq_partition m) \<and> 0 \<le> foq_partition m"

interpretation fetch_offset_request: wire_codec FetchOffsetRequest_Encode FetchOffsetRequest_Decode FetchOffsetRequest_wf
proof unfold_locales
  fix m assume "FetchOffsetRequest_wf m"
  then show "parses FetchOffsetRequest_Decode (wire_of FetchOffsetRequest_Encode m) m"
    unfolding FetchOffsetRequest_Decode_def
    by (cases m) (auto simp: wire_of_def FetchOffsetRequest_Encode_def FetchOffsetRequest_wf_def
        intro!: parses_steps parses_chain)
qed (simp_all add: wire_of_def FetchOffsetRequest_Encode_def)


record fetch_offset_response =
  for_header :: response_header
  for_offset :: int
  for_metadata :: string

definition FetchOffsetResponse_Encode :: "fetch_offset_response \<Rightarrow> byte_buffer \<Rightarrow> byte_buffer" where
  "FetchOffsetResponse_Encode m w =
     (let w = ResponseHeader_Encode (for_header m) w;
          w = PutI64 (for_offset m) w;
          w = PutString (for_metadata m) w
      in w)"

definition FetchOffsetResponse_Decode :: "fetch_offset_response get" where
  "FetchOffsetResponse_Decode =
     get_bind ResponseHeader_Decode (\<lambda>header.
     get_bind GetI64 (\<lambda>offset.
     get_bind GetString (\<lambda>metadata.
     get_return \<lparr>for_header = header, for_offset = offset, for_metadata = metadata\<rparr>)))"

definition FetchOffsetResponse_wf :: "fetch_offset_response \<Rightarrow> bool" where
  "FetchOffsetResponse_wf m \<longleftrightarrow>
     header_ok (for_header m) \<and> is_i64 (for_offset m) \<and> string_ok (for_metadata m)"

interpretation fetch_offset_response: wire_codec FetchOffsetResponse_Encode FetchOffsetResponse_Decode FetchOffsetResponse_wf
proof unfold_locales
  fix m assume "FetchOffsetResponse_wf m"
  then show "parses FetchOffsetResponse_Decode (wire_of FetchOffsetResponse_Encode m) m"
    unfolding FetchOffsetResponse_Decode_def
    by (cases m) (auto simp: wire_of_def FetchOffsetResponse_Encode_def FetchOffsetResponse_wf_def
        intro!: parses_steps parses_chain)
qed (simp_all add: wire_of_def FetchOffsetResponse_Encode_def)


section \<open>Replication\<close>

record replicate_request =
  rpq_topic :: string
  rpq_partition :: int
  rpq_leader_id :: int
  rpq_leader_epoch :: int
  rpq_base_offset :: int
  rpq_prev_offset :: int
  rpq_leader_high_water_mark :: int
  rpq_leader_log_start_offset :: int
  rpq_record_count :: u32
  rpq_records :: bytes

definition ReplicateRequest_Encode :: "replicate_request \<Rightarrow> byte_buffer \<Rightarrow> byte_buffer" where
  "ReplicateRequest_Encode m w =
     (let w = PutString (rpq_topic m) w;
          w = PutI32 (rpq_partition m) w;
          w = PutI32 (rpq_leader_id m) w;
          w = PutI64 (rpq_leader_epoch m) w;
          w = PutI64 (rpq_base_offset m) w;
          w = PutI64 (rpq_prev_offset m) w;
          w = PutI64 (rpq_leader_high_water_mark m) w;
          w = PutI64 (rpq_leader_log_start_offset m) w;
          w = PutU32 (rpq_record_count m) w;
          w = PutU32 (word_of_nat (length (rpq_records m))) w;
          w = PutRaw (rpq_records m) w
      in w)"

definition ReplicateRequest_Decode :: "replicate_request get" where
  "ReplicateRequest_Decode =
     get_bind GetString (\<lambda>topic.
     get_bind GetI32 (\<lambda>partition_raw.
     get_bind GetI32 (\<lambda>leader_id.
     get_bind (get_guard (0 \<le> partition_raw)) (\<lambda>_.
     get_bind GetI64 (\<lambda>leader_epoch.
     get_bind GetI64 (\<lambda>base_offset.
     get_bind GetI64 (\<lambda>prev_offset.
     get_bind GetI64 (\<lambda>leader_high_water_mark.
     get_bind GetI64 (\<lambda>leader_log_start_offset.
     get_bind GetU32 (\<lambda>record_count.
     get_bind GetU32 (\<lambda>records_len.
     get_bind (get_need (unat records_len)) (\<lambda>_.
     get_bind (get_tail (unat records_len)) (\<lambda>records.
     get_return \<lparr>rpq_topic = topic, rpq_partition = partition_raw,
       rpq_leader_id = leader_id, rpq_leader_epoch = leader_epoch, rpq_base_offset = base_offset,
       rpq_prev_offset = prev_offset, rpq_leader_high_water_mark = leader_high_water_mark,
       rpq_leader_log_start_offset = leader_log_start_offset, rpq_record_count = record_count,
       rpq_records = records\<rparr>)))))))))))))"

definition ReplicateRequest_wf :: "replicate_request \<Rightarrow> bool" where
  "ReplicateRequest_wf m \<longleftrightarrow>
     string_ok (rpq_topic m) \<and> is_i32 (rpq_partition m) \<and> 0 \<le> rpq_partition m \<and>
     is_i32 (rpq_leader_id m) \<and> is_i64 (rpq_leader_epoch m) \<and> is_i64 (rpq_base_offset m) \<and>
     is_i64 (rpq_prev_offset m) \<and> is_i64 (rpq_leader_high_water_mark m) \<and>
     is_i64 (rpq_leader_log_start_offset m) \<and> trailing_ok (rpq_records m)"

interpretation replicate_request: message_codec ReplicateRequest_Encode ReplicateRequest_Decode ReplicateRequest_wf
proof unfold_locales
  fix m assume "ReplicateRequest_wf m"
  then show "parses_end ReplicateRequest_Decode (wire_of ReplicateRequest_Encode m) m"
    unfolding ReplicateRequest_Decode_def
    by (cases m) (auto simp: wire_of_def ReplicateRequest_Encode_def ReplicateRequest_wf_def trailing_length
        intro!: parses_end_steps parses_chain)
qed (simp_all add: wire_of_def ReplicateRequest_Encode_def)


record replicate_response =
  rpr_header :: response_header
  rpr_follower_id :: int
  rpr_log_end_offset :: int
  rpr_flushed_offset :: int
  rpr_leader_epoch :: int

definition ReplicateResponse_Encode :: "replicate_response \<Rightarrow> byte_buffer \<Rightarrow> byte_buffer" where
  "ReplicateResponse_Encode m w =
     (let w = ResponseHeader_Encode (rpr_header m) w;
          w = PutI32 (rpr_follower_id m) w;
          w = PutI64 (rpr_log_end_offset m) w;
          w = PutI64 (rpr_flushed_offset m) w;
          w = PutI64 (rpr_leader_epoch m) w
      in w)"

definition ReplicateResponse_Decode :: "replicate_response get" where
  "ReplicateResponse_Decode =
     get_bind ResponseHeader_Decode (\<lambda>header.
     get_bind GetI32 (\<lambda>follower_id.
     get_bind GetI64 (\<lambda>log_end_offset.
     get_bind GetI64 (\<lambda>flushed_offset.
     get_bind GetI64 (\<lambda>leader_epoch.
     get_return \<lparr>rpr_header = header, rpr_follower_id = follower_id,
       rpr_log_end_offset = log_end_offset, rpr_flushed_offset = flushed_offset,
       rpr_leader_epoch = leader_epoch\<rparr>)))))"

definition ReplicateResponse_wf :: "replicate_response \<Rightarrow> bool" where
  "ReplicateResponse_wf m \<longleftrightarrow>
     header_ok (rpr_header m) \<and> is_i32 (rpr_follower_id m) \<and> is_i64 (rpr_log_end_offset m) \<and>
     is_i64 (rpr_flushed_offset m) \<and> is_i64 (rpr_leader_epoch m)"

interpretation replicate_response: wire_codec ReplicateResponse_Encode ReplicateResponse_Decode ReplicateResponse_wf
proof unfold_locales
  fix m assume "ReplicateResponse_wf m"
  then show "parses ReplicateResponse_Decode (wire_of ReplicateResponse_Encode m) m"
    unfolding ReplicateResponse_Decode_def
    by (cases m) (auto simp: wire_of_def ReplicateResponse_Encode_def ReplicateResponse_wf_def
        intro!: parses_steps parses_chain)
qed (simp_all add: wire_of_def ReplicateResponse_Encode_def)


record replica_fetch_request =
  rfq_topic :: string
  rfq_partition :: int
  rfq_follower_id :: int
  rfq_leader_epoch :: int
  rfq_fetch_offset :: int
  rfq_max_bytes :: u32

definition ReplicaFetchRequest_Encode :: "replica_fetch_request \<Rightarrow> byte_buffer \<Rightarrow> byte_buffer" where
  "ReplicaFetchRequest_Encode m w =
     (let w = PutString (rfq_topic m) w;
          w = PutI32 (rfq_partition m) w;
          w = PutI32 (rfq_follower_id m) w;
          w = PutI64 (rfq_leader_epoch m) w;
          w = PutI64 (rfq_fetch_offset m) w;
          w = PutU32 (rfq_max_bytes m) w
      in w)"

definition ReplicaFetchRequest_Decode :: "replica_fetch_request get" where
  "ReplicaFetchRequest_Decode =
     get_bind GetString (\<lambda>topic.
     get_bind GetI32 (\<lambda>partition_raw.
     get_bind GetI32 (\<lambda>follower_id.
     get_bind (get_guard (0 \<le> partition_raw)) (\<lambda>_.
     get_bind GetI64 (\<lambda>leader_epoch.
     get_bind GetI64 (\<lambda>fetch_offset.
     get_bind GetU32 (\<lambda>max_bytes.
     get_return \<lparr>rfq_topic = topic, rfq_partition = partition_raw,
       rfq_follower_id = follower_id, rfq_leader_epoch = leader_epoch,
       rfq_fetch_offset = fetch_offset, rfq_max_bytes = max_bytes\<rparr>)))))))"

definition ReplicaFetchRequest_wf :: "replica_fetch_request \<Rightarrow> bool" where
  "ReplicaFetchRequest_wf m \<longleftrightarrow>
     string_ok (rfq_topic m) \<and> is_i32 (rfq_partition m) \<and> 0 \<le> rfq_partition m \<and>
     is_i32 (rfq_follower_id m) \<and> is_i64 (rfq_leader_epoch m) \<and> is_i64 (rfq_fetch_offset m)"

interpretation replica_fetch_request: wire_codec ReplicaFetchRequest_Encode ReplicaFetchRequest_Decode ReplicaFetchRequest_wf
proof unfold_locales
  fix m assume "ReplicaFetchRequest_wf m"
  then show "parses ReplicaFetchRequest_Decode (wire_of ReplicaFetchRequest_Encode m) m"
    unfolding ReplicaFetchRequest_Decode_def
    by (cases m) (auto simp: wire_of_def ReplicaFetchRequest_Encode_def ReplicaFetchRequest_wf_def
        intro!: parses_steps parses_chain)
qed (simp_all add: wire_of_def ReplicaFetchRequest_Encode_def)


record replica_fetch_response =
  rfr_header :: response_header
  rfr_leader_epoch :: int
  rfr_high_water_mark :: int
  rfr_log_start_offset :: int
  rfr_base_offset :: int
  rfr_record_count :: u32
  rfr_records :: bytes

definition ReplicaFetchResponse_Encode :: "replica_fetch_response \<Rightarrow> byte_buffer \<Rightarrow> byte_buffer" where
  "ReplicaFetchResponse_Encode m w =
     (let w = ResponseHeader_Encode (rfr_header m) w;
          w = PutI64 (rfr_leader_epoch m) w;
          w = PutI64 (rfr_high_water_mark m) w;
          w = PutI64 (rfr_log_start_offset m) w;
          w = PutI64 (rfr_base_offset m) w;
          w = PutU32 (rfr_record_count m) w;
          w = PutU32 (word_of_nat (length (rfr_records m))) w;
          w = PutRaw (rfr_records m) w
      in w)"

definition ReplicaFetchResponse_Decode :: "replica_fetch_response get" where
  "ReplicaFetchResponse_Decode =
     get_bind ResponseHeader_Decode (\<lambda>header.
     get_bind GetI64 (\<lambda>leader_epoch.
     get_bind GetI64 (\<lambda>high_water_mark.
     get_bind GetI64 (\<lambda>log_start_offset.
     get_bind GetI64 (\<lambda>base_offset.
     get_bind GetU32 (\<lambda>record_count.
     get_bind GetU32 (\<lambda>records_len.
     get_bind (get_need (unat records_len)) (\<lambda>_.
     get_bind (get_tail (unat records_len)) (\<lambda>records.
     get_return \<lparr>rfr_header = header, rfr_leader_epoch = leader_epoch,
       rfr_high_water_mark = high_water_mark, rfr_log_start_offset = log_start_offset,
       rfr_base_offset = base_offset, rfr_record_count = record_count, rfr_records = records\<rparr>)))))))))"

definition ReplicaFetchResponse_wf :: "replica_fetch_response \<Rightarrow> bool" where
  "ReplicaFetchResponse_wf m \<longleftrightarrow>
     header_ok (rfr_header m) \<and> is_i64 (rfr_leader_epoch m) \<and> is_i64 (rfr_high_water_mark m) \<and>
     is_i64 (rfr_log_start_offset m) \<and> is_i64 (rfr_base_offset m) \<and> trailing_ok (rfr_records m)"

interpretation replica_fetch_response: message_codec ReplicaFetchResponse_Encode ReplicaFetchResponse_Decode ReplicaFetchResponse_wf
proof unfold_locales
  fix m assume "ReplicaFetchResponse_wf m"
  then show "parses_end ReplicaFetchResponse_Decode (wire_of ReplicaFetchResponse_Encode m) m"
    unfolding ReplicaFetchResponse_Decode_def
    by (cases m) (auto simp: wire_of_def ReplicaFetchResponse_Encode_def ReplicaFetchResponse_wf_def trailing_length
        intro!: parses_end_steps parses_chain)
qed (simp_all add: wire_of_def ReplicaFetchResponse_Encode_def)


record replica_ack_request =
  raq_topic :: string
  raq_partition :: int
  raq_follower_id :: int
  raq_leader_epoch :: int
  raq_log_end_offset :: int
  raq_flushed_offset :: int

definition ReplicaAckRequest_Encode :: "replica_ack_request \<Rightarrow> byte_buffer \<Rightarrow> byte_buffer" where
  "ReplicaAckRequest_Encode m w =
     (let w = PutString (raq_topic m) w;
          w = PutI32 (raq_partition m) w;
          w = PutI32 (raq_follower_id m) w;
          w = PutI64 (raq_leader_epoch m) w;
          w = PutI64 (raq_log_end_offset m) w;
          w = PutI64 (raq_flushed_offset m) w
      in w)"

definition ReplicaAckRequest_Decode :: "replica_ack_request get" where
  "ReplicaAckRequest_Decode =
     get_bind GetString (\<lambda>topic.
     get_bind GetI32 (\<lambda>partition_raw.
     get_bind GetI32 (\<lambda>follower_id.
     get_bind (get_guard (0 \<le> partition_raw)) (\<lambda>_.
     get_bind GetI64 (\<lambda>leader_epoch.
     get_bind GetI64 (\<lambda>log_end_offset.
     get_bind GetI64 (\<lambda>flushed_offset.
     get_return \<lparr>raq_topic = topic, raq_partition = partition_raw,
       raq_follower_id = follower_id, raq_leader_epoch = leader_epoch,
       raq_log_end_offset = log_end_offset, raq_flushed_offset = flushed_offset\<rparr>)))))))"

definition ReplicaAckRequest_wf :: "replica_ack_request \<Rightarrow> bool" where
  "ReplicaAckRequest_wf m \<longleftrightarrow>
     string_ok (raq_topic m) \<and> is_i32 (raq_partition m) \<and> 0 \<le> raq_partition m \<and>
     is_i32 (raq_follower_id m) \<and> is_i64 (raq_leader_epoch m) \<and>
     is_i64 (raq_log_end_offset m) \<and> is_i64 (raq_flushed_offset m)"

interpretation replica_ack_request: wire_codec ReplicaAckRequest_Encode ReplicaAckRequest_Decode ReplicaAckRequest_wf
proof unfold_locales
  fix m assume "ReplicaAckRequest_wf m"
  then show "parses ReplicaAckRequest_Decode (wire_of ReplicaAckRequest_Encode m) m"
    unfolding ReplicaAckRequest_Decode_def
    by (cases m) (auto simp: wire_of_def ReplicaAckRequest_Encode_def ReplicaAckRequest_wf_def
        intro!: parses_steps parses_chain)
qed (simp_all add: wire_of_def ReplicaAckRequest_Encode_def)


record replica_ack_response =
  rar_header :: response_header
  rar_high_water_mark :: int

definition ReplicaAckResponse_Encode :: "replica_ack_response \<Rightarrow> byte_buffer \<Rightarrow> byte_buffer" where
  "ReplicaAckResponse_Encode m w =
     (let w = ResponseHeader_Encode (rar_header m) w;
          w = PutI64 (rar_high_water_mark m) w
      in w)"

definition ReplicaAckResponse_Decode :: "replica_ack_response get" where
  "ReplicaAckResponse_Decode =
     get_bind ResponseHeader_Decode (\<lambda>header.
     get_bind GetI64 (\<lambda>high_water_mark.
     get_return \<lparr>rar_header = header, rar_high_water_mark = high_water_mark\<rparr>))"

definition ReplicaAckResponse_wf :: "replica_ack_response \<Rightarrow> bool" where
  "ReplicaAckResponse_wf m \<longleftrightarrow>
     header_ok (rar_header m) \<and> is_i64 (rar_high_water_mark m)"

interpretation replica_ack_response: wire_codec ReplicaAckResponse_Encode ReplicaAckResponse_Decode ReplicaAckResponse_wf
proof unfold_locales
  fix m assume "ReplicaAckResponse_wf m"
  then show "parses ReplicaAckResponse_Decode (wire_of ReplicaAckResponse_Encode m) m"
    unfolding ReplicaAckResponse_Decode_def
    by (cases m) (auto simp: wire_of_def ReplicaAckResponse_Encode_def ReplicaAckResponse_wf_def
        intro!: parses_steps parses_chain)
qed (simp_all add: wire_of_def ReplicaAckResponse_Encode_def)


end
