(* ===== verification/PL_Messages_Props.thy ===== *)
theory PL_Messages_Props
  imports PL_Messages_Group
begin

text \<open>
  What the message codecs guarantee together: every request and every response survives encoding
  and decoding, and a decoder run on arbitrary bytes never moves its cursor outside them.
\<close>

section \<open>Decoders on arbitrary input\<close>

definition get_safe :: "'a get \<Rightarrow> bool" where
  "get_safe g \<longleftrightarrow>
     (\<forall>r. rd_pos r \<le> length (rd_data r) \<longrightarrow>
        rd_data (snd (g r)) = rd_data r \<and> rd_pos r \<le> rd_pos (snd (g r)) \<and>
        rd_pos (snd (g r)) \<le> length (rd_data r))"

lemma get_safe_return: "get_safe (get_return x)"
  by (simp add: get_safe_def get_return_def)

lemma get_safe_bind: "get_safe g \<Longrightarrow> (\<And>x. get_safe (f x)) \<Longrightarrow> get_safe (get_bind g f)"
  unfolding get_safe_def get_bind_def
  by (auto split: prod.split option.split) (metis order_trans snd_conv)+

lemma get_safe_prims:
  "get_safe GetU8" "get_safe GetU16" "get_safe GetU32" "get_safe GetU64" "get_safe (take_view n)"
  "get_safe GetRemaining" "get_safe (get_guard b)" "get_safe (get_need n)" "get_safe (Fail :: 'a get)"
  by (auto simp: get_safe_def GetU8_def GetU16_def GetU32_def GetU64_def take_view_def GetRemaining_def
      get_guard_def get_need_def Fail_def Remaining_def advance_def)

lemma get_safe_ints: "get_safe GetI16" "get_safe GetI32" "get_safe GetI64" "get_safe GetBool"
  unfolding GetI16_def GetI32_def GetI64_def GetBool_def
  by (intro get_safe_bind get_safe_prims get_safe_return)+

lemma get_safe_strings: "get_safe GetString" "get_safe (get_tail n)"
  unfolding GetString_def GetStringView_def get_tail_def
  by (intro get_safe_bind get_safe_prims get_safe_return)+

lemma get_safe_list: "get_safe g \<Longrightarrow> get_safe (get_list n g)"
  by (induction n) (auto intro!: get_safe_bind get_safe_return)

lemma get_safe_GetArrayLen: "get_safe (GetArrayLen n)"
  unfolding GetArrayLen_def by (intro get_safe_bind) (simp_all add: get_safe_prims get_safe_return)

lemma get_safe_array: "get_safe g \<Longrightarrow> get_safe (get_array m g)"
proof -
  assume "get_safe g"
  then have "get_safe (get_bind (GetArrayLen k) (\<lambda>count. get_list count g))" for k
    by (intro get_safe_bind get_safe_GetArrayLen get_safe_list)
  then show ?thesis by (simp add: get_safe_def get_array_def)
qed

lemmas get_safe_rules = get_safe_bind get_safe_return get_safe_prims get_safe_ints get_safe_strings
  get_safe_array

lemma get_safe_parts:
  "get_safe ResponseHeader_Decode" "get_safe DecodeBrokerIds" "get_safe BrokerEndpoint_Decode"
  "get_safe PartitionMetadata_Decode" "get_safe TopicMetadata_Decode" "get_safe TopicSummary_Decode"
  "get_safe TopicPartition_Decode"
  unfolding ResponseHeader_Decode_def DecodeBrokerIds_def BrokerEndpoint_Decode_def
    PartitionMetadata_Decode_def TopicMetadata_Decode_def TopicSummary_Decode_def TopicPartition_Decode_def
  by (intro get_safe_rules)+

definition in_bounds :: "'a get \<Rightarrow> bytes \<Rightarrow> bool" where
  "in_bounds g input \<longleftrightarrow>
     (case g (PayloadReader input) of (res, r) \<Rightarrow> rd_data r = input \<and> rd_pos r \<le> length input)"

lemma get_safe_start: "get_safe g \<Longrightarrow> in_bounds g input"
  unfolding get_safe_def in_bounds_def PayloadReader_def case_prod_beta
  by (drule spec [of _ "\<lparr>rd_data = input, rd_pos = 0, rd_failed = False\<rparr>"]) simp

lemma get_safe_requests:
  "get_safe ProduceRequest_Decode" "get_safe FetchRequest_Decode" "get_safe ListOffsetsRequest_Decode"
  "get_safe CreateTopicRequest_Decode" "get_safe DeleteTopicRequest_Decode" "get_safe MetadataRequest_Decode"
  "get_safe JoinGroupRequest_Decode" "get_safe HeartbeatRequest_Decode" "get_safe LeaveGroupRequest_Decode"
  "get_safe CommitOffsetRequest_Decode" "get_safe FetchOffsetRequest_Decode"
  "get_safe ReplicateRequest_Decode" "get_safe ReplicaFetchRequest_Decode" "get_safe ReplicaAckRequest_Decode"
  unfolding ProduceRequest_Decode_def FetchRequest_Decode_def ListOffsetsRequest_Decode_def
    CreateTopicRequest_Decode_def DeleteTopicRequest_Decode_def MetadataRequest_Decode_def
    JoinGroupRequest_Decode_def HeartbeatRequest_Decode_def LeaveGroupRequest_Decode_def
    CommitOffsetRequest_Decode_def FetchOffsetRequest_Decode_def ReplicateRequest_Decode_def
    ReplicaFetchRequest_Decode_def ReplicaAckRequest_Decode_def
  by (intro get_safe_rules)+

lemma array_count_bounded:
  assumes "GetArrayLen (ElementBudget r m) r = (Some n, r')" "0 < m"
  shows "n * m \<le> Remaining r" "n \<le> kMaxArrayElements"
proof -
  have n: "n \<le> ElementBudget r m"
    using assms(1)
    by (auto simp: GetArrayLen_def get_bind_def get_return_def Fail_def split: prod.splits option.splits if_splits)
  then have "n \<le> Remaining r div m" using assms(2)
    by (auto simp: ElementBudget_def Let_def split: if_splits)
  then show "n * m \<le> Remaining r"
    using assms(2) by (simp add: less_eq_div_iff_mult_less_eq)
  show "n \<le> kMaxArrayElements" using n by (auto simp: ElementBudget_def Let_def split: if_splits)
qed

text \<open>
  The data-plane requests consume the rest of the payload without looking at it, so bytes behind
  the declared records are accepted.
\<close>

lemma parses_end_tail_more: "length b = n \<Longrightarrow> parses_end (get_tail n) (b @ junk) b"
  using parses_end_tail [of "b @ junk" "length (b @ junk)"]
  by (auto simp: parses_end_def get_tail_def get_bind_def get_return_def GetRemaining_def
      simp flip: rd_rest_def)

lemma ProduceRequest_ignores_trailing_bytes:
  assumes "ProduceRequest_wf m"
  shows "case ProduceRequest_Decode (PayloadReader (Readable (ProduceRequest_Encode m EmptyBuffer) @ junk)) of
    (res, r) \<Rightarrow> res = Some m \<and> Complete r"
proof -
  let ?w = "Readable (ProduceRequest_Encode m EmptyBuffer) @ junk"
  have "parses_end ProduceRequest_Decode ?w m"
    using assms unfolding ProduceRequest_Decode_def
    by (cases m) (auto simp: ProduceRequest_Encode_def ProduceRequest_wf_def trailing_length
        intro!: parses_end_need parses_end_guard parses_end_last [OF parses_end_tail_more]
          parses_end_return_eq parses_chain)
  then have "ProduceRequest_Decode (PayloadReader ?w) = (Some m, advance (length ?w) (PayloadReader ?w))"
    by (simp add: parses_end_def PayloadReader_def rd_rest_def)
  then show ?thesis by (simp add: Complete_def PayloadReader_def advance_def Remaining_def)
qed

text \<open>A string of 64 KiB is written behind a length of zero.\<close>

lemma PutString_truncates_length:
  assumes "length s = 2 ^ 16"
  shows "Readable (PutString s EmptyBuffer) = StoreLe16 0 @ AsBytes s"
proof -
  have "(word_of_nat (2 ^ 16) :: u16) = 0" by simp
  then show ?thesis using assms by (simp only: Readable_Put buf_ok_Empty string_bytes_def append_Nil)
qed

section \<open>Properties\<close>

definition survives :: "('a \<Rightarrow> byte_buffer \<Rightarrow> byte_buffer) \<Rightarrow> 'a get \<Rightarrow> 'a \<Rightarrow> bool" where
  "survives enc dec x \<longleftrightarrow>
     (case dec (PayloadReader (Readable (enc x EmptyBuffer))) of (res, r) \<Rightarrow> res = Some x \<and> Complete r)"

text \<open>
  C26: every request survives the wire.  For each of the fourteen request types with fields, a
  request whose fields fit their wire widths (strings below 64 KiB, non-negative partitions,
  bounded arrays) is decoded to itself and the payload is consumed completely.
\<close>

theorem requests_roundtrip:
  assumes "ProduceRequest_wf a" "FetchRequest_wf b" "ListOffsetsRequest_wf c" "CreateTopicRequest_wf d"
    "DeleteTopicRequest_wf e" "MetadataRequest_wf f" "JoinGroupRequest_wf g" "HeartbeatRequest_wf h"
    "LeaveGroupRequest_wf i" "CommitOffsetRequest_wf j" "FetchOffsetRequest_wf k" "ReplicateRequest_wf l"
    "ReplicaFetchRequest_wf m" "ReplicaAckRequest_wf n"
  shows "survives ProduceRequest_Encode ProduceRequest_Decode a \<and>
    survives FetchRequest_Encode FetchRequest_Decode b \<and>
    survives ListOffsetsRequest_Encode ListOffsetsRequest_Decode c \<and>
    survives CreateTopicRequest_Encode CreateTopicRequest_Decode d \<and>
    survives DeleteTopicRequest_Encode DeleteTopicRequest_Decode e \<and>
    survives MetadataRequest_Encode MetadataRequest_Decode f \<and>
    survives JoinGroupRequest_Encode JoinGroupRequest_Decode g \<and>
    survives HeartbeatRequest_Encode HeartbeatRequest_Decode h \<and>
    survives LeaveGroupRequest_Encode LeaveGroupRequest_Decode i \<and>
    survives CommitOffsetRequest_Encode CommitOffsetRequest_Decode j \<and>
    survives FetchOffsetRequest_Encode FetchOffsetRequest_Decode k \<and>
    survives ReplicateRequest_Encode ReplicateRequest_Decode l \<and>
    survives ReplicaFetchRequest_Encode ReplicaFetchRequest_Decode m \<and>
    survives ReplicaAckRequest_Encode ReplicaAckRequest_Decode n"
  using produce_request.roundtrip [OF assms(1)] fetch_request.whole.roundtrip [OF assms(2)]
    list_offsets_request.whole.roundtrip [OF assms(3)] create_topic_request.whole.roundtrip [OF assms(4)]
    delete_topic_request.whole.roundtrip [OF assms(5)] metadata_request.whole.roundtrip [OF assms(6)]
    join_group_request.whole.roundtrip [OF assms(7)] heartbeat_request.whole.roundtrip [OF assms(8)]
    leave_group_request.whole.roundtrip [OF assms(9)] commit_offset_request.whole.roundtrip [OF assms(10)]
    fetch_offset_request.whole.roundtrip [OF assms(11)] replicate_request.roundtrip [OF assms(12)]
    replica_fetch_request.whole.roundtrip [OF assms(13)] replica_ack_request.whole.roundtrip [OF assms(14)]
  unfolding survives_def case_prod_beta by blast

theorem requests_roundtrip_witness:
  "survives ProduceRequest_Encode ProduceRequest_Decode
     \<lparr>preq_topic = ''t'', preq_partition = 0, preq_acks = AckQuorum, preq_timeout_ms = 5000,
      preq_record_count = 1, preq_records = [1, 2, 3]\<rparr>"
  using requests_roundtrip [of
      "\<lparr>preq_topic = ''t'', preq_partition = 0, preq_acks = AckQuorum, preq_timeout_ms = 5000,
        preq_record_count = 1, preq_records = [1, 2, 3]\<rparr>"
      "\<lparr>freq_topic = ''t'', freq_partition = 0, freq_fetch_offset = 0, freq_max_bytes = 1, freq_min_bytes = 1,
        freq_max_wait_ms = 0, freq_isolation = ReadReplicated\<rparr>"
      "\<lparr>lreq_topic = ''t'', lreq_partition = 0, lreq_timestamp = - 1\<rparr>"
      "\<lparr>ctq_topic = ''t'', ctq_partitions = 1, ctq_replication_factor = 1, ctq_retention_ms = - 1,
        ctq_segment_bytes = - 1, ctq_compression = CompressionNone, ctq_from_controller = False\<rparr>"
      "\<lparr>dtq_topic = ''t''\<rparr>" "\<lparr>mdq_topics = [''t'']\<rparr>"
      "\<lparr>jgq_group_id = ''g'', jgq_member_id = [], jgq_topics = [''t''], jgq_session_timeout_ms = 10000,
        jgq_strategy = StrategyRange\<rparr>"
      "\<lparr>hbq_group_id = ''g'', hbq_member_id = ''m'', hbq_generation = 1\<rparr>"
      "\<lparr>lgq_group_id = ''g'', lgq_member_id = ''m''\<rparr>"
      "\<lparr>coq_group_id = ''g'', coq_member_id = ''m'', coq_generation = 1, coq_topic = ''t'', coq_partition = 0,
        coq_offset = 7, coq_metadata = []\<rparr>"
      "\<lparr>foq_group_id = ''g'', foq_topic = ''t'', foq_partition = 0\<rparr>"
      "\<lparr>rpq_topic = ''t'', rpq_partition = 0, rpq_leader_id = 1, rpq_leader_epoch = 1, rpq_base_offset = 0,
        rpq_prev_offset = - 1, rpq_leader_high_water_mark = 0, rpq_leader_log_start_offset = 0,
        rpq_record_count = 0, rpq_records = []\<rparr>"
      "\<lparr>rfq_topic = ''t'', rfq_partition = 0, rfq_follower_id = 2, rfq_leader_epoch = 1, rfq_fetch_offset = 0,
        rfq_max_bytes = 1\<rparr>"
      "\<lparr>raq_topic = ''t'', raq_partition = 0, raq_follower_id = 2, raq_leader_epoch = 1, raq_log_end_offset = 0,
        raq_flushed_offset = 0\<rparr>"]
  by (simp add: ProduceRequest_wf_def FetchRequest_wf_def ListOffsetsRequest_wf_def CreateTopicRequest_wf_def
      DeleteTopicRequest_wf_def MetadataRequest_wf_def JoinGroupRequest_wf_def HeartbeatRequest_wf_def
      LeaveGroupRequest_wf_def CommitOffsetRequest_wf_def FetchOffsetRequest_wf_def ReplicateRequest_wf_def
      ReplicaFetchRequest_wf_def ReplicaAckRequest_wf_def string_ok_def strings_ok_def trailing_ok_def
      is_i16_def is_i32_def is_i64_def kMaxArrayElements_def)

text \<open>
  C30: every response survives the wire, including the nested arrays of the metadata response
  and the trailing record bytes of the fetch responses.
\<close>

theorem responses_roundtrip:
  assumes "ProduceResponse_wf a" "FetchResponse_wf b" "ListOffsetsResponse_wf c" "CreateTopicResponse_wf d"
    "DeleteTopicResponse_wf e" "MetadataResponse_wf f" "ListTopicsResponse_wf g" "HealthResponse_wf h"
    "DescribeClusterResponse_wf i" "JoinGroupResponse_wf j" "HeartbeatResponse_wf k" "LeaveGroupResponse_wf l"
    "CommitOffsetResponse_wf m" "FetchOffsetResponse_wf n" "ReplicateResponse_wf p"
    "ReplicaFetchResponse_wf q" "ReplicaAckResponse_wf r"
  shows "survives ProduceResponse_Encode ProduceResponse_Decode a \<and>
    survives FetchResponse_Encode FetchResponse_Decode b \<and>
    survives ListOffsetsResponse_Encode ListOffsetsResponse_Decode c \<and>
    survives CreateTopicResponse_Encode CreateTopicResponse_Decode d \<and>
    survives DeleteTopicResponse_Encode DeleteTopicResponse_Decode e \<and>
    survives MetadataResponse_Encode MetadataResponse_Decode f \<and>
    survives ListTopicsResponse_Encode ListTopicsResponse_Decode g \<and>
    survives HealthResponse_Encode HealthResponse_Decode h \<and>
    survives DescribeClusterResponse_Encode DescribeClusterResponse_Decode i \<and>
    survives JoinGroupResponse_Encode JoinGroupResponse_Decode j \<and>
    survives HeartbeatResponse_Encode HeartbeatResponse_Decode k \<and>
    survives LeaveGroupResponse_Encode LeaveGroupResponse_Decode l \<and>
    survives CommitOffsetResponse_Encode CommitOffsetResponse_Decode m \<and>
    survives FetchOffsetResponse_Encode FetchOffsetResponse_Decode n \<and>
    survives ReplicateResponse_Encode ReplicateResponse_Decode p \<and>
    survives ReplicaFetchResponse_Encode ReplicaFetchResponse_Decode q \<and>
    survives ReplicaAckResponse_Encode ReplicaAckResponse_Decode r"
  using produce_response.whole.roundtrip [OF assms(1)] fetch_response.roundtrip [OF assms(2)]
    list_offsets_response.whole.roundtrip [OF assms(3)] create_topic_response.whole.roundtrip [OF assms(4)]
    delete_topic_response.whole.roundtrip [OF assms(5)] metadata_response.whole.roundtrip [OF assms(6)]
    list_topics_response.whole.roundtrip [OF assms(7)] health_response.whole.roundtrip [OF assms(8)]
    describe_cluster_response.whole.roundtrip [OF assms(9)] join_group_response.whole.roundtrip [OF assms(10)]
    heartbeat_response.whole.roundtrip [OF assms(11)] leave_group_response.whole.roundtrip [OF assms(12)]
    commit_offset_response.whole.roundtrip [OF assms(13)] fetch_offset_response.whole.roundtrip [OF assms(14)]
    replicate_response.whole.roundtrip [OF assms(15)] replica_fetch_response.roundtrip [OF assms(16)]
    replica_ack_response.whole.roundtrip [OF assms(17)]
  unfolding survives_def case_prod_beta by blast

definition sample_metadata :: metadata_response where
  "sample_metadata =
     \<lparr>mdr_header = ok_header, mdr_controller_id = 1,
      mdr_brokers = [\<lparr>ep_id = 1, ep_host = ''h'', ep_port = 9092\<rparr>],
      mdr_topics = [\<lparr>tm_name = ''t'', tm_partitions =
        [\<lparr>pm_index = 0, pm_leader = 1, pm_leader_epoch = 1, pm_replicas = [1, 2], pm_in_sync_replicas = [1]\<rparr>]\<rparr>]\<rparr>"

theorem responses_roundtrip_witness:
  "survives MetadataResponse_Encode MetadataResponse_Decode sample_metadata"
  using responses_roundtrip [of
      "\<lparr>prsp_header = ok_header, prsp_base_offset = 0, prsp_last_offset = 0, prsp_append_time = 0, prsp_high_water_mark = 0\<rparr>"
      "\<lparr>frsp_header = ok_header, frsp_high_water_mark = 0, frsp_log_start_offset = 0, frsp_base_offset = 0,
        frsp_record_count = 0, frsp_records = []\<rparr>"
      "\<lparr>lrsp_header = ok_header, lrsp_offset = 0, lrsp_timestamp = 0\<rparr>"
      "\<lparr>ctr_header = ok_header, ctr_partitions = 1\<rparr>" "\<lparr>dtr_header = ok_header\<rparr>" sample_metadata
      "\<lparr>ltr_header = ok_header, ltr_topics = []\<rparr>"
      "\<lparr>hr_header = ok_header, hr_broker_id = 1, hr_uptime_ms = 0, hr_hosted_partitions = 0,
        hr_leader_partitions = 0, hr_ready = True, hr_version = ''1''\<rparr>"
      "\<lparr>dcr_header = ok_header, dcr_controller_id = 1, dcr_brokers = [], dcr_live_brokers = [1]\<rparr>"
      "\<lparr>jgr_header = ok_header, jgr_generation = 1, jgr_member_id = ''m'', jgr_leader_id = ''m'', jgr_assignment = []\<rparr>"
      "\<lparr>hbr_header = ok_header, hbr_generation = 1, hbr_rejoin_required = False\<rparr>" "\<lparr>lgr_header = ok_header\<rparr>"
      "\<lparr>cor_header = ok_header\<rparr>" "\<lparr>for_header = ok_header, for_offset = 0, for_metadata = []\<rparr>"
      "\<lparr>rpr_header = ok_header, rpr_follower_id = 2, rpr_log_end_offset = 0, rpr_flushed_offset = 0, rpr_leader_epoch = 1\<rparr>"
      "\<lparr>rfr_header = ok_header, rfr_leader_epoch = 1, rfr_high_water_mark = 0, rfr_log_start_offset = 0,
        rfr_base_offset = 0, rfr_record_count = 0, rfr_records = []\<rparr>"
      "\<lparr>rar_header = ok_header, rar_high_water_mark = 0\<rparr>"]
  by (simp add: ProduceResponse_wf_def FetchResponse_wf_def ListOffsetsResponse_wf_def CreateTopicResponse_wf_def
      DeleteTopicResponse_wf_def MetadataResponse_wf_def ListTopicsResponse_wf_def HealthResponse_wf_def
      DescribeClusterResponse_wf_def JoinGroupResponse_wf_def HeartbeatResponse_wf_def LeaveGroupResponse_wf_def
      CommitOffsetResponse_wf_def FetchOffsetResponse_wf_def ReplicateResponse_wf_def ReplicaFetchResponse_wf_def
      ReplicaAckResponse_wf_def sample_metadata_def header_ok_def ok_header_def string_ok_def trailing_ok_def
      is_i32_def is_i64_def ids_ok_def endpoints_ok_def BrokerEndpoint_wf_def partitions_ok_def
      PartitionMetadata_wf_def topics_ok_def TopicMetadata_wf_def summaries_ok_def assignment_ok_def
      kMaxArrayElements_def)



end
