(* ===== verification/PL_Record.thy ===== *)
theory PL_Record
  imports PL_Codec PL_Crc32c
begin

text \<open>
  The record format (\<open>include/pulselog/protocol/record.h\<close>, \<open>src/protocol/record.cc\<close>), the same on
  the wire and on disk: encoding, in-place rewriting of the header, parsing with and without the
  checksum, and the iterator over a run of records.  A \<open>ByteSpan\<close> into the parsed data is the
  pair of its start and its length, so that a span reaching outside the data is visible.
\<close>

section \<open>Definitions\<close>

definition kRecordFixedPrefix :: nat where "kRecordFixedPrefix = 25"
definition kMaxRecordBytes :: nat where "kMaxRecordBytes = 16 * 1024 * 1024"

type_synonym span = "nat \<times> nat"

definition span_bytes :: "bytes \<Rightarrow> span \<Rightarrow> bytes" where
  "span_bytes data s = slice (fst s) (snd s) data"

definition span_ok :: "bytes \<Rightarrow> span \<Rightarrow> bool" where
  "span_ok data s \<longleftrightarrow> fst s + snd s \<le> length data"

record record_view =
  rv_offset :: offset
  rv_timestamp :: timestamp_ms
  rv_attributes :: u8
  rv_key_is_null :: bool
  rv_key :: span
  rv_value :: span

definition tombstone :: "record_view \<Rightarrow> bool" where
  "tombstone v \<longleftrightarrow> rv_attributes v AND 4 \<noteq> 0"

function VarUIntSize :: "u64 \<Rightarrow> nat" where
  "VarUIntSize v = (if v \<ge> 0x80 then VarUIntSize (drop_bit 7 v) + 1 else 1)"
  by auto
termination
proof (relation "measure unat")
  fix v :: u64
  assume v: "0x80 \<le> v"
  have "unat (drop_bit 7 v) = drop_bit 7 (unat v)" by (rule unat_drop_bit_eq)
  then have "unat (drop_bit 7 v) = unat v div 128" by (simp only: drop_bit_eq_div) simp
  moreover have "128 \<le> unat v" using v by (simp add: word_le_nat_alt)
  ultimately show "(drop_bit 7 v, v) \<in> measure unat" by simp
qed simp

declare VarUIntSize.simps [simp del]

text \<open>
  \<open>ReadVarUInt\<close>: the value and the number of bytes consumed; \<open>None\<close> is the return value zero.
\<close>

function read_varuint_loop :: "bytes \<Rightarrow> nat \<Rightarrow> nat \<Rightarrow> u64 \<Rightarrow> nat \<Rightarrow> (u64 \<times> nat) option" where
  "read_varuint_loop data pos shift value consumed =
     (if shift \<le> 63 \<and> pos + consumed < length data
      then let b = data ! (pos + consumed);
               value' = value OR push_bit shift (ucast (b AND 0x7F))
           in if b AND 0x80 = 0 then Some (value', consumed + 1)
              else read_varuint_loop data pos (shift + 7) value' (consumed + 1)
      else None)"
  by pat_completeness auto
termination by (relation "measure (\<lambda>(data, pos, shift, value, consumed). 70 - shift)") auto

declare read_varuint_loop.simps [simp del]

definition ReadVarUInt :: "bytes \<Rightarrow> nat \<Rightarrow> (u64 \<times> nat) option" where
  "ReadVarUInt data pos = read_varuint_loop data pos 0 0 0"

definition key_field :: "bool \<Rightarrow> nat \<Rightarrow> u64" where
  "key_field key_is_null key_len = (if key_is_null then 0 else word_of_nat (key_len + 1))"

definition EncodedRecordSize :: "bool \<Rightarrow> nat \<Rightarrow> nat \<Rightarrow> nat" where
  "EncodedRecordSize key_is_null key_len value_len =
     kRecordFixedPrefix + VarUIntSize (key_field key_is_null key_len) +
     VarUIntSize (word_of_nat value_len) + (if key_is_null then 0 else key_len) + value_len"

text \<open>The stores of \<open>AppendRecord\<close> through \<open>dst\<close>, in the order of the source.\<close>

definition store_record ::
  "nat \<Rightarrow> offset \<Rightarrow> timestamp_ms \<Rightarrow> u8 \<Rightarrow> bool \<Rightarrow> bytes \<Rightarrow> bytes \<Rightarrow> bytes \<Rightarrow> bytes" where
  "store_record tot offset timestamp attributes key_is_null key value dst =
     (let dst = overwrite 0 (StoreLe32 (word_of_nat (tot - 4))) dst;
          dst = overwrite 8 (StoreLeI64 offset) dst;
          dst = overwrite 16 (StoreLeI64 timestamp) dst;
          dst = overwrite 24 [attributes] dst;
          kf = varuint_bytes (key_field key_is_null (length key));
          dst = overwrite 25 kf dst;
          pos = 25 + length kf;
          vf = varuint_bytes (word_of_nat (length value));
          dst = overwrite pos vf dst;
          pos = pos + length vf;
          (dst, pos) = (if \<not> key_is_null \<and> key \<noteq> [] then (overwrite pos key dst, pos + length key)
                        else (dst, pos));
          dst = (if value \<noteq> [] then overwrite pos value dst else dst);
          crc = Crc32c (slice 8 (tot - 8) dst)
      in overwrite 4 (StoreLe32 crc) dst)"

definition AppendRecord ::
  "byte_buffer \<Rightarrow> offset \<Rightarrow> timestamp_ms \<Rightarrow> u8 \<Rightarrow> bool \<Rightarrow> bytes \<Rightarrow> bytes \<Rightarrow> nat \<times> byte_buffer" where
  "AppendRecord out offset timestamp attributes key_is_null key value =
     (let total = EncodedRecordSize key_is_null (length key) (length value);
          out = EnsureWritable total out;
          out = with_write_ptr (store_record total offset timestamp attributes key_is_null key value) out
      in (total, Commit total out))"

text \<open>Rewriting in place, on the bytes of one record.\<close>

definition RewriteRecordOffset :: "bytes \<Rightarrow> offset \<Rightarrow> bytes" where
  "RewriteRecordOffset rec offset =
     (let rec = overwrite 8 (StoreLeI64 offset) rec;
          crc = Crc32c (drop 8 rec)
      in overwrite 4 (StoreLe32 crc) rec)"

definition RewriteRecordHeader :: "bytes \<Rightarrow> offset \<Rightarrow> timestamp_ms \<Rightarrow> bytes" where
  "RewriteRecordHeader rec offset timestamp =
     (let rec = overwrite 8 (StoreLeI64 offset) rec;
          rec = overwrite 16 (StoreLeI64 timestamp) rec;
          crc = Crc32c (drop 8 rec)
      in overwrite 4 (StoreLe32 crc) rec)"

definition PeekRecordTimestamp :: "bytes \<Rightarrow> timestamp_ms" where
  "PeekRecordTimestamp rec = LoadLeI64 (drop 16 rec)"

definition PeekRecordLength :: "bytes \<Rightarrow> nat \<Rightarrow> nat option" where
  "PeekRecordLength data pos =
     (if pos + 4 > length data then None else Some (unat (LoadLe32 (drop pos data))))"

text \<open>
  The variable part of \<open>ParseRecord\<close>: the two varints and the spans of key and value, every sum
  of which the source computes in 64 bits.
\<close>

definition parse_spans :: "bytes \<Rightarrow> nat \<Rightarrow> nat \<Rightarrow> (bool \<times> span \<times> span) result" where
  "parse_spans data cursor0 record_end =
     (case ReadVarUInt data cursor0 of
        None \<Rightarrow> Inl kCorruption
      | Some (kf, consumed1) \<Rightarrow>
          (case ReadVarUInt data (cursor0 + consumed1) of
             None \<Rightarrow> Inl kCorruption
           | Some (vl, consumed2) \<Rightarrow>
               let cursor = cursor0 + consumed1 + consumed2;
                   is_null = (kf = 0);
                   key_len = (if is_null then 0 else unat (kf - 1));
                   value_len = unat vl
               in if wrap64 (cursor + key_len) > record_end \<or>
                     wrap64 (cursor + key_len + value_len) > record_end then Inl kCorruption
                  else if wrap64 (cursor + key_len + value_len) \<noteq> record_end then Inl kCorruption
                  else Inr (is_null, (if is_null then (0, 0) else (cursor, key_len)),
                            (wrap64 (cursor + key_len), value_len))))"

definition ParseRecord :: "bytes \<Rightarrow> nat \<Rightarrow> bool \<Rightarrow> (record_view \<times> nat) result" where
  "ParseRecord data pos verify_crc =
     (if pos + kRecordFixedPrefix > length data then Inl kOutOfRange
      else let len = unat (LoadLe32 (drop pos data)) in
      if len < kRecordFixedPrefix - 4 then Inl kCorruption
      else if len > kMaxRecordBytes then Inl kCorruption
      else let total = len + 4 in
      if pos + total > length data then Inl kOutOfRange
      else let base = drop pos data in
      if verify_crc \<and> LoadLe32 (drop 4 base) \<noteq> Crc32c (slice 8 (total - 8) base) then Inl kCorruption
      else case parse_spans data (pos + kRecordFixedPrefix) (pos + total) of
        Inl e \<Rightarrow> Inl e
      | Inr (is_null, key, val) \<Rightarrow>
          Inr (\<lparr>rv_offset = LoadLeI64 (drop 8 base), rv_timestamp = LoadLeI64 (drop 16 base),
                rv_attributes = base ! 24, rv_key_is_null = is_null, rv_key = key, rv_value = val\<rparr>,
               pos + total))"

record record_iterator =
  ri_data :: bytes
  ri_verify_crc :: bool
  ri_pos :: nat
  ri_records_read :: nat
  ri_status :: error_code

definition RecordIterator :: "bytes \<Rightarrow> bool \<Rightarrow> record_iterator" where
  "RecordIterator data verify_crc =
     \<lparr>ri_data = data, ri_verify_crc = verify_crc, ri_pos = 0, ri_records_read = 0, ri_status = kOk\<rparr>"

definition Iterator_Next :: "record_iterator \<Rightarrow> record_view option \<times> record_iterator" where
  "Iterator_Next it =
     (if ri_status it \<noteq> kOk then (None, it)
      else if ri_pos it \<ge> length (ri_data it) then (None, it)
      else case ParseRecord (ri_data it) (ri_pos it) (ri_verify_crc it) of
        Inl e \<Rightarrow> (None, it\<lparr>ri_status := e\<rparr>)
      | Inr (v, nxt) \<Rightarrow> (Some v, it\<lparr>ri_pos := nxt, ri_records_read := ri_records_read it + 1\<rparr>))"

section \<open>Variable-length fields\<close>

lemma VarUIntSize_eq: "VarUIntSize v = length (varuint_bytes v)"
proof (induction v rule: VarUIntSize.induct)
  case (1 v)
  then show ?case
    by (subst VarUIntSize.simps, subst varuint_bytes.simps) simp
qed

text \<open>The record reader and the payload reader decode the same integers.\<close>

lemma read_varuint_loop_reader:
  "read_varuint_loop data pos shift acc consumed =
     (case varuint_loop shift acc \<lparr>rd_data = data, rd_pos = pos + consumed, rd_failed = False\<rparr> of
        (Some v, r) \<Rightarrow> Some (v, rd_pos r - pos) | (None, r) \<Rightarrow> None)"
proof (induction data pos shift acc consumed rule: read_varuint_loop.induct)
  case (1 data pos shift acc consumed)
  let ?r = "\<lparr>rd_data = data, rd_pos = pos + consumed, rd_failed = False\<rparr>"
  show ?case
  proof (cases "shift \<le> 63 \<and> pos + consumed < length data")
    case True
    have "advance 1 ?r = \<lparr>rd_data = data, rd_pos = pos + (consumed + 1), rd_failed = False\<rparr>"
      by (simp add: advance_def)
    with True 1 show ?thesis
      by (simp add: read_varuint_loop.simps [of data pos shift acc consumed]
          varuint_loop.simps [of shift acc ?r] Remaining_def Let_def)
  next
    case False
    then show ?thesis
      by (auto simp: read_varuint_loop.simps [of data pos shift acc consumed]
          varuint_loop.simps [of shift acc ?r] Remaining_def Fail_def)
  qed
qed

lemma ReadVarUInt_encoded:
  assumes "drop pos data = varuint_bytes v @ rest"
  shows "ReadVarUInt data pos = Some (v, length (varuint_bytes v))"
proof -
  let ?r = "\<lparr>rd_data = data, rd_pos = pos, rd_failed = False\<rparr>"
  have "GetVarUInt ?r = (Some v, advance (length (varuint_bytes v)) ?r)"
    using parsesD [OF parses_VarUInt, of ?r v rest] assms by (simp add: rd_rest_def)
  then show ?thesis
    by (simp add: ReadVarUInt_def read_varuint_loop_reader GetVarUInt_def advance_def)
qed

lemma read_varuint_loop_bound:
  "read_varuint_loop data pos shift acc consumed = Some (v, n) \<Longrightarrow> pos + n \<le> length data \<and> consumed < n"
proof (induction data pos shift acc consumed rule: read_varuint_loop.induct)
  case (1 data pos shift acc consumed)
  let ?b = "data ! (pos + consumed)"
  let ?acc = "acc OR push_bit shift (ucast (?b AND 0x7F))"
  show ?case
  proof (cases "shift \<le> 63 \<and> pos + consumed < length data \<and> ?b AND 0x80 \<noteq> 0")
    case True
    with "1.prems" have "read_varuint_loop data pos (shift + 7) ?acc (consumed + 1) = Some (v, n)"
      by (subst (asm) read_varuint_loop.simps) (simp add: Let_def)
    with "1.IH" [OF _ refl refl] True show ?thesis by fastforce
  next
    case False
    with "1.prems" show ?thesis
      by (subst (asm) read_varuint_loop.simps) (auto simp: Let_def split: if_splits)
  qed
qed

lemma ReadVarUInt_bound: "ReadVarUInt data pos = Some (v, n) \<Longrightarrow> pos + n \<le> length data \<and> 0 < n"
  using read_varuint_loop_bound unfolding ReadVarUInt_def by blast

section \<open>The encoding\<close>

definition record_body :: "offset \<Rightarrow> timestamp_ms \<Rightarrow> u8 \<Rightarrow> bool \<Rightarrow> bytes \<Rightarrow> bytes \<Rightarrow> bytes" where
  "record_body off ts attr key_is_null key val =
     StoreLeI64 off @ StoreLeI64 ts @ [attr] @ varuint_bytes (key_field key_is_null (length key)) @
     varuint_bytes (word_of_nat (length val)) @ (if key_is_null then [] else key) @ val"

definition record_wire :: "offset \<Rightarrow> timestamp_ms \<Rightarrow> u8 \<Rightarrow> bool \<Rightarrow> bytes \<Rightarrow> bytes \<Rightarrow> bytes" where
  "record_wire off ts attr key_is_null key val =
     (let body = record_body off ts attr key_is_null key val
      in StoreLe32 (word_of_nat (length body + 4)) @ StoreLe32 (Crc32c body) @ body)"

lemma EncodedRecordSize_body:
  "EncodedRecordSize key_is_null (length key) (length val) =
     length (record_body off ts attr key_is_null key val) + 8"
  by (simp add: EncodedRecordSize_def record_body_def VarUIntSize_eq kRecordFixedPrefix_def)

lemma length_record_wire:
  "length (record_wire off ts attr key_is_null key val) =
     EncodedRecordSize key_is_null (length key) (length val)"
  by (simp add: record_wire_def Let_def EncodedRecordSize_body [of _ _ _ off ts attr])

lemma store_record_wire:
  assumes "tot = EncodedRecordSize key_is_null (length key) (length val)" "tot \<le> length dst"
  shows "store_record tot off ts attr key_is_null key val dst =
    record_wire off ts attr key_is_null key val @ drop tot dst"
proof -
  let ?body = "record_body off ts attr key_is_null key val"
  have tot: "tot = length ?body + 8" using assms(1) by (simp add: EncodedRecordSize_body)
  define d0 d1 d2 where "d0 = take 4 dst" and "d1 = take 4 (drop 4 dst)" and "d2 = drop 8 dst"
  have "take 4 dst @ take 4 (drop 4 dst) @ drop 4 (drop 4 dst) = dst"
    by (simp only: append_take_drop_id)
  then have dst: "dst = d0 @ d1 @ d2" and len: "length d0 = 4" "length d1 = 4"
    using assms(2) tot by (simp_all add: d0_def d1_def d2_def)
  have d2: "drop tot dst = drop (length ?body) d2"
    using dst len tot by simp
  show ?thesis
    unfolding store_record_def Let_def dst d2 [unfolded dst]
    by (simp add: overwrite_skip overwrite_front overwrite_Suc_Cons len record_wire_def Let_def
        slice_def tot record_body_def add_ac)
qed

lemma AppendRecord_Readable:
  assumes "buf_ok out"
  shows "buf_ok (snd (AppendRecord out off ts attr key_is_null key val))"
    and "Readable (snd (AppendRecord out off ts attr key_is_null key val)) =
      Readable out @ record_wire off ts attr key_is_null key val"
    and "fst (AppendRecord out off ts attr key_is_null key val) =
      length (record_wire off ts attr key_is_null key val)"
proof -
  let ?n = "EncodedRecordSize key_is_null (length key) (length val)"
  let ?b = "EnsureWritable ?n out"
  let ?w = "record_wire off ts attr key_is_null key val"
  have w: "?n \<le> WritableBytes ?b" using WritableBytes_EnsureWritable [OF assms] .
  then have "with_write_ptr (store_record ?n off ts attr key_is_null key val) ?b = poke 0 ?w ?b"
    using assms by (intro with_write_ptr_poke)
      (simp_all add: store_record_wire WritableBytes_def length_record_wire)
  then have eq: "snd (AppendRecord out off ts attr key_is_null key val) = Commit (length ?w) (poke 0 ?w ?b)"
    by (simp add: AppendRecord_def Let_def length_record_wire)
  show "buf_ok (snd (AppendRecord out off ts attr key_is_null key val))"
    and "Readable (snd (AppendRecord out off ts attr key_is_null key val)) = Readable out @ ?w"
    unfolding eq using poke_Commit [of ?b ?w] w assms
    by (simp_all add: length_record_wire Readable_EnsureWritable)
  show "fst (AppendRecord out off ts attr key_is_null key val) = length ?w"
    by (simp add: AppendRecord_def Let_def length_record_wire)
qed

section \<open>Parsing an encoded record\<close>

definition record_fits :: "bool \<Rightarrow> bytes \<Rightarrow> bytes \<Rightarrow> bool" where
  "record_fits key_is_null key val \<longleftrightarrow>
     EncodedRecordSize key_is_null (length key) (length val) \<le> kMaxRecordBytes + 4"

lemma record_fits_lengths:
  assumes "record_fits key_is_null key val"
  shows "key_is_null \<or> length key < 2 ^ 24" "length val < 2 ^ 24"
    and "unat (word_of_nat (length val) :: u64) = length val"
    and "\<not> key_is_null \<Longrightarrow> unat (key_field key_is_null (length key) - 1) = length key"
    and "key_field key_is_null (length key) = 0 \<longleftrightarrow> key_is_null"
proof -
  have "1 \<le> VarUIntSize v" for v by (subst VarUIntSize.simps) simp
  then have "(if key_is_null then 0 else length key) + length val + 25 \<le> kMaxRecordBytes + 4"
    using assms unfolding record_fits_def EncodedRecordSize_def kRecordFixedPrefix_def by linarith
  then show k: "key_is_null \<or> length key < 2 ^ 24" and v: "length val < 2 ^ 24"
    by (auto simp: kMaxRecordBytes_def split: if_splits)
  show "unat (word_of_nat (length val) :: u64) = length val"
    using v by (simp add: unsigned_of_nat take_bit_nat_eq_self)
  have "unat (word_of_nat (length key + 1) :: u64) = length key + 1" if "\<not> key_is_null"
    by (rule unat_of_length64) (use k that in simp)
  then have "(word_of_nat (length key + 1) :: u64) \<noteq> 0" if "\<not> key_is_null"
    using that by (metis add_is_0 unsigned_0 one_neq_zero)
  then show "key_field key_is_null (length key) = 0 \<longleftrightarrow> key_is_null"
    by (auto simp: key_field_def simp del: of_nat_add of_nat_Suc)
  show "unat (key_field key_is_null (length key) - 1) = length key" if "\<not> key_is_null"
    using that k unat_of_length64 [of "length key"] by (simp add: key_field_def)
qed

lemma ParseRecord_wire:
  assumes d: "drop pos data = record_wire off ts attr key_is_null key val @ rest"
    and fits: "record_fits key_is_null key val" and i: "is_i64 off" "is_i64 ts"
    and n: "length data < 2 ^ 64"
  defines "c \<equiv> pos + 25 + length (varuint_bytes (key_field key_is_null (length key))) +
      length (varuint_bytes (word_of_nat (length val)))"
  shows "ParseRecord data pos verify_crc =
    Inr (\<lparr>rv_offset = off, rv_timestamp = ts, rv_attributes = attr, rv_key_is_null = key_is_null,
          rv_key = (if key_is_null then (0, 0) else (c, length key)),
          rv_value = (c + (if key_is_null then 0 else length key), length val)\<rparr>,
        pos + EncodedRecordSize key_is_null (length key) (length val))"
proof -
  let ?body = "record_body off ts attr key_is_null key val"
  let ?kf = "varuint_bytes (key_field key_is_null (length key))"
  let ?vf = "varuint_bytes (word_of_nat (length val))"
  let ?k = "if key_is_null then [] else key"
  let ?tot = "EncodedRecordSize key_is_null (length key) (length val)"
  have tot: "?tot = length ?body + 8" by (rule EncodedRecordSize_body)
  have base: "drop pos data = StoreLe32 (word_of_nat (length ?body + 4)) @ StoreLe32 (Crc32c ?body) @ ?body @ rest"
    using d by (simp add: record_wire_def Let_def)
  have pos: "pos + (length ?body + 8) \<le> length data"
    using arg_cong [OF base, of length] by simp
  have "length ?body + 4 < 2 ^ 32"
    using fits tot by (simp add: record_fits_def kMaxRecordBytes_def)
  then have len: "unat (LoadLe32 (drop pos data)) = length ?body + 4"
    unfolding base using unat_of_length32 [of "length ?body + 4"] by simp
  have body: "length ?body = 17 + length ?kf + length ?vf + length ?k + length val"
    by (simp add: record_body_def)
  have d25: "drop (pos + 25) data = ?kf @ ?vf @ ?k @ val @ rest"
    using arg_cong [OF base, of "drop 25"] by (simp add: record_body_def add.commute)
  have "drop (pos + 25 + length ?kf) data = drop (length ?kf) (drop (pos + 25) data)"
    by (simp add: add.commute)
  then have d25': "drop (pos + 25 + length ?kf) data = ?vf @ ?k @ val @ rest"
    unfolding d25 by simp
  have r1: "ReadVarUInt data (pos + 25) = Some (key_field key_is_null (length key), length ?kf)"
    using d25 by (rule ReadVarUInt_encoded)
  have r2: "ReadVarUInt data (pos + 25 + length ?kf) = Some (word_of_nat (length val), length ?vf)"
    using d25' by (rule ReadVarUInt_encoded)
  note l = record_fits_lengths [OF fits]
  have kl: "(if key_field key_is_null (length key) = 0 then 0
      else unat (key_field key_is_null (length key) - 1)) = (if key_is_null then 0 else length key)"
    using l(4,5) by auto
  have crc: "LoadLe32 (drop 4 (drop pos data)) = Crc32c (slice 8 (length ?body + 4 + 4 - 8) (drop pos data))"
    unfolding base by (simp add: slice_def)
  have flds: "LoadLeI64 (drop 8 (drop pos data)) = off" "LoadLeI64 (drop 16 (drop pos data)) = ts"
    "drop pos data ! 24 = attr"
    unfolding base using i by (simp_all add: record_body_def nth_append)
  have len2: "length ?body + 4 \<le> kMaxRecordBytes" "21 \<le> length ?body + 4"
    using fits tot body by (simp_all add: record_fits_def)
  define klen where "klen = (if key_is_null then 0 else length key)"
  have ce: "c + klen + length val = pos + (length ?body + 8)"
    using body by (simp add: c_def klen_def)
  then have wr: "wrap64 (c + klen) = c + klen" "wrap64 (c + klen + length val) = pos + (length ?body + 8)"
    using pos n by (simp_all only: wrap64_small)
  have e8: "pos + (length ?body + 4 + 4) = pos + (length ?body + 8)" by simp
  have spans: "parse_spans data (pos + 25) (pos + (length ?body + 8)) =
    Inr (key_is_null, (if key_is_null then (0, 0) else (c, length key)), (c + klen, length val))"
    unfolding parse_spans_def Let_def r1 r2 option.case prod.case kl l(3)
    unfolding c_def [symmetric] klen_def [symmetric]
    using wr ce l(5) by (simp add: klen_def)
  show ?thesis
    unfolding ParseRecord_def Let_def len kRecordFixedPrefix_def e8 spans crc flds sum.case prod.case
    using pos len2 tot by (simp add: klen_def)
qed

section \<open>Framing, checksums and rewriting\<close>

text \<open>
  What the storage layer relies on without looking at keys and values: the length prefix frames
  the record, the checksum covers everything behind it, and the offset has its fixed place.
\<close>

definition framed :: "bytes \<Rightarrow> bool" where
  "framed r \<longleftrightarrow> 25 \<le> length r \<and> unat (LoadLe32 r) + 4 = length r \<and> length r \<le> kMaxRecordBytes + 4"

definition crc_good :: "bytes \<Rightarrow> bool" where
  "crc_good r \<longleftrightarrow> LoadLe32 (drop 4 r) = Crc32c (drop 8 r)"

definition rec_offset :: "bytes \<Rightarrow> offset" where
  "rec_offset r = LoadLeI64 (drop 8 r)"

lemma LoadLe_take:
  "4 \<le> n \<Longrightarrow> LoadLe32 (take n r) = LoadLe32 r" "8 \<le> n \<Longrightarrow> LoadLe64 (take n r) = LoadLe64 r"
  "8 \<le> n \<Longrightarrow> LoadLeI64 (take n r) = LoadLeI64 r"
  by (simp_all add: LoadLe32_def LoadLe64_def LoadLeI64_def min_def)

lemma LoadLe_append:
  "4 \<le> length a \<Longrightarrow> LoadLe32 (a @ b) = LoadLe32 a" "8 \<le> length a \<Longrightarrow> LoadLe64 (a @ b) = LoadLe64 a"
  "8 \<le> length a \<Longrightarrow> LoadLeI64 (a @ b) = LoadLeI64 a"
  by (simp_all add: LoadLe32_def LoadLe64_def LoadLeI64_def)

lemma ParseRecord_framed:
  assumes "ParseRecord data pos verify_crc = Inr (v, nxt)"
  shows "pos < nxt" "nxt \<le> length data" "framed (slice pos (nxt - pos) data)"
    and "verify_crc \<Longrightarrow> crc_good (slice pos (nxt - pos) data)"
    and "rec_offset (slice pos (nxt - pos) data) = rv_offset v"
    and "PeekRecordTimestamp (slice pos (nxt - pos) data) = rv_timestamp v"
proof -
  let ?len = "unat (LoadLe32 (drop pos data))"
  have nxt: "nxt = pos + (?len + 4)" and b: "pos + (?len + 4) \<le> length data" "21 \<le> ?len" "?len \<le> kMaxRecordBytes"
    and crc: "verify_crc \<Longrightarrow> LoadLe32 (drop 4 (drop pos data)) = Crc32c (slice 8 (?len + 4 - 8) (drop pos data))"
    and off: "rv_offset v = LoadLeI64 (drop 8 (drop pos data))"
    and ts: "rv_timestamp v = LoadLeI64 (drop 16 (drop pos data))"
    using assms
    by (auto simp: ParseRecord_def Let_def kRecordFixedPrefix_def split: if_splits sum.splits)
  show "pos < nxt" "nxt \<le> length data" using nxt b by simp_all
  show "framed (slice pos (nxt - pos) data)"
    using nxt b by (simp add: framed_def slice_def LoadLe_take)
  show "verify_crc \<Longrightarrow> crc_good (slice pos (nxt - pos) data)"
    using nxt b crc by (simp add: crc_good_def slice_def drop_take LoadLe_take)
  show "rec_offset (slice pos (nxt - pos) data) = rv_offset v"
    using nxt b off by (simp add: rec_offset_def slice_def drop_take LoadLe_take)
  show "PeekRecordTimestamp (slice pos (nxt - pos) data) = rv_timestamp v"
    using nxt b ts by (simp add: PeekRecordTimestamp_def slice_def drop_take LoadLe_take)
qed

lemma ParseRecord_Inr_iff:
  "ParseRecord data pos verify_crc = Inr (v, nxt) \<longleftrightarrow>
     (let len = unat (LoadLe32 (drop pos data)) in
      21 \<le> len \<and> len \<le> kMaxRecordBytes \<and> pos + (len + 4) \<le> length data \<and> nxt = pos + (len + 4) \<and>
      (verify_crc \<longrightarrow> LoadLe32 (drop 4 (drop pos data)) = Crc32c (slice 8 (len - 4) (drop pos data))) \<and>
      parse_spans data (pos + 25) nxt = Inr (rv_key_is_null v, rv_key v, rv_value v) \<and>
      rv_offset v = LoadLeI64 (drop 8 (drop pos data)) \<and>
      rv_timestamp v = LoadLeI64 (drop 16 (drop pos data)) \<and> rv_attributes v = drop pos data ! 24)"
  by (cases v) (auto simp: ParseRecord_def Let_def kRecordFixedPrefix_def split: sum.splits)

lemma Rewrite_shape:
  assumes "25 \<le> length r"
  shows "RewriteRecordHeader r off ts =
    take 4 r @ StoreLe32 (Crc32c (StoreLeI64 off @ StoreLeI64 ts @ drop 24 r)) @
    StoreLeI64 off @ StoreLeI64 ts @ drop 24 r"
proof -
  define d0 d1 d2 where "d0 = take 4 r" and "d1 = take 4 (drop 4 r)" and "d2 = drop 8 r"
  have "take 4 r @ take 4 (drop 4 r) @ drop 4 (drop 4 r) = r"
    by (simp only: append_take_drop_id)
  then have r: "r = d0 @ d1 @ d2" and len: "length d0 = 4" "length d1 = 4"
    using assms by (simp_all add: d0_def d1_def d2_def)
  show ?thesis
    unfolding RewriteRecordHeader_def Let_def r
    by (simp add: overwrite_skip overwrite_front len)
qed

lemma Rewrite_props:
  assumes "framed r" "is_i64 off" "is_i64 ts"
  shows "framed (RewriteRecordHeader r off ts)" "crc_good (RewriteRecordHeader r off ts)"
    "rec_offset (RewriteRecordHeader r off ts) = off"
    "PeekRecordTimestamp (RewriteRecordHeader r off ts) = ts"
    "length (RewriteRecordHeader r off ts) = length r"
    "drop 24 (RewriteRecordHeader r off ts) = drop 24 r"
    "LoadLe32 (RewriteRecordHeader r off ts) = LoadLe32 r"
proof -
  have 25: "25 \<le> length r" using assms(1) by (simp add: framed_def)
  note shape = Rewrite_shape [OF 25]
  show len: "length (RewriteRecordHeader r off ts) = length r"
    using 25 by (simp add: shape)
  have "LoadLe32 (take 4 r @ xs) = LoadLe32 r" for xs
    using 25 by (simp add: LoadLe32_def)
  then show l: "LoadLe32 (RewriteRecordHeader r off ts) = LoadLe32 r"
    by (simp only: shape)
  show "framed (RewriteRecordHeader r off ts)"
    using assms(1) len l by (simp add: framed_def)
  have d4: "drop 4 (take 4 r) = []" "length (take 4 r) = 4" using 25 by simp_all
  show "crc_good (RewriteRecordHeader r off ts)" "rec_offset (RewriteRecordHeader r off ts) = off"
    "PeekRecordTimestamp (RewriteRecordHeader r off ts) = ts"
    "drop 24 (RewriteRecordHeader r off ts) = drop 24 r"
    using assms(2,3) d4
    by (simp_all add: shape crc_good_def rec_offset_def PeekRecordTimestamp_def)
qed

lemma read_varuint_loop_cong:
  assumes "length d = length d'" "\<And>i. pos \<le> i \<Longrightarrow> i < length d \<Longrightarrow> d ! i = d' ! i"
  shows "read_varuint_loop d pos shift acc consumed = read_varuint_loop d' pos shift acc consumed"
  using assms
proof (induction d pos shift acc consumed rule: read_varuint_loop.induct)
  case (1 d pos shift acc consumed)
  then show ?case
    by (subst (1 2) read_varuint_loop.simps) (auto simp: Let_def)
qed

lemma ReadVarUInt_cong:
  "length d = length d' \<Longrightarrow> (\<And>i. pos \<le> i \<Longrightarrow> i < length d \<Longrightarrow> d ! i = d' ! i) \<Longrightarrow>
   ReadVarUInt d pos = ReadVarUInt d' pos"
  unfolding ReadVarUInt_def by (rule read_varuint_loop_cong)

lemma parse_spans_cong:
  assumes "length d = length d'" "\<And>i. cursor \<le> i \<Longrightarrow> i < length d \<Longrightarrow> d ! i = d' ! i"
  shows "parse_spans d cursor e = parse_spans d' cursor e"
proof -
  have "ReadVarUInt d q = ReadVarUInt d' q" if "cursor \<le> q" for q
    using assms that by (intro ReadVarUInt_cong) simp_all
  then show ?thesis by (auto simp: parse_spans_def split: option.split)
qed

end
