(* ===== verification/PL_Record_Props.thy ===== *)
theory PL_Record_Props
  imports PL_Record
begin

text \<open>
  Correctness of the record format: round trip, rewriting, iteration over a run of records,
  detection of damage, and the bounds of the spans a parse returns.
\<close>

section \<open>Rewriting keeps keys and values\<close>

lemma overwrite_slice_nth:
  "pos + length r \<le> length data \<Longrightarrow> length r' = length r \<Longrightarrow> drop k r' = drop k (slice pos (length r) data) \<Longrightarrow>
   pos + k \<le> i \<Longrightarrow> i < length data \<Longrightarrow> overwrite pos r' data ! i = data ! i"
proof -
  assume a: "pos + length r \<le> length data" "length r' = length r"
    "drop k r' = drop k (slice pos (length r) data)" "pos + k \<le> i" "i < length data"
  show ?thesis
  proof (cases "i < pos + length r")
    case True
    have "r' ! (i - pos) = drop k r' ! (i - pos - k)"
      using a(1,2,4,5) True by simp
    also have "\<dots> = slice pos (length r) data ! (i - pos)"
      unfolding a(3) using a(1,2,4,5) True by simp
    also have "\<dots> = data ! i" using a True by (simp add: slice_def)
    finally show ?thesis using a True by (simp add: nth_overwrite)
  next
    case False
    with a show ?thesis by (simp add: nth_overwrite)
  qed
qed

lemma ParseRecord_rewrite:
  assumes p: "ParseRecord data pos verify_crc = Inr (v, nxt)" and i: "is_i64 off" "is_i64 ts"
  defines "data' \<equiv> overwrite pos (RewriteRecordHeader (slice pos (nxt - pos) data) off ts) data"
  shows "ParseRecord data' pos True = Inr (v\<lparr>rv_offset := off, rv_timestamp := ts\<rparr>, nxt)"
proof -
  let ?r = "slice pos (nxt - pos) data"
  let ?r' = "RewriteRecordHeader ?r off ts"
  note fr = ParseRecord_framed [OF p]
  note rw = Rewrite_props [OF fr(3) i]
  have lr: "length ?r = nxt - pos" using fr(1,2) by simp
  have len: "length data' = length data"
    unfolding data'_def using fr(1,2) rw(5) lr by (intro length_overwrite) simp
  have nth: "data' ! j = data ! j" if "pos + 24 \<le> j" "j < length data" for j
    unfolding data'_def using that fr(1,2) rw(5,6) lr
    by (intro overwrite_slice_nth [where k = 24 and r = ?r]) simp_all
  have base: "drop pos data' = ?r' @ drop nxt data"
    unfolding data'_def using fr(1,2) rw(5) lr by (simp add: overwrite_def)
  have rv: "ReadVarUInt data' q = ReadVarUInt data q" if "pos + 25 \<le> q" for q
    using that len nth by (intro ReadVarUInt_cong) simp_all
  have n24: "drop pos data' ! 24 = drop pos data ! 24"
    using nth [of "pos + 24"] fr(1,2,3) lr len by (auto simp: framed_def)
  have r25: "25 \<le> length ?r'" using rw(1) by (simp add: framed_def)
  have l0: "LoadLe32 (drop pos data') = LoadLe32 (drop pos data)"
    using rw(7) r25 lr fr(3) unfolding base
    by (simp add: LoadLe_append) (simp add: slice_def LoadLe_take framed_def)
  have crc: "LoadLe32 (drop 4 (drop pos data')) = Crc32c (slice 8 (nxt - pos - 8) (drop pos data'))"
    using rw(2,5) r25 lr unfolding base crc_good_def
    by (auto simp: LoadLe_append slice_def [of 8])
  have fl: "LoadLeI64 (drop 8 (drop pos data')) = off" "LoadLeI64 (drop 16 (drop pos data')) = ts"
    using rw(3,4) r25 unfolding base rec_offset_def PeekRecordTimestamp_def
    by (simp_all add: LoadLe_append)
  have nx: "unat (LoadLe32 (drop pos data)) + 4 = nxt - pos"
    using fr(3) lr by (auto simp: framed_def slice_def LoadLe_take)
  have ps: "parse_spans data' (pos + 25) nxt = parse_spans data (pos + 25) nxt"
    using len nth by (intro parse_spans_cong) simp_all
  have "nxt - pos - 8 = unat (LoadLe32 (drop pos data)) - 4" using nx by arith
  with crc have crc': "LoadLe32 (drop 4 (drop pos data')) =
      Crc32c (slice 8 (unat (LoadLe32 (drop pos data)) - 4) (drop pos data'))"
    by (simp only:)
  show ?thesis
    using p crc' fl n24 ps unfolding ParseRecord_Inr_iff Let_def len l0 by auto
qed

section \<open>Iteration\<close>

text \<open>Collecting what the iterator returns, as the loops over \<open>Next\<close> do.\<close>

fun iterate :: "nat \<Rightarrow> record_iterator \<Rightarrow> record_view list \<times> record_iterator" where
  "iterate 0 it = ([], it)"
| "iterate (Suc n) it =
     (case Iterator_Next it of
        (None, it') \<Rightarrow> ([], it')
      | (Some v, it') \<Rightarrow> let (vs, it'') = iterate n it' in (v # vs, it''))"

datatype plain_record = Plain (pl_off: offset) (pl_ts: timestamp_ms) (pl_attr: u8) (pl_key: "bytes option") (pl_val: bytes)

definition plain_wire :: "plain_record \<Rightarrow> bytes" where
  "plain_wire r = record_wire (pl_off r) (pl_ts r) (pl_attr r) (pl_key r = None)
     (case pl_key r of None \<Rightarrow> [] | Some k \<Rightarrow> k) (pl_val r)"

definition plain_ok :: "plain_record \<Rightarrow> bool" where
  "plain_ok r \<longleftrightarrow> is_i64 (pl_off r) \<and> is_i64 (pl_ts r) \<and>
     record_fits (pl_key r = None) (case pl_key r of None \<Rightarrow> [] | Some k \<Rightarrow> k) (pl_val r)"

definition view_record :: "bytes \<Rightarrow> record_view \<Rightarrow> plain_record" where
  "view_record data v =
     Plain (rv_offset v) (rv_timestamp v) (rv_attributes v)
       (if rv_key_is_null v then None else Some (span_bytes data (rv_key v))) (span_bytes data (rv_value v))"

lemma drop_wire_fields:
  assumes "drop pos data = record_wire off ts attr n key val @ rest"
  shows "drop (pos + 25 + length (varuint_bytes (key_field n (length key))) +
      length (varuint_bytes (word_of_nat (length val)))) data = (if n then [] else key) @ val @ rest"
proof -
  let ?k = "varuint_bytes (key_field n (length key))" and ?v = "varuint_bytes (word_of_nat (length val))"
  have "drop (pos + 25 + length ?k + length ?v) data = drop (25 + length ?k + length ?v) (drop pos data)"
    by (simp add: ac_simps)
  also have "\<dots> = drop (25 + length ?k + length ?v) (take 25 (drop pos data) @ ?k @ ?v @ (if n then [] else key) @ val @ rest)"
    unfolding assms by (simp add: record_wire_def record_body_def Let_def)
  also have "\<dots> = (if n then [] else key) @ val @ rest"
    unfolding assms by (simp add: record_wire_def record_body_def Let_def)
  finally show ?thesis .
qed

lemma ParseRecord_plain:
  assumes d: "drop pos data = plain_wire r @ rest" and ok: "plain_ok r" and n: "length data < 2 ^ 64"
  shows "\<exists>v. ParseRecord data pos verify_crc = Inr (v, pos + length (plain_wire r)) \<and>
    view_record data v = r \<and> span_ok data (rv_key v) \<and> span_ok data (rv_value v)"
proof -
  define n where "n \<longleftrightarrow> pl_key r = None"
  define key where "key = (case pl_key r of None \<Rightarrow> [] | Some k \<Rightarrow> k)"
  let ?c = "pos + 25 + length (varuint_bytes (key_field n (length key))) +
      length (varuint_bytes (word_of_nat (length (pl_val r))))"
  have w: "plain_wire r = record_wire (pl_off r) (pl_ts r) (pl_attr r) n key (pl_val r)"
    by (simp add: plain_wire_def n_def key_def)
  have dc: "drop ?c data = (if n then [] else key) @ pl_val r @ rest"
    using d unfolding w by (rule drop_wire_fields)
  note p = ParseRecord_wire [OF d [unfolded w], of verify_crc]
  have k: "slice ?c (length key) data = key" if "\<not> n"
    using dc that by (simp add: slice_def)
  have "drop (?c + length (if n then [] else key)) data = drop (length (if n then [] else key)) (drop ?c data)"
    by (simp only: drop_drop add.commute)
  then have v: "slice (?c + (if n then 0 else length key)) (length (pl_val r)) data = pl_val r"
    unfolding dc by (cases n) (simp_all add: slice_def)
  have "pos + length (plain_wire r) \<le> length data"
    using arg_cong [OF d, of length]
    by (cases "pos \<le> length data") (auto simp: w record_wire_def Let_def)
  then have le: "?c + length ((if n then [] else key) @ pl_val r) \<le> length data"
    by (simp add: w record_wire_def Let_def record_body_def)
  have r: "r = Plain (pl_off r) (pl_ts r) (pl_attr r) (if n then None else Some key) (pl_val r)"
    by (cases r) (auto simp: n_def key_def)
  have fits: "record_fits n key (pl_val r)" "is_i64 (pl_off r)" "is_i64 (pl_ts r)"
    using ok by (simp_all add: plain_ok_def n_def key_def)
  show ?thesis
    unfolding p [OF fits n] w length_record_wire
    using le k v by (subst r) (auto simp: view_record_def span_bytes_def span_ok_def)
qed

lemma iterate_records:
  assumes "list_all plain_ok rs" "length data < 2 ^ 64" "drop (ri_pos it) data = concat (map plain_wire rs)"
    "ri_data it = data" "ri_status it = kOk"
  shows "\<exists>vs. iterate (Suc (length rs)) it =
      (vs, it\<lparr>ri_pos := ri_pos it + length (concat (map plain_wire rs)),
              ri_records_read := ri_records_read it + length rs\<rparr>) \<and> map (view_record data) vs = rs"
  using assms(1,3-)
proof (induction rs arbitrary: it)
  case Nil
  then have "length data \<le> ri_pos it" by simp
  then show ?case using Nil by (simp add: Iterator_Next_def)
next
  case (Cons r rs)
  let ?rest = "concat (map plain_wire rs)"
  let ?it = "it\<lparr>ri_pos := ri_pos it + length (plain_wire r), ri_records_read := ri_records_read it + 1\<rparr>"
  have ne: "plain_wire r \<noteq> []" by (simp add: plain_wire_def record_wire_def Let_def flip: length_0_conv)
  have d: "drop (ri_pos it) data = plain_wire r @ ?rest" using Cons.prems by simp
  then have lt: "ri_pos it < length data" using ne by (metis append_is_Nil_conv drop_eq_Nil not_le)
  obtain v where v: "ParseRecord data (ri_pos it) (ri_verify_crc it) = Inr (v, ri_pos it + length (plain_wire r))"
      "view_record data v = r"
    using ParseRecord_plain [OF d] Cons.prems assms(2) by auto
  then have n: "Iterator_Next it = (Some v, ?it)"
    using lt Cons.prems by (simp add: Iterator_Next_def)
  have "drop (ri_pos ?it) data = ?rest"
    using arg_cong [OF d, of "drop (length (plain_wire r))"] by (simp add: add.commute)
  then obtain vs where "iterate (Suc (length rs)) ?it =
      (vs, ?it\<lparr>ri_pos := ri_pos ?it + length ?rest, ri_records_read := ri_records_read ?it + length rs\<rparr>)"
      "map (view_record data) vs = rs"
    using Cons.IH [of ?it] Cons.prems by auto
  then show ?case using n v(2) by (simp add: add.assoc)
qed

section \<open>Damage\<close>

lemma body_burst_rejected:
  assumes p: "ParseRecord (pre @ h @ b1 @ x @ b2 @ post) (length pre) True = Inr (v, length pre + length (h @ b1 @ x @ b2))"
    and h: "length h = 8" and xy: "length x = length y" "length x \<le> 4" "x \<noteq> y"
  shows "ParseRecord (pre @ h @ b1 @ y @ b2 @ post) (length pre) True = Inl kCorruption"
proof -
  let ?len = "unat (LoadLe32 h)"
  have ld: "LoadLe32 (h @ zs) = LoadLe32 h" "LoadLe32 (drop 4 h @ zs) = LoadLe32 (drop 4 h)" for zs
    using h by (simp_all add: LoadLe_append)
  have l: "21 \<le> ?len" "?len \<le> kMaxRecordBytes" "?len + 4 = length (h @ b1 @ x @ b2)"
    and crc: "LoadLe32 (drop 4 h) = Crc32c (b1 @ x @ b2)"
    using p h by (auto simp: ParseRecord_Inr_iff Let_def ld slice_def)
  have "Crc32c (b1 @ x @ b2) \<noteq> Crc32c (b1 @ y @ b2)"
    using xy by (rule Crc32c_burst)
  then show ?thesis
    using l crc h xy(1)
    by (simp add: ParseRecord_def Let_def kRecordFixedPrefix_def ld slice_def)
qed

section \<open>Spans\<close>

text \<open>No sum wraps when the declared lengths are below \<open>2 ^ 62\<close>.\<close>

definition lengths_sane :: "record_view \<Rightarrow> bool" where
  "lengths_sane v \<longleftrightarrow> snd (rv_key v) < 2 ^ 62 \<and> snd (rv_value v) < 2 ^ 62"

lemma parse_spans_bounds:
  assumes "parse_spans data c e = Inr (n, k, w)" "length data < 2 ^ 62" "snd k < 2 ^ 62" "snd w < 2 ^ 62"
  shows "fst w + snd w = e" and "n \<or> fst k + snd k = fst w" and "n \<Longrightarrow> k = (0, 0)"
proof -
  obtain kf c1 vl c2 where r: "ReadVarUInt data c = Some (kf, c1)" "ReadVarUInt data (c + c1) = Some (vl, c2)"
    using assms(1) by (auto simp: parse_spans_def split: option.splits)
  have b: "c + c1 + c2 < 2 ^ 62" using ReadVarUInt_bound [OF r(2)] assms(2) by simp
  have "wrap64 m = m" if "m < 3 * 2 ^ 62" for m :: nat using that by simp
  then show "fst w + snd w = e" and "n \<or> fst k + snd k = fst w" and "n \<Longrightarrow> k = (0, 0)"
    using assms(1,3,4) b r by (auto simp: parse_spans_def Let_def split: if_splits)
qed

lemma ParseRecord_spans:
  assumes p: "ParseRecord data pos verify_crc = Inr (v, nxt)" and l: "length data < 2 ^ 62" "lengths_sane v"
  shows "span_ok data (rv_key v)" "span_ok data (rv_value v)" "fst (rv_value v) + snd (rv_value v) = nxt"
    "rv_key_is_null v \<or> fst (rv_key v) + snd (rv_key v) = fst (rv_value v)"
    "rv_key_is_null v \<Longrightarrow> rv_key v = (0, 0)"
proof -
  have "parse_spans data (pos + 25) nxt = Inr (rv_key_is_null v, rv_key v, rv_value v)"
    and nxt: "nxt \<le> length data"
    using p by (auto simp: ParseRecord_Inr_iff Let_def)
  note b = parse_spans_bounds [OF this(1) l(1)] 
  show "fst (rv_value v) + snd (rv_value v) = nxt"
    "rv_key_is_null v \<or> fst (rv_key v) + snd (rv_key v) = fst (rv_value v)"
    and "span_ok data (rv_key v)" "span_ok data (rv_value v)"
    and "rv_key_is_null v \<Longrightarrow> rv_key v = (0, 0)"
    using b l(2) nxt by (auto simp: lengths_sane_def span_ok_def)
qed

definition overflow_record :: bytes where
  "overflow_record =
     [32, 0, 0, 0, 0, 0, 0, 0, 0, 0, 0, 0, 0, 0, 0, 0, 0, 0, 0, 0, 0, 0, 0, 0, 0,
      0xFF, 0xFF, 0xFF, 0xFF, 0xFF, 0xFF, 0xFF, 0xFF, 0xFF, 0x01, 0x02]"

definition sample_record :: bytes where
  "sample_record =
     [25, 0, 0, 0, 0, 0, 0, 0, 0, 0, 0, 0, 0, 0, 0, 0, 0, 0, 0, 0, 0, 0, 0, 0, 0, 2, 1, 7, 9]"

lemma sample_accepted:
  "ParseRecord sample_record 0 False =
     Inr (\<lparr>rv_offset = 0, rv_timestamp = 0, rv_attributes = 0, rv_key_is_null = False,
           rv_key = (27, 1), rv_value = (28, 1)\<rparr>, 29)"
proof -
  have "ReadVarUInt sample_record 25 = Some (2, 1)" "ReadVarUInt sample_record 26 = Some (1, 1)"
    by code_simp+
  then have "parse_spans sample_record 25 29 = Inr (False, (27, 1), (28, 1))"
    by (simp add: parse_spans_def wrap64_def)
  moreover have "length sample_record = 29" "LoadLe32 sample_record = 25"
    "LoadLeI64 (drop 8 sample_record) = 0" "LoadLeI64 (drop 16 sample_record) = 0"
    "sample_record ! 24 = 0"
    by (simp_all add: sample_record_def LoadLe32_def LoadLeI64_def LoadLe64_def le_word_def)
  ultimately show ?thesis
    by (simp add: ParseRecord_def kRecordFixedPrefix_def kMaxRecordBytes_def)
qed

lemma overflow_varints:
  "ReadVarUInt overflow_record 25 = Some (- 1, 10)" "ReadVarUInt overflow_record 35 = Some (2, 1)"
  by code_simp+

lemma overflow_accepted:
  "ParseRecord overflow_record 0 False =
     Inr (\<lparr>rv_offset = 0, rv_timestamp = 0, rv_attributes = 0, rv_key_is_null = False,
           rv_key = (36, 2 ^ 64 - 2), rv_value = (34, 2)\<rparr>, 36)"
proof -
  have "unat ((- 1 :: u64) - 1) = 2 ^ 64 - 2"
    by (simp add: unat_minus_one)
  then have "parse_spans overflow_record 25 36 = Inr (False, (36, 2 ^ 64 - 2), (34, 2))"
    using overflow_varints by (simp add: parse_spans_def wrap64_def)
  moreover have "length overflow_record = 36" "LoadLe32 overflow_record = 32"
    "LoadLeI64 (drop 8 overflow_record) = 0" "LoadLeI64 (drop 16 overflow_record) = 0"
    "overflow_record ! 24 = 0"
    by (simp_all add: overflow_record_def LoadLe32_def LoadLeI64_def LoadLe64_def le_word_def)
  ultimately show ?thesis
    by (simp add: ParseRecord_def kRecordFixedPrefix_def kMaxRecordBytes_def)
qed

section \<open>Properties\<close>

definition append_plain :: "plain_record \<Rightarrow> byte_buffer \<Rightarrow> byte_buffer" where
  "append_plain r out =
     snd (AppendRecord out (pl_off r) (pl_ts r) (pl_attr r) (pl_key r = None)
       (case pl_key r of None \<Rightarrow> [] | Some k \<Rightarrow> k) (pl_val r))"

lemma append_plain_Readable:
  "buf_ok out \<Longrightarrow> buf_ok (fold append_plain rs out) \<and>
     Readable (fold append_plain rs out) = Readable out @ concat (map plain_wire rs)"
  by (induction rs arbitrary: out)
    (simp_all add: append_plain_def AppendRecord_Readable plain_wire_def)

text \<open>
  C23: records survive encoding.  Appending any list of records within the size limit to a buffer
  and iterating over its bytes, with or without checksum verification, returns exactly those
  records -- offsets, timestamps, attributes, null and non-null keys, values -- in order, stops
  at the end of the bytes and reports no error.
\<close>

theorem record_batch_roundtrip:
  assumes "list_all plain_ok rs" "length (Readable (fold append_plain rs EmptyBuffer)) < 2 ^ 64"
  shows "case iterate (Suc (length rs)) (RecordIterator (Readable (fold append_plain rs EmptyBuffer)) verify_crc) of
      (vs, it) \<Rightarrow> map (view_record (Readable (fold append_plain rs EmptyBuffer))) vs = rs \<and>
        ri_status it = kOk \<and> ri_records_read it = length rs \<and>
        ri_pos it = length (Readable (fold append_plain rs EmptyBuffer))"
proof -
  have d: "Readable (fold append_plain rs EmptyBuffer) = concat (map plain_wire rs)"
    by (simp add: append_plain_Readable)
  show ?thesis
    using iterate_records [OF assms(1), of _ "RecordIterator (concat (map plain_wire rs)) verify_crc"] assms(2)
    unfolding d by (auto simp: RecordIterator_def)
qed

theorem record_batch_roundtrip_witness:
  "let rs = [Plain 0 1000 0 (Some [1, 2]) [3], Plain 0 1001 4 None []];
       data = Readable (fold append_plain rs EmptyBuffer)
   in case iterate (Suc (length rs)) (RecordIterator data True) of
        (vs, it) \<Rightarrow> map (view_record data) vs = rs \<and> ri_status it = kOk"
proof -
  let ?rs = "[Plain 0 1000 0 (Some [1, 2]) [3], Plain 0 1001 4 None []]"
  have fits: "record_fits False [1, 2] [3]" "record_fits True [] []"
    by (simp_all add: record_fits_def EncodedRecordSize_def kRecordFixedPrefix_def kMaxRecordBytes_def
        key_field_def VarUIntSize.simps)
  then have ok: "list_all plain_ok ?rs" by (simp add: plain_ok_def is_i64_def)
  have "length (concat (map plain_wire ?rs)) < 2 ^ 64"
    using fits by (simp add: plain_wire_def length_record_wire record_fits_def kMaxRecordBytes_def)
  then have "length (Readable (fold append_plain ?rs EmptyBuffer)) < 2 ^ 64"
    using append_plain_Readable [of EmptyBuffer ?rs] by simp
  from record_batch_roundtrip [OF ok this, of True] show ?thesis
    unfolding Let_def by (simp only: split: prod.splits) blast
qed

text \<open>
  C24: rewriting a record in place is sound.  When the leader stamps an accepted record with its
  offset and timestamp, the result passes checksum verification, carries the new offset and
  timestamp, and has the same attributes, key and value; every byte outside the record is
  untouched, so the records around it parse as before.
\<close>

theorem RewriteRecordHeader_sound:
  assumes "ParseRecord data pos verify_crc = Inr (v, nxt)" "is_i64 off" "is_i64 ts"
  shows "ParseRecord (overwrite pos (RewriteRecordHeader (slice pos (nxt - pos) data) off ts) data) pos True =
      Inr (v\<lparr>rv_offset := off, rv_timestamp := ts\<rparr>, nxt) \<and>
    take pos (overwrite pos (RewriteRecordHeader (slice pos (nxt - pos) data) off ts) data) = take pos data \<and>
    drop nxt (overwrite pos (RewriteRecordHeader (slice pos (nxt - pos) data) off ts) data) = drop nxt data"
proof -
  note fr = ParseRecord_framed [OF assms(1)]
  have "length (RewriteRecordHeader (slice pos (nxt - pos) data) off ts) = nxt - pos"
    using Rewrite_props(5) [OF fr(3) assms(2,3)] fr(1,2) by simp
  then show ?thesis
    using ParseRecord_rewrite [OF assms] fr(1,2) by (simp add: overwrite_def)
qed

theorem RewriteRecordHeader_sound_witness:
  "ParseRecord (overwrite 0 (RewriteRecordHeader overflow_record 42 1000) overflow_record) 0 True =
     Inr (\<lparr>rv_offset = 42, rv_timestamp = 1000, rv_attributes = 0, rv_key_is_null = False,
           rv_key = (36, 2 ^ 64 - 2), rv_value = (34, 2)\<rparr>, 36)"
  using RewriteRecordHeader_sound [OF overflow_accepted, of 42 1000]
  by (simp add: is_i64_def slice_def overflow_record_def)

text \<open>
  C28: damage to a stored record is detected.  If a record verifies and up to four consecutive
  bytes behind its checksum change (offset, timestamp, attributes, lengths, key or value), then
  parsing it with verification reports corruption.
\<close>

theorem ParseRecord_detects_burst:
  assumes "ParseRecord (pre @ h @ b1 @ x @ b2 @ post) (length pre) True =
      Inr (v, length pre + length (h @ b1 @ x @ b2))"
    and "length h = 8" "length x = length y" "length x \<le> 4" "x \<noteq> y"
  shows "ParseRecord (pre @ h @ b1 @ y @ b2 @ post) (length pre) True = Inl kCorruption"
  using assms by (rule body_burst_rejected)

theorem ParseRecord_detects_burst_witness:
  "ParseRecord (take 8 (RewriteRecordHeader sample_record 42 1000) @ [43] @
     drop 9 (RewriteRecordHeader sample_record 42 1000)) 0 True = Inl kCorruption"
proof -
  let ?r = "RewriteRecordHeader sample_record 42 1000"
  have shape: "?r = take 4 sample_record @ StoreLe32 (Crc32c (StoreLeI64 42 @ StoreLeI64 1000 @ drop 24 sample_record)) @
      StoreLeI64 42 @ StoreLeI64 1000 @ drop 24 sample_record"
    by (rule Rewrite_shape) (simp add: sample_record_def)
  have len: "length ?r = 29" unfolding shape by (simp add: sample_record_def)
  have "StoreLeI64 42 = [42, 0, 0, 0, 0, 0, 0, 0]" by code_simp
  then have "take 1 (drop 8 ?r) = [42]" unfolding shape by (simp add: sample_record_def)
  then have r: "take 8 ?r @ [42] @ drop 9 ?r = ?r"
    using append_take_drop_id [of 1 "drop 8 ?r"] by (simp add: append_take_drop_id)
  have p: "ParseRecord ([] @ take 8 ?r @ [] @ [42] @ drop 9 ?r @ []) (length ([] :: bytes)) True =
      Inr (\<lparr>rv_offset = 42, rv_timestamp = 1000, rv_attributes = 0, rv_key_is_null = False,
           rv_key = (27, 1), rv_value = (28, 1)\<rparr>,
        length ([] :: bytes) + length (take 8 ?r @ [] @ [42] @ drop 9 ?r))"
    using ParseRecord_rewrite [OF sample_accepted, of 42 1000] len
    unfolding append_Nil append_Nil2 r
    by (simp add: is_i64_def overwrite_front sample_record_def)
  from ParseRecord_detects_burst [OF p, of "[43]"] show ?thesis using len by simp
qed

text \<open>
  C35: spans stay inside the record.  When the lengths a record declares are below \<open>2 ^ 62\<close>, an
  accepted record's key and value lie inside the data, the value ends where the record ends and
  a non-null key ends where the value begins.
\<close>

theorem ParseRecord_spans_in_bounds:
  assumes "ParseRecord data pos verify_crc = Inr (v, nxt)" "length data < 2 ^ 62" "lengths_sane v"
  shows "span_ok data (rv_key v) \<and> span_ok data (rv_value v) \<and> fst (rv_value v) + snd (rv_value v) = nxt \<and>
    (if rv_key_is_null v then rv_key v = (0, 0) else fst (rv_key v) + snd (rv_key v) = fst (rv_value v))"
  using ParseRecord_spans [OF assms] by auto

theorem ParseRecord_spans_in_bounds_witness:
  "span_ok sample_record (27, 1) \<and> span_ok sample_record (28, 1)"
  using ParseRecord_spans_in_bounds [OF sample_accepted] by (simp add: lengths_sane_def sample_record_def)

text \<open>
  C36: without that bound the check is not enough.  There is a record that passes every check of
  \<open>ParseRecord\<close>, checksum included, whose declared key length makes the 64-bit sum wrap, and
  whose key span reaches outside the data.
\<close>

theorem ParseRecord_span_overflow:
  "case ParseRecord (RewriteRecordHeader overflow_record 0 0) 0 True of
     Inl e \<Rightarrow> False
   | Inr (v, nxt) \<Rightarrow> nxt = length (RewriteRecordHeader overflow_record 0 0) \<and>
       \<not> span_ok (RewriteRecordHeader overflow_record 0 0) (rv_key v)"
  using ParseRecord_rewrite [OF overflow_accepted, of 0 0]
  by (simp add: is_i64_def slice_def overflow_record_def overwrite_front Rewrite_shape span_ok_def)

end
