(* ===== verification/PL_Omap.thy ===== *)
theory PL_Omap
  imports PL_Prelude
begin

text \<open>
  \<open>std::map\<close> as the containers of the sources use it: an association list in increasing order of
  its keys, with the lookup, insertion, removal and in-order traversal the code relies on.
\<close>

section \<open>The interface\<close>

text \<open>What a client may assume of a map: the laws of lookup, and that traversal is in key order.\<close>

locale std_map =
  fixes wf :: "'m \<Rightarrow> bool" and lookup :: "'k::linorder \<Rightarrow> 'm \<Rightarrow> 'v option" and put :: "'k \<Rightarrow> 'v \<Rightarrow> 'm \<Rightarrow> 'm"
    and erase :: "'k \<Rightarrow> 'm \<Rightarrow> 'm" and items :: "'m \<Rightarrow> ('k \<times> 'v) list"
  assumes lookup_put: "wf m \<Longrightarrow> lookup j (put k v m) = (if j = k then Some v else lookup j m)"
    and lookup_erase: "wf m \<Longrightarrow> lookup j (erase k m) = (if j = k then None else lookup j m)"
    and wf_put: "wf m \<Longrightarrow> wf (put k v m)"
    and wf_erase: "wf m \<Longrightarrow> wf (erase k m)"
    and items_sorted: "wf m \<Longrightarrow> sorted_wrt (<) (map fst (items m))"
    and items_lookup: "wf m \<Longrightarrow> (k, v) \<in> set (items m) \<longleftrightarrow> lookup k m = Some v"
begin

lemma put_other_key: "wf m \<Longrightarrow> j \<noteq> k \<Longrightarrow> lookup j (put k v m) = lookup j m"
  by (simp add: lookup_put)

lemma items_distinct: "wf m \<Longrightarrow> distinct (map fst (items m))"
  using items_sorted strict_sorted_iff by blast

lemma items_put:
  assumes "wf m"
  shows "(j, u) \<in> set (items (put k v m)) \<longleftrightarrow> (if j = k then u = v else (j, u) \<in> set (items m))"
  using assms by (auto simp: items_lookup wf_put lookup_put)

lemma items_erase:
  assumes "wf m"
  shows "(j, u) \<in> set (items (erase k m)) \<longleftrightarrow> j \<noteq> k \<and> (j, u) \<in> set (items m)"
  using assms by (auto simp: items_lookup wf_erase lookup_erase)

text \<open>Two maps that answer every lookup alike are traversed alike.\<close>

lemma items_unique:
  assumes "wf m" "wf n" "\<And>k. lookup k m = lookup k n"
  shows "items m = items n"
proof -
  have same: "set (items m) = set (items n)" using assms by (auto simp: items_lookup)
  have keys: "map fst (items m) = map fst (items n)"
    using items_sorted assms same by (metis (no_types, lifting) image_set strict_sorted_equal)
  show ?thesis
  proof (rule nth_equalityI)
    show len: "length (items m) = length (items n)" using keys map_eq_imp_length_eq by blast
    fix i assume i: "i < length (items m)"
    then have f: "fst (items m ! i) = fst (items n ! i)" using keys len by (metis nth_map)
    have "lookup (fst (items m ! i)) m = Some (snd (items m ! i))"
      "lookup (fst (items n ! i)) n = Some (snd (items n ! i))"
      using i len assms(1,2) by (metis items_lookup nth_mem prod.collapse)+
    with f assms(3) show "items m ! i = items n ! i" by (metis option.inject prod.collapse)
  qed
qed

end

section \<open>The implementation\<close>

type_synonym ('k, 'v) omap = "('k \<times> 'v) list"

definition om_wf :: "('k::linorder, 'v) omap \<Rightarrow> bool" where
  "om_wf m \<longleftrightarrow> sorted_wrt (<) (map fst m)"

definition om_get :: "'k::linorder \<Rightarrow> ('k, 'v) omap \<Rightarrow> 'v option" where
  "om_get k m = map_of m k"

fun om_put :: "'k::linorder \<Rightarrow> 'v \<Rightarrow> ('k, 'v) omap \<Rightarrow> ('k, 'v) omap" where
  "om_put k v [] = [(k, v)]"
| "om_put k v ((j, u) # m) =
     (if k < j then (k, v) # (j, u) # m else if k = j then (k, v) # m else (j, u) # om_put k v m)"

definition om_erase :: "'k::linorder \<Rightarrow> ('k, 'v) omap \<Rightarrow> ('k, 'v) omap" where
  "om_erase k m = filter (\<lambda>(j, _). j \<noteq> k) m"

lemma om_put_keys: "set (map fst (om_put k v m)) = insert k (set (map fst m))"
  by (induction k v m rule: om_put.induct) auto

lemma om_wf_put: "om_wf m \<Longrightarrow> om_wf (om_put k v m)"
proof (induction k v m rule: om_put.induct)
  case (2 k v j u m)
  then have ih: "\<not> k < j \<Longrightarrow> k \<noteq> j \<Longrightarrow> om_wf (om_put k v m)" by (simp add: om_wf_def)
  have "\<forall>x \<in> set (map fst (om_put k v m)). j < x" if "\<not> k < j" "k \<noteq> j"
    unfolding om_put_keys using 2(2) that by (auto simp: om_wf_def)
  with ih 2(2) show ?case by (force simp: om_wf_def)
qed (simp add: om_wf_def)

lemma om_get_put: "om_get j (om_put k v m) = (if j = k then Some v else om_get j m)"
  by (induction k v m rule: om_put.induct) (auto simp: om_get_def)

lemma om_get_erase: "om_get j (om_erase k m) = (if j = k then None else om_get j m)"
  by (induction m) (auto simp: om_get_def om_erase_def)

lemma om_wf_erase: "om_wf m \<Longrightarrow> om_wf (om_erase k m)"
  by (induction m) (auto simp: om_wf_def om_erase_def)

lemma om_wf_distinct: "om_wf m \<Longrightarrow> distinct (map fst m)"
  using strict_sorted_iff unfolding om_wf_def by blast

interpretation omap: std_map om_wf om_get om_put om_erase "\<lambda>m. m"
proof
  fix m :: "('a, 'b) omap" and k v
  assume "om_wf m"
  then show "(k, v) \<in> set m \<longleftrightarrow> om_get k m = Some v"
    using om_wf_distinct [of m] by (simp add: om_get_def map_of_eq_Some_iff)
qed (simp_all add: om_get_put om_get_erase om_wf_put om_wf_erase om_wf_def [symmetric])

lemma om_wf_Nil [simp]: "om_wf []"
  by (simp add: om_wf_def)

lemma om_get_Nil [simp]: "om_get k [] = None"
  by (simp add: om_get_def)

lemma om_put_above: "\<forall>x \<in> set (map fst m). x < k \<Longrightarrow> om_put k v m = m @ [(k, v)]"
  by (induction k v m rule: om_put.induct) auto

end
