(* ===== verification/PL_File.thy ===== *)
theory PL_File
  imports PL_Base PL_Buffer
begin

text \<open>
  File access (\<open>include/pulselog/storage/file_util.h\<close>, \<open>src/storage/file_util.cc\<close>).  The kernel is
  a parameter: every system call takes its outcome from a script of replies, which may cut a
  transfer short, interrupt it (\<open>EINTR\<close>) or fail it, at any call.  A script that has run out
  answers every call with complete success.  The loops of \<open>FileHandle\<close> are modelled over these
  replies; the lemmas at the end say what the other storage theories rely on, for every script.
\<close>

section \<open>The kernel\<close>

datatype reply = Full | Short nat | Errno int

record os =
  os_replies :: "reply list"
  os_wall :: "nat \<Rightarrow> int"
  os_mono :: "nat \<Rightarrow> int"
  os_free :: "nat \<Rightarrow> nat \<times> nat"
  os_tick :: nat

definition EINTR :: int where "EINTR = 4"
definition EBADF :: int where "EBADF = 9"
definition kMaxTransfer :: nat where "kMaxTransfer = 1073741824"
definition kMaxIovecs :: nat where "kMaxIovecs = 64"

definition next_reply :: "os \<Rightarrow> reply \<times> os" where
  "next_reply w =
     (case os_replies w of [] \<Rightarrow> (Full, w) | r # rs \<Rightarrow> (r, w\<lparr>os_replies := rs\<rparr>))"

text \<open>
  The two clocks: successive readings, in the order in which the code takes them
  (\<open>WallClockMillis\<close>; \<open>MonotonicNanos\<close>).  \<open>os_free\<close> are the free blocks and the block size that
  \<open>statvfs\<close> reports.
\<close>

definition WallClockMillis :: "os \<Rightarrow> int \<times> os" where
  "WallClockMillis w = (os_wall w (os_tick w), w\<lparr>os_tick := Suc (os_tick w)\<rparr>)"

definition MonotonicNanos :: "os \<Rightarrow> int \<times> os" where
  "MonotonicNanos w = (os_mono w (os_tick w), w\<lparr>os_tick := Suc (os_tick w)\<rparr>)"

section \<open>File handles\<close>

text \<open>
  A handle carries the bytes of its file, and the bytes the file had when it was last flushed
  successfully: what a crash of the machine leaves intact is argued from the latter.
\<close>

record file_handle =
  fh_valid :: bool
  fh_content :: bytes
  fh_durable :: bytes

definition ClosedFile :: file_handle where
  "ClosedFile = \<lparr>fh_valid = False, fh_content = [], fh_durable = []\<rparr>"

datatype write_mode = WriteModeWrite | WriteModeWritev | WriteModeMmap
datatype sync_mode = SyncFull | SyncData

definition WriteModeName :: "write_mode \<Rightarrow> string" where
  "WriteModeName m =
     (case m of WriteModeWrite \<Rightarrow> ''write'' | WriteModeWritev \<Rightarrow> ''writev'' | WriteModeMmap \<Rightarrow> ''mmap'')"

definition SyncModeName :: "sync_mode \<Rightarrow> string" where
  "SyncModeName m = (case m of SyncFull \<Rightarrow> ''full'' | SyncData \<Rightarrow> ''data'')"

definition ParseSyncMode :: "string \<Rightarrow> sync_mode option" where
  "ParseSyncMode text =
     (if text = ''full'' \<or> text = ''fullfsync'' then Some SyncFull
      else if text = ''data'' \<or> text = ''fdatasync'' then Some SyncData
      else None)"

definition ParseWriteMode :: "string \<Rightarrow> write_mode option" where
  "ParseWriteMode text =
     (if text = ''write'' then Some WriteModeWrite
      else if text = ''writev'' then Some WriteModeWritev
      else if text = ''mmap'' then Some WriteModeMmap
      else None)"

text \<open>A system call on the descriptor; one that is not open answers \<open>EBADF\<close>.\<close>

definition sys_call :: "file_handle \<Rightarrow> os \<Rightarrow> reply \<times> os" where
  "sys_call h w = (if fh_valid h then next_reply w else (Errno EBADF, w))"

text \<open>The error number of a call that failed.\<close>

definition reply_error :: "reply \<Rightarrow> int option" where
  "reply_error r = (case r of Errno e \<Rightarrow> Some e | _ \<Rightarrow> None)"

text \<open>How many of \<open>n\<close> requested bytes a call that did not fail transfers.\<close>

definition transferred :: "reply \<Rightarrow> nat \<Rightarrow> nat" where
  "transferred r n = (case r of Short m \<Rightarrow> min m n | _ \<Rightarrow> n)"

lemma transferred_le: "transferred r n \<le> n"
  by (simp add: transferred_def split: reply.split)

text \<open>\<open>pwrite(2)\<close>: beyond the end of the file, the gap reads as zeros.\<close>

definition pwrite_bytes :: "nat \<Rightarrow> bytes \<Rightarrow> bytes \<Rightarrow> bytes" where
  "pwrite_bytes pos d f =
     (if d = [] then f
      else take pos (f @ replicate (pos - length f) 0) @ d @ drop (pos + length d) f)"

lemma next_reply_Errno:
  "next_reply w = (Errno e, w') \<Longrightarrow> length (os_replies w') < length (os_replies w)"
  by (auto simp: next_reply_def split: list.splits)

lemma next_reply_replies: "next_reply w = (r, w') \<Longrightarrow> length (os_replies w') \<le> length (os_replies w)"
  by (auto simp: next_reply_def split: list.splits)

lemma reply_error_Some: "reply_error r = Some e \<longleftrightarrow> r = Errno e"
  by (simp add: reply_error_def split: reply.split)

lemma sys_call_EINTR:
  "sys_call h w = (Errno EINTR, w') \<Longrightarrow> length (os_replies w') < length (os_replies w)"
  by (auto simp: sys_call_def EINTR_def EBADF_def dest: next_reply_Errno split: if_splits)

lemma sys_call_replies: "sys_call h w = (r, w') \<Longrightarrow> length (os_replies w') \<le> length (os_replies w)"
  by (auto simp: sys_call_def dest: next_reply_replies split: if_splits)

text \<open>A call repeated while it is interrupted.\<close>

function retry_sys :: "file_handle \<Rightarrow> os \<Rightarrow> unit result \<times> os" where
  "retry_sys h w =
     (case sys_call h w of (q, w') \<Rightarrow>
        (case reply_error q of
           Some e \<Rightarrow> if e = EINTR then retry_sys h w' else (Inl (ErrnoToCode e), w')
         | None \<Rightarrow> (Inr (), w')))"
  by auto
termination
  by (relation "measure (\<lambda>(h, w). length (os_replies w))") (auto simp: reply_error_Some dest: sys_call_EINTR [OF sym])

declare retry_sys.simps [simp del]

text \<open>
  \<open>FileHandle::Open(path, create = true)\<close>: \<open>existing\<close> is the file that is already there.
\<close>

function File_Open :: "bytes option \<Rightarrow> os \<Rightarrow> file_handle result \<times> os" where
  "File_Open existing w =
     (case next_reply w of (q, w') \<Rightarrow>
        (case reply_error q of
           Some e \<Rightarrow> if e = EINTR then File_Open existing w' else (Inl (ErrnoToCode e), w')
         | None \<Rightarrow>
          (Inr \<lparr>fh_valid = True, fh_content = (case existing of None \<Rightarrow> [] | Some b \<Rightarrow> b),
                fh_durable = (case existing of None \<Rightarrow> [] | Some b \<Rightarrow> b)\<rparr>, w')))"
  by auto
termination
  by (relation "measure (\<lambda>(e, w). length (os_replies w))") (auto simp: reply_error_Some dest: next_reply_Errno [OF sym])

declare File_Open.simps [simp del]

definition File_Close :: "file_handle \<Rightarrow> file_handle" where
  "File_Close h = h\<lparr>fh_valid := False\<rparr>"

function WriteAllAt_loop :: "bytes \<Rightarrow> nat \<Rightarrow> file_handle \<Rightarrow> os \<Rightarrow> unit result \<times> file_handle \<times> os" where
  "WriteAllAt_loop p pos h w =
     (if p = [] then (Inr (), h, w)
      else let chunk = take kMaxTransfer p in
        case sys_call h w of (q, w') \<Rightarrow>
          (case reply_error q of
             Some e \<Rightarrow> if e = EINTR then WriteAllAt_loop p pos h w' else (Inl (ErrnoToCode e), h, w')
           | None \<Rightarrow>
               let written = transferred q (length chunk) in
               if written = 0 then (Inl kIoError, h, w')
               else WriteAllAt_loop (drop written p) (pos + written)
                      (h\<lparr>fh_content := pwrite_bytes pos (take written p) (fh_content h)\<rparr>) w'))"
  by pat_completeness auto
termination
  by (relation "measures [\<lambda>(p, pos, h, w). length p, \<lambda>(p, pos, h, w). length (os_replies w)]")
    (auto simp: reply_error_Some dest: sys_call_EINTR [OF sym] split: reply.splits if_splits)

declare WriteAllAt_loop.simps [simp del]

definition WriteAllAt :: "bytes \<Rightarrow> nat \<Rightarrow> file_handle \<Rightarrow> os \<Rightarrow> unit result \<times> file_handle \<times> os" where
  "WriteAllAt d pos h w = WriteAllAt_loop d pos h w"

text \<open>The iovec array after a short write: whole entries dropped, the next one advanced.\<close>

fun advance_vecs :: "nat \<Rightarrow> bytes list \<Rightarrow> bytes list" where
  "advance_vecs consumed [] = []"
| "advance_vecs consumed (v # vs) =
     (if consumed \<ge> length v then advance_vecs (consumed - length v) vs
      else if consumed > 0 then drop consumed v # vs else v # vs)"

lemma concat_advance_vecs: "concat (advance_vecs n vs) = drop n (concat vs)"
  by (induction n vs rule: advance_vecs.induct) auto

lemma advance_vecs_less:
  "0 < n \<Longrightarrow> n \<le> length (concat (take k vs)) \<Longrightarrow>
   length (concat (advance_vecs n vs)) < length (concat vs)"
  using length_concat_take_le [of k vs] by (simp add: concat_advance_vecs del: length_concat)

lemma advance_vecs_nonempty: "[] \<notin> set vs \<Longrightarrow> [] \<notin> set (advance_vecs n vs)"
  by (induction n vs rule: advance_vecs.induct) auto

function WriteVectoredAt_loop ::
  "bytes list \<Rightarrow> nat \<Rightarrow> file_handle \<Rightarrow> os \<Rightarrow> unit result \<times> file_handle \<times> os" where
  "WriteVectoredAt_loop vecs pos h w =
     (if vecs = [] then (Inr (), h, w)
      else let batch = concat (take kMaxIovecs vecs) in
        case sys_call h w of (q, w') \<Rightarrow>
          (case reply_error q of
             Some e \<Rightarrow>
               if e = EINTR then WriteVectoredAt_loop vecs pos h w' else (Inl (ErrnoToCode e), h, w')
           | None \<Rightarrow>
               let written = transferred q (length batch) in
               if written = 0 then (Inl kIoError, h, w')
               else WriteVectoredAt_loop (advance_vecs written vecs) (pos + written)
                      (h\<lparr>fh_content := pwrite_bytes pos (take written batch) (fh_content h)\<rparr>) w'))"
  by pat_completeness auto
termination
  by (relation "measures [\<lambda>(vecs, pos, h, w). length (concat vecs), \<lambda>(vecs, pos, h, w). length (os_replies w)]")
    (auto simp: reply_error_Some dest: sys_call_EINTR [OF sym] intro!: advance_vecs_less [OF _ transferred_le]
      simp del: length_concat)

declare WriteVectoredAt_loop.simps [simp del]

definition WriteVectoredAt ::
  "bytes list \<Rightarrow> nat \<Rightarrow> file_handle \<Rightarrow> os \<Rightarrow> unit result \<times> file_handle \<times> os" where
  "WriteVectoredAt chunks pos h w = WriteVectoredAt_loop (filter (\<lambda>c. c \<noteq> []) chunks) pos h w"


text \<open>
  \<open>ReadAt\<close> accumulates until the request is filled or \<open>pread\<close> answers 0, which it does only at
  the end of the file.
\<close>

function ReadAt_loop :: "bytes \<Rightarrow> nat \<Rightarrow> nat \<Rightarrow> file_handle \<Rightarrow> os \<Rightarrow> bytes result \<times> os" where
  "ReadAt_loop acc want pos h w =
     (if length acc \<ge> want then (Inr acc, w)
      else case sys_call h w of (q, w') \<Rightarrow>
        (case reply_error q of
           Some e \<Rightarrow> if e = EINTR then ReadAt_loop acc want pos h w' else (Inl (ErrnoToCode e), w')
         | None \<Rightarrow>
             let avail = slice (pos + length acc) (want - length acc) (fh_content h);
                 got = take (max 1 (transferred q (length avail))) avail
             in if got = [] then (Inr acc, w') else ReadAt_loop (acc @ got) want pos h w'))"
  by pat_completeness auto
termination
proof (relation "measures [\<lambda>(acc, want, pos, h, w). want - length acc,
                           \<lambda>(acc, want, pos, h, w). length (os_replies w)]", goal_cases)
  case 1
  show ?case by simp
next
  case (2 acc want pos h w q w' avail got)
  from 2(6) have "0 < length got" by (rule length_greater_0_conv [THEN iffD2])
  moreover from 2(1) have "length acc < want" by simp
  ultimately have "want - length (acc @ got) < want - length acc" by (simp only: length_append)
  then show ?case by (simp only: in_measures prod.case) simp
next
  case 3
  then show ?case by (auto simp: reply_error_Some dest: sys_call_EINTR [OF sym])
qed

declare ReadAt_loop.simps [simp del]

definition ReadAt :: "nat \<Rightarrow> nat \<Rightarrow> file_handle \<Rightarrow> os \<Rightarrow> bytes result \<times> os" where
  "ReadAt want pos h w = ReadAt_loop [] want pos h w"

definition ReadExactAt :: "nat \<Rightarrow> nat \<Rightarrow> file_handle \<Rightarrow> os \<Rightarrow> bytes result \<times> os" where
  "ReadExactAt want pos h w =
     (case ReadAt want pos h w of
        (Inl e, w') \<Rightarrow> (Inl e, w')
      | (Inr got, w') \<Rightarrow> if length got \<noteq> want then (Inl kOutOfRange, w') else (Inr got, w'))"

text \<open>
  \<open>Sync\<close> and \<open>SyncData\<close> on Linux: \<open>fsync\<close> or \<open>fdatasync\<close>, repeated while interrupted.  Either makes
  the bytes of the file durable.
\<close>

definition File_Sync :: "sync_mode \<Rightarrow> file_handle \<Rightarrow> os \<Rightarrow> unit result \<times> file_handle \<times> os" where
  "File_Sync mode h w =
     (case retry_sys h w of
        (Inl e, w') \<Rightarrow> (Inl e, h, w')
      | (Inr _, w') \<Rightarrow> (Inr (), h\<lparr>fh_durable := fh_content h\<rparr>, w'))"

definition File_SyncData :: "file_handle \<Rightarrow> os \<Rightarrow> unit result \<times> file_handle \<times> os" where
  "File_SyncData h w = File_Sync SyncData h w"

definition File_Truncate :: "nat \<Rightarrow> file_handle \<Rightarrow> os \<Rightarrow> unit result \<times> file_handle \<times> os" where
  "File_Truncate want h w =
     (case retry_sys h w of
        (Inl e, w') \<Rightarrow> (Inl e, h, w')
      | (Inr _, w') \<Rightarrow> (Inr (), h\<lparr>fh_content := resize want (fh_content h)\<rparr>, w'))"

definition File_Size :: "file_handle \<Rightarrow> os \<Rightarrow> nat result \<times> os" where
  "File_Size h w =
     (case sys_call h w of (q, w') \<Rightarrow>
        (case reply_error q of
           Some e \<Rightarrow> (Inl (ErrnoToCode e), w')
         | None \<Rightarrow> (Inr (length (fh_content h)), w')))"

text \<open>
  \<open>Preallocate\<close> on Linux: \<open>posix_fallocate\<close> extends a shorter file with zeros; a file system that
  does not support it (\<open>EOPNOTSUPP\<close>, \<open>ENOSYS\<close>) gets \<open>ftruncate\<close>.
\<close>

definition Preallocate :: "nat \<Rightarrow> file_handle \<Rightarrow> os \<Rightarrow> unit result \<times> file_handle \<times> os" where
  "Preallocate want h w =
     (case sys_call h w of (q, w') \<Rightarrow>
        (case reply_error q of
           Some rc \<Rightarrow>
             if rc \<noteq> 95 \<and> rc \<noteq> 38 then (Inl (ErrnoToCode rc), h, w') else File_Truncate want h w'
         | None \<Rightarrow>
             (Inr (), h\<lparr>fh_content := resize (max want (length (fh_content h))) (fh_content h)\<rparr>, w')))"

text \<open>
  \<open>ListFiles\<close> on the names of the regular files of a directory, in the order \<open>std::sort\<close> gives
  them.
\<close>

definition has_suffix :: "string \<Rightarrow> string \<Rightarrow> bool" where
  "has_suffix suffix name \<longleftrightarrow>
     length name \<ge> length suffix \<and> drop (length name - length suffix) name = suffix"

definition ListFiles :: "string list \<Rightarrow> string \<Rightarrow> string list" where
  "ListFiles names suffix = sort (filter (has_suffix suffix) names)"

text \<open>
  Directories.  A directory that cannot be created is no error when it exists, which a second
  call finds out; syncing one opens it, flushes it and retries what is interrupted.
\<close>

definition EnsureDirectory :: "os \<Rightarrow> unit result \<times> os" where
  "EnsureDirectory w =
     (case next_reply w of (q, w1) \<Rightarrow>
        (case reply_error q of
           None \<Rightarrow> (Inr (), w1)
         | Some e \<Rightarrow>
             (case next_reply w1 of (q', w2) \<Rightarrow>
                (case reply_error q' of None \<Rightarrow> (Inr (), w2) | Some e' \<Rightarrow> (Inl kIoError, w2)))))"

definition SyncDirectory :: "os \<Rightarrow> unit result \<times> os" where
  "SyncDirectory w =
     (let fd = ClosedFile\<lparr>fh_valid := True\<rparr> in
      case retry_sys fd w of
        (Inl e, w1) \<Rightarrow> (Inl e, w1)
      | (Inr _, w1) \<Rightarrow> retry_sys fd w1)"

definition AvailableBytes :: "os \<Rightarrow> nat result \<times> os" where
  "AvailableBytes w =
     (case next_reply w of (q, w1) \<Rightarrow>
        (case reply_error q of
           Some e \<Rightarrow> (Inl (ErrnoToCode e), w1)
         | None \<Rightarrow>
             (case os_free w1 (os_tick w1) of (blocks, block_size) \<Rightarrow>
                (Inr (wrap64 (blocks * block_size)), w1\<lparr>os_tick := Suc (os_tick w1)\<rparr>))))"

section \<open>What the storage layer relies on\<close>

lemma length_pwrite_bytes:
  "pos \<le> length f \<Longrightarrow> length (pwrite_bytes pos d f) = max (length f) (pos + length d)"
  by (simp add: pwrite_bytes_def max_def)

lemma pwrite_bytes_append:
  assumes "pos \<le> length f" "length a = n"
  shows "pwrite_bytes (pos + n) b (pwrite_bytes pos a f) = pwrite_bytes pos (a @ b) f"
proof (cases "a = [] \<or> b = []")
  case True
  then show ?thesis using assms by (auto simp: pwrite_bytes_def)
next
  case False
  have "take (pos + n) (take pos f @ a @ drop (pos + n) f) = take pos f @ a"
    using assms by simp
  moreover have "drop (pos + n + length b) (take pos f @ a @ drop (pos + n) f) = drop (pos + (n + length b)) f"
    using assms by (simp add: ac_simps)
  ultimately show ?thesis
    using False assms by (simp add: pwrite_bytes_def add.assoc)
qed

lemma take_pwrite_bytes: "n \<le> pos \<Longrightarrow> pos \<le> length f \<Longrightarrow> take n (pwrite_bytes pos d f) = take n f"
  by (simp add: pwrite_bytes_def min_def)

lemma take_pwrite_bytes_end:
  "pos \<le> length f \<Longrightarrow> take (pos + length d) (pwrite_bytes pos d f) = take pos f @ d"
  by (simp add: pwrite_bytes_def)

text \<open>
  Whatever the kernel does, a write stores some prefix of the data at its place, all of it when
  it reports success, and touches nothing else.
\<close>

definition wrote :: "bytes \<Rightarrow> nat \<Rightarrow> file_handle \<Rightarrow> unit result \<Rightarrow> file_handle \<Rightarrow> bool" where
  "wrote d pos h r h' \<longleftrightarrow>
     (\<exists>n \<le> length d. h' = h\<lparr>fh_content := pwrite_bytes pos (take n d) (fh_content h)\<rparr> \<and>
        (r = Inr () \<longleftrightarrow> n = length d))"

lemma wrote_refl: "(r = Inr ()) = (d = []) \<Longrightarrow> wrote d pos h r h"
  unfolding wrote_def by (rule exI [of _ 0]) (auto simp: pwrite_bytes_def)

lemma wrote_step:
  assumes "wrote (drop k d) (pos + k) (h\<lparr>fh_content := pwrite_bytes pos (take k d) (fh_content h)\<rparr>) r h'"
    and "pos \<le> length (fh_content h)" "k \<le> length d"
  shows "wrote d pos h r h'"
proof -
  from assms(1) obtain n where n: "n \<le> length d - k" "r = Inr () \<longleftrightarrow> n = length d - k"
    and h': "h' = h\<lparr>fh_content := pwrite_bytes (pos + k) (take n (drop k d))
                     (pwrite_bytes pos (take k d) (fh_content h))\<rparr>"
    by (auto simp: wrote_def)
  have "h' = h\<lparr>fh_content := pwrite_bytes pos (take (k + n) d) (fh_content h)\<rparr>"
    using assms(2,3) by (simp add: h' pwrite_bytes_append take_add)
  with n assms(3) show ?thesis
    unfolding wrote_def by (intro exI [of _ "k + n"]) auto
qed

lemma WriteAllAt_loop_wrote:
  "pos \<le> length (fh_content h) \<Longrightarrow> WriteAllAt_loop p pos h w = (r, h', w') \<Longrightarrow> wrote p pos h r h'"
proof (induction p pos h w arbitrary: r h' w' rule: WriteAllAt_loop.induct)
  case (1 p pos h w)
  show ?case
  proof (cases "p = []")
    case True
    with 1 show ?thesis by (simp add: WriteAllAt_loop.simps wrote_refl)
  next
    case False
    obtain q w1 where sys: "sys_call h w = (q, w1)" by fastforce
    define k where "k = transferred q (length (take kMaxTransfer p))"
    have k: "k \<le> length p" unfolding k_def by (rule order_trans [OF transferred_le]) simp
    define h1 where "h1 = h\<lparr>fh_content := pwrite_bytes pos (take k p) (fh_content h)\<rparr>"
    have pos1: "pos + k \<le> length (fh_content h1)"
      using 1(3) k by (simp add: h1_def length_pwrite_bytes)
    have eq: "(case reply_error q of
         Some e \<Rightarrow> if e = EINTR then WriteAllAt_loop p pos h w1 else (Inl (ErrnoToCode e), h, w1)
       | None \<Rightarrow> if k = 0 then (Inl kIoError, h, w1)
                 else WriteAllAt_loop (drop k p) (pos + k) h1 w1) = (r, h', w')"
      using 1(4) unfolding WriteAllAt_loop.simps [of p pos h w] k_def h1_def
      by (cases "reply_error q") (simp_all add: sys False Let_def)
    show ?thesis
    proof (cases "reply_error q")
      case None
      show ?thesis
      proof (cases "k = 0")
        case True
        with eq None False show ?thesis by (auto simp: wrote_refl)
      next
        case k0: False
        from eq None False k0 have "WriteAllAt_loop (drop k p) (pos + k) h1 w1 = (r, h', w')"
          by simp
        with 1(1) [OF False refl sys [symmetric] None k_def k0, folded h1_def] pos1
        have "wrote (drop k p) (pos + k) h1 r h'" by blast
        then show ?thesis using wrote_step [of k p pos h r h'] 1(3) k by (simp add: h1_def)
      qed
    next
      case (Some e)
      show ?thesis
      proof (cases "e = EINTR")
        case True
        from eq Some True have "WriteAllAt_loop p pos h w1 = (r, h', w')" by simp
        from 1(2) [OF False refl sys [symmetric] Some True 1(3) this] show ?thesis .
      next
        case ne: False
        with eq Some False show ?thesis by (auto simp: wrote_refl)
      qed
    qed
  qed
qed


lemma WriteVectoredAt_loop_wrote:
  "pos \<le> length (fh_content h) \<Longrightarrow> [] \<notin> set vecs \<Longrightarrow> WriteVectoredAt_loop vecs pos h w = (r, h', w') \<Longrightarrow>
   wrote (concat vecs) pos h r h'"
proof (induction vecs pos h w arbitrary: r h' w' rule: WriteVectoredAt_loop.induct)
  case (1 vecs pos h w)
  show ?case
  proof (cases "vecs = []")
    case True
    with 1 show ?thesis by (simp add: WriteVectoredAt_loop.simps wrote_refl)
  next
    case False
    with 1(4) have nonempty: "concat vecs \<noteq> []" by (cases vecs) auto
    obtain q w1 where sys: "sys_call h w = (q, w1)" by fastforce
    define batch where "batch = concat (take kMaxIovecs vecs)"
    define k where "k = transferred q (length batch)"
    have kb: "k \<le> length batch" unfolding k_def by (rule transferred_le)
    have split: "concat vecs = batch @ concat (drop kMaxIovecs vecs)"
      by (simp add: batch_def flip: concat_append)
    have k: "k \<le> length (concat vecs)" "take k batch = take k (concat vecs)"
      using kb unfolding split by simp_all
    define h1 where "h1 = h\<lparr>fh_content := pwrite_bytes pos (take k batch) (fh_content h)\<rparr>"
    have pos1: "pos + k \<le> length (fh_content h1)"
      using 1(3) kb by (simp add: h1_def length_pwrite_bytes)
    have eq: "(case reply_error q of
         Some e \<Rightarrow> if e = EINTR then WriteVectoredAt_loop vecs pos h w1 else (Inl (ErrnoToCode e), h, w1)
       | None \<Rightarrow> if k = 0 then (Inl kIoError, h, w1)
                 else WriteVectoredAt_loop (advance_vecs k vecs) (pos + k) h1 w1) = (r, h', w')"
      using 1(5) unfolding WriteVectoredAt_loop.simps [of vecs pos h w] k_def h1_def batch_def
      by (cases "reply_error q") (simp_all add: sys False Let_def)
    consider e where "reply_error q = Some e" "e = EINTR" | e where "reply_error q = Some e" "e \<noteq> EINTR"
      | "reply_error q = None" "k = 0" | "reply_error q = None" "k \<noteq> 0"
      by (cases "reply_error q") auto
    then show ?thesis
    proof cases
      case (1 e)
      with eq show ?thesis
        using "1.IH"(2) [OF False refl sys [symmetric] 1 "1.prems"(1,2)] by simp
    next
      case 4
      with eq have "wrote (concat (advance_vecs k vecs)) (pos + k) h1 r h'"
        using "1.IH"(1) [OF False batch_def sys [symmetric] 4(1) k_def 4(2), folded h1_def, OF pos1]
          advance_vecs_nonempty [OF "1.prems"(2)] by simp
      then show ?thesis
        using wrote_step [of k "concat vecs" pos h r h'] "1.prems"(1) k
        by (simp add: concat_advance_vecs h1_def)
    qed (use eq nonempty in \<open>auto simp: wrote_refl simp del: concat_eq_Nil_conv\<close>)
  qed
qed

lemma WriteAllAt_wrote:
  "WriteAllAt d pos h w = (r, h', w') \<Longrightarrow> pos \<le> length (fh_content h) \<Longrightarrow> wrote d pos h r h'"
  by (simp add: WriteAllAt_def WriteAllAt_loop_wrote)

lemma concat_filter_nonempty: "concat (filter (\<lambda>c. c \<noteq> []) xs) = concat xs"
  by (induction xs) simp_all

lemma WriteVectoredAt_wrote:
  "WriteVectoredAt chunks pos h w = (r, h', w') \<Longrightarrow> pos \<le> length (fh_content h) \<Longrightarrow>
   wrote (concat chunks) pos h r h'"
  using WriteVectoredAt_loop_wrote [of pos h "filter (\<lambda>c. c \<noteq> []) chunks"]
  by (simp add: WriteVectoredAt_def concat_filter_nonempty)

text \<open>A read that succeeds returns exactly the bytes of the file at its place.\<close>

lemma ReadAt_loop_slice:
  "ReadAt_loop acc want pos h w = (Inr got, w') \<Longrightarrow> length acc \<le> want \<Longrightarrow>
   acc = slice pos (length acc) (fh_content h) \<Longrightarrow> got = slice pos want (fh_content h)"
proof (induction acc want pos h w rule: ReadAt_loop.induct)
  case (1 acc want pos h w)
  show ?case
  proof (cases "length acc < want")
    case False
    with 1 show ?thesis by (simp add: ReadAt_loop.simps)
  next
    case True
    obtain q w1 where sys: "sys_call h w = (q, w1)" by fastforce
    define avail where "avail = slice (pos + length acc) (want - length acc) (fh_content h)"
    define k where "k = max 1 (transferred q (length avail))"
    have nle: "(want \<le> length acc) = False" using True by simp
    have eq: "(case reply_error q of
         Some e \<Rightarrow> if e = EINTR then ReadAt_loop acc want pos h w1 else (Inl (ErrnoToCode e), w1)
       | None \<Rightarrow> if take k avail = [] then (Inr acc, w1) else ReadAt_loop (acc @ take k avail) want pos h w1)
       = (Inr got, w')"
      using 1(3) unfolding ReadAt_loop.simps [of acc want pos h w] k_def avail_def nle if_False sys prod.case Let_def .
    have k: "0 < k" by (simp add: k_def)
    consider e where "reply_error q = Some e" "e = EINTR" | e where "reply_error q = Some e" "e \<noteq> EINTR"
      | "reply_error q = None" "avail = []" | "reply_error q = None" "avail \<noteq> []"
      by (cases "reply_error q") auto
    then show ?thesis
    proof cases
      case (1 e)
      with eq show ?thesis using "1.IH"(2) [OF _ sys [symmetric] 1] True "1.prems"(2,3) by simp
    next
      case 3
      have "slice pos want (fh_content h) = acc @ avail"
        using slice_add [of pos "length acc" "want - length acc" "fh_content h"] True "1.prems"(3)
        by (simp add: avail_def)
      with 3 eq show ?thesis by simp
    next
      case 4
      let ?got = "take k avail"
      have "?got = slice (pos + length acc) (length ?got) (fh_content h)"
        unfolding avail_def slice_def by (simp add: min_def)
      then have a: "acc @ ?got = slice pos (length (acc @ ?got)) (fh_content h)"
        using slice_add [of pos "length acc" "length ?got" "fh_content h"] "1.prems"(3)
        by (simp del: length_take)
      have b: "length (acc @ ?got) \<le> want" using True by (simp add: avail_def)
      have c: "?got \<noteq> []" using 4 k by simp
      have d: "ReadAt_loop (acc @ ?got) want pos h w1 = (Inr got, w')"
        using eq 4(1) c by (simp only: option.case if_False)
      have e: "\<not> want \<le> length acc" using True by simp
      show ?thesis
        using "1.IH"(1) [OF e sys [symmetric] 4(1) avail_def refl, folded k_def, OF c d b a] .
    qed (use eq in auto)
  qed
qed

lemma ReadAt_slice: "ReadAt want pos h w = (Inr got, w') \<Longrightarrow> got = slice pos want (fh_content h)"
  unfolding ReadAt_def by (erule ReadAt_loop_slice) (simp_all add: slice_def)

lemma ReadExactAt_slice:
  "ReadExactAt want pos h w = (Inr got, w') \<Longrightarrow>
   got = slice pos want (fh_content h) \<and> length got = want"
  by (auto simp: ReadExactAt_def dest: ReadAt_slice split: prod.splits sum.splits if_splits)


text \<open>Truncating and flushing either happen or leave the file as it was.\<close>

lemma File_Truncate_cases:
  assumes "File_Truncate n h w = (r, h', w')"
  shows "(r = Inr () \<and> h' = h\<lparr>fh_content := resize n (fh_content h)\<rparr>) \<or> (r \<noteq> Inr () \<and> h' = h)"
  using assms by (auto simp: File_Truncate_def split: prod.splits sum.splits)

lemma File_Sync_cases:
  assumes "File_Sync mode h w = (r, h', w')"
  shows "(r = Inr () \<and> h' = h\<lparr>fh_durable := fh_content h\<rparr>) \<or> (r \<noteq> Inr () \<and> h' = h)"
  using assms by (auto simp: File_Sync_def split: prod.splits sum.splits)

lemma File_Size_Inr: "File_Size h w = (Inr n, w') \<Longrightarrow> n = length (fh_content h)"
  by (auto simp: File_Size_def split: prod.splits option.splits)

lemma File_Open_Inr:
  "File_Open existing w = (Inr f, w') \<Longrightarrow>
   fh_valid f \<and> fh_content f = (case existing of None \<Rightarrow> [] | Some b \<Rightarrow> b) \<and> fh_durable f = fh_content f"
proof (induction existing w rule: File_Open.induct)
  case (1 existing w)
  obtain q w1 where q: "next_reply w = (q, w1)" by fastforce
  show ?case
  proof (cases "reply_error q")
    case None
    with 1(2) q show ?thesis by (auto simp: File_Open.simps [of existing w] split: option.split)
  next
    case (Some e)
    with 1 q show ?thesis by (cases "e = EINTR") (simp_all add: File_Open.simps [of existing w])
  qed
qed

subsection \<open>A kernel that completes every call\<close>

definition quiet :: "os \<Rightarrow> bool" where
  "quiet w \<longleftrightarrow> os_replies w = []"

lemma sys_call_quiet: "quiet w \<Longrightarrow> fh_valid h \<Longrightarrow> sys_call h w = (Full, w)"
  by (simp add: quiet_def sys_call_def next_reply_def)

lemma reply_error_Full [simp]: "reply_error Full = None" "transferred Full n = n"
  by (simp_all add: reply_error_def transferred_def)

lemma retry_sys_quiet: "quiet w \<Longrightarrow> fh_valid h \<Longrightarrow> retry_sys h w = (Inr (), w)"
  by (simp add: retry_sys.simps [of h w] sys_call_quiet)

lemma File_Open_quiet:
  "quiet w \<Longrightarrow> File_Open existing w =
     (let b = (case existing of None \<Rightarrow> [] | Some b \<Rightarrow> b)
      in (Inr \<lparr>fh_valid = True, fh_content = b, fh_durable = b\<rparr>, w))"
  by (simp add: File_Open.simps [of existing w] quiet_def next_reply_def Let_def)

lemma WriteAllAt_loop_quiet:
  "quiet w \<Longrightarrow> fh_valid h \<Longrightarrow> \<exists>h'. WriteAllAt_loop p pos h w = (Inr (), h', w)"
proof (induction p pos h w rule: WriteAllAt_loop.induct)
  case (1 p pos h w)
  note sys = sys_call_quiet [OF 1(3,4)]
  have m: "min (length p) kMaxTransfer \<noteq> 0" if "p \<noteq> []"
    using that by (simp add: kMaxTransfer_def min_def)
  show ?case
    using 1(1) [OF _ refl sys [symmetric] _ refl] 1(3,4) m
    by (cases "p = []")
      (simp add: WriteAllAt_loop.simps [of "[]"], simp add: WriteAllAt_loop.simps [of p pos h w] sys Let_def)
qed

lemma WriteAllAt_quiet:
  assumes "quiet w" "fh_valid h" "pos \<le> length (fh_content h)"
  shows "WriteAllAt d pos h w = (Inr (), h\<lparr>fh_content := pwrite_bytes pos d (fh_content h)\<rparr>, w)"
proof -
  obtain h' where h': "WriteAllAt d pos h w = (Inr (), h', w)"
    using WriteAllAt_loop_quiet [OF assms(1,2), of d pos] by (auto simp: WriteAllAt_def)
  from WriteAllAt_wrote [OF h' assms(3)] show ?thesis by (auto simp: h' wrote_def)
qed

lemma ReadAt_loop_quiet:
  "quiet w \<Longrightarrow> fh_valid h \<Longrightarrow> \<exists>got. ReadAt_loop acc want pos h w = (Inr got, w)"
proof (induction acc want pos h w rule: ReadAt_loop.induct)
  case (1 acc want pos h w)
  note sys = sys_call_quiet [OF 1(3,4)]
  show ?case
    using 1(1) [OF _ sys [symmetric] _ refl refl] 1(3,4)
    unfolding ReadAt_loop.simps [of acc want pos h w] sys by (auto simp: Let_def)
qed

lemma ReadAt_quiet:
  assumes "quiet w" "fh_valid h"
  shows "ReadAt want pos h w = (Inr (slice pos want (fh_content h)), w)"
proof -
  obtain got where got: "ReadAt want pos h w = (Inr got, w)"
    using ReadAt_loop_quiet [OF assms, of "[]" want pos] by (auto simp: ReadAt_def)
  from ReadAt_slice [OF got] show ?thesis by (simp add: got)
qed

lemma ReadExactAt_quiet:
  assumes "quiet w" "fh_valid h" "pos + want \<le> length (fh_content h)"
  shows "ReadExactAt want pos h w = (Inr (slice pos want (fh_content h)), w)"
  using assms by (simp add: ReadExactAt_def ReadAt_quiet)

lemmas quiet_simps = retry_sys_quiet sys_call_quiet WriteAllAt_quiet ReadAt_quiet ReadExactAt_quiet
  File_Open_quiet

definition quiet_os :: os where
  "quiet_os = \<lparr>os_replies = [], os_wall = (\<lambda>n. 1700000000000), os_mono = (\<lambda>n. int n),
     os_free = (\<lambda>n. (8, 8)), os_tick = 0\<rparr>"

lemma quiet_quiet_os [simp]: "quiet quiet_os"
  by (simp add: quiet_def quiet_os_def)

section \<open>The contract of a write\<close>

lemma wrote_content:
  assumes "wrote d pos h r h'" "pos \<le> length (fh_content h)"
  shows "\<exists>n \<le> length d. fh_content h' = take pos (fh_content h) @ take n d @ drop (pos + n) (fh_content h) \<and>
    (r = Inr () \<longleftrightarrow> n = length d)"
proof -
  from assms(1) obtain n where n: "n \<le> length d" "r = Inr () \<longleftrightarrow> n = length d"
    "fh_content h' = pwrite_bytes pos (take n d) (fh_content h)" by (auto simp: wrote_def)
  have "pwrite_bytes pos (take n d) (fh_content h) = take pos (fh_content h) @ take n d @ drop (pos + n) (fh_content h)"
    using n(1) assms(2) by (auto simp: pwrite_bytes_def min_absorb2)
  with n show ?thesis by auto
qed

text \<open>
  C32: whatever the kernel answers -- short transfers, interrupts, errors, no progress -- a plain
  and a vectored write of the same data replace a prefix of the bytes at their position by a
  prefix of the data and touch nothing else; they report success exactly when all of the data
  was stored, and neither makes anything durable.
\<close>

theorem writes_store_a_prefix:
  assumes "pos \<le> length (fh_content h)" "concat chunks = d"
    and "WriteAllAt d pos h w = (r, h', w')" "WriteVectoredAt chunks pos h v = (q, g, v')"
  shows "(\<exists>n \<le> length d. fh_content h' = take pos (fh_content h) @ take n d @ drop (pos + n) (fh_content h) \<and>
      (r = Inr () \<longleftrightarrow> n = length d)) \<and>
    (\<exists>n \<le> length d. fh_content g = take pos (fh_content h) @ take n d @ drop (pos + n) (fh_content h) \<and>
      (q = Inr () \<longleftrightarrow> n = length d)) \<and>
    fh_durable h' = fh_durable h \<and> fh_durable g = fh_durable h"
proof -
  note a = WriteAllAt_wrote [OF assms(3,1)] and b = WriteVectoredAt_wrote [OF assms(4,1), unfolded assms(2)]
  from a b have "fh_durable h' = fh_durable h \<and> fh_durable g = fh_durable h" by (auto simp: wrote_def)
  with wrote_content [OF a assms(1)] wrote_content [OF b assms(1)] show ?thesis by blast
qed

text \<open>A vectored write that is cut after three bytes and then interrupted, and a plain one that fails.\<close>

theorem writes_store_a_prefix_witness:
  "let h = \<lparr>fh_valid = True, fh_content = [9, 9], fh_durable = []\<rparr>;
       (r, h', w') = WriteAllAt [1, 2, 3, 4] 1 h (quiet_os\<lparr>os_replies := [Short 3, Errno 5]\<rparr>);
       (q, g, v') = WriteVectoredAt [[1, 2], [3], [4]] 1 h (quiet_os\<lparr>os_replies := [Short 3, Errno EINTR]\<rparr>)
   in r \<noteq> Inr () \<and> fh_content h' = [9, 1, 2, 3] \<and> q = Inr () \<and> fh_content g = [9, 1, 2, 3, 4] \<and>
      fh_durable h' = [] \<and> fh_durable g = []"
proof -
  let ?h = "\<lparr>fh_valid = True, fh_content = [9, 9], fh_durable = []\<rparr> :: file_handle"
  obtain r h' w' where a: "WriteAllAt [1, 2, 3, 4] 1 ?h (quiet_os\<lparr>os_replies := [Short 3, Errno 5]\<rparr>) = (r, h', w')"
    using prod_cases3 by blast
  obtain q g v' where b: "WriteVectoredAt [[1, 2], [3], [4]] 1 ?h (quiet_os\<lparr>os_replies := [Short 3, Errno EINTR]\<rparr>)
      = (q, g, v')" using prod_cases3 by blast
  have ra: "r = Inl (ErrnoToCode 5)" "fh_content h' = [9, 1, 2, 3]"
    using a by (auto simp: WriteAllAt_def WriteAllAt_loop.simps kMaxTransfer_def Let_def sys_call_def
        next_reply_def quiet_os_def reply_error_def transferred_def EINTR_def pwrite_bytes_def)
  have rb: "q = Inr ()"
    using b by (simp add: WriteVectoredAt_def WriteVectoredAt_loop.simps kMaxIovecs_def Let_def sys_call_def
        next_reply_def quiet_os_def reply_error_def transferred_def EINTR_def)
  from writes_store_a_prefix [OF _ _ a b] rb
  have "fh_content g = [9, 1, 2, 3, 4]" "fh_durable h' = []" "fh_durable g = []" by simp_all
  with a b ra rb show ?thesis by simp
qed

end
