(* ===== verification/PL_Metadata.thy ===== *)
theory PL_Metadata
  imports PL_Omap PL_Text PL_Crc32c PL_Messages_Control PL_File
begin

text \<open>
  The cluster metadata of a broker (\<open>src/src/metadata/cluster_metadata.cc\<close>): the static broker
  list, the topics with their partition assignments, and the text file that keeps them across
  restarts.  Calls run one at a time, as the reader-writer lock makes them.
\<close>

section \<open>Text\<close>

definition find_char :: "char \<Rightarrow> string \<Rightarrow> nat option" where
  "find_char c s = (if c \<in> set s then Some (length (takeWhile (\<lambda>x. x \<noteq> c) s)) else None)"

definition rfind_char :: "char \<Rightarrow> string \<Rightarrow> nat option" where
  "rfind_char c s =
     (if c \<in> set s then Some (length s - 1 - length (takeWhile (\<lambda>x. x \<noteq> c) (rev s))) else None)"

function Split :: "char \<Rightarrow> string \<Rightarrow> string list" where
  "Split d text =
     (case find_char d text of
        None \<Rightarrow> [text]
      | Some n \<Rightarrow> take n text # Split d (drop (Suc n) text))"
  by pat_completeness auto
termination
  by (relation "measure (\<lambda>(d, text). length text)") (auto simp: find_char_def intro!: diff_less length_pos_if_in_set split: if_splits)

declare Split.simps [simp del]

definition ParseNumber :: "int \<Rightarrow> int \<Rightarrow> string \<Rightarrow> int option" where
  "ParseNumber lo hi text =
     (case from_chars lo hi text of
        Some (v, rest) \<Rightarrow> if rest = [] then Some v else None
      | None \<Rightarrow> None)"

abbreviation ParseI16 :: "string \<Rightarrow> int option" where
  "ParseI16 \<equiv> ParseNumber (- (2 ^ 15)) (2 ^ 15 - 1)"

abbreviation ParseI32 :: "string \<Rightarrow> int option" where
  "ParseI32 \<equiv> ParseNumber (- (2 ^ 31)) (2 ^ 31 - 1)"

abbreviation ParseI64 :: "string \<Rightarrow> int option" where
  "ParseI64 \<equiv> ParseNumber (- (2 ^ 63)) (2 ^ 63 - 1)"

abbreviation ParseU32 :: "string \<Rightarrow> int option" where
  "ParseU32 \<equiv> ParseNumber 0 (2 ^ 32 - 1)"

section \<open>State\<close>

record topic_config =
  tc_name :: string
  tc_partition_count :: int
  tc_replication_factor :: int
  tc_retention_ms :: int
  tc_segment_bytes :: int
  tc_compression :: u8

record partition_assignment =
  pa_index :: int
  pa_leader :: int
  pa_leader_epoch :: leader_epoch
  pa_replicas :: "int list"
  pa_in_sync_replicas :: "int list"

record topic_descriptor =
  td_config :: topic_config
  td_partitions :: "partition_assignment list"

record cluster_metadata =
  cm_brokers :: "broker_endpoint list"
  cm_topics :: "(string, topic_descriptor) omap"

definition EmptyMetadata :: cluster_metadata where
  "EmptyMetadata = \<lparr>cm_brokers = [], cm_topics = []\<rparr>"

definition HasReplica :: "int \<Rightarrow> partition_assignment \<Rightarrow> bool" where
  "HasReplica broker a \<longleftrightarrow> broker \<in> set (pa_replicas a)"

definition QuorumSize :: "partition_assignment \<Rightarrow> nat" where
  "QuorumSize a = length (pa_replicas a) div 2 + 1"

section \<open>Routing\<close>

definition PartitionForKey :: "bytes \<Rightarrow> int \<Rightarrow> int" where
  "PartitionForKey key partition_count =
     (if partition_count \<le> 1 then 0
      else let hash = Crc32c key AND 0x7FFFFFFF in uint hash mod partition_count)"

definition CoordinatorForGroup :: "string \<Rightarrow> broker_endpoint list \<Rightarrow> int" where
  "CoordinatorForGroup group_id brokers =
     (if brokers = [] then - 1
      else ep_id (brokers ! (unat (Crc32c (AsBytes group_id)) mod length brokers)))"

definition PartitionRoundRobin :: "nat \<Rightarrow> int \<Rightarrow> int" where
  "PartitionRoundRobin counter partition_count =
     (if partition_count \<le> 1 then 0 else int counter mod partition_count)"

section \<open>Brokers\<close>

definition parse_spec :: "string \<Rightarrow> broker_endpoint result" where
  "parse_spec spec =
     (case find_char CHR ''@'' spec of
        None \<Rightarrow> Inl kInvalidArgument
      | Some at \<Rightarrow>
          (case ParseI32 (take at spec) of
             None \<Rightarrow> Inl kInvalidArgument
           | Some i \<Rightarrow>
               if i < 0 then Inl kInvalidArgument
               else let address = drop (at + 1) spec in
                 (case rfind_char CHR '':'' address of
                    None \<Rightarrow> Inl kInvalidArgument
                  | Some colon \<Rightarrow>
                      (case ParseU32 (drop (colon + 1) address) of
                         None \<Rightarrow> Inl kInvalidArgument
                       | Some port \<Rightarrow>
                           if port = 0 \<or> port > 65535 then Inl kInvalidArgument
                           else Inr \<lparr>ep_id = i, ep_host = take colon address, ep_port = word_of_int port\<rparr>))))"

fun parse_specs :: "string list \<Rightarrow> broker_endpoint list result" where
  "parse_specs [] = Inr []"
| "parse_specs (spec # specs) =
     (case parse_spec spec of
        Inl e \<Rightarrow> Inl e
      | Inr b \<Rightarrow> (case parse_specs specs of Inl e \<Rightarrow> Inl e | Inr bs \<Rightarrow> Inr (b # bs)))"

definition SetBrokers :: "broker_endpoint list \<Rightarrow> cluster_metadata \<Rightarrow> cluster_metadata" where
  "SetBrokers brokers m = m\<lparr>cm_brokers := brokers\<rparr>"

fun duplicate_neighbours :: "int list \<Rightarrow> bool" where
  "duplicate_neighbours (a # b # xs) = (b = a \<or> duplicate_neighbours (b # xs))"
| "duplicate_neighbours _ = False"

definition SetBrokersFromSpec :: "string list \<Rightarrow> cluster_metadata \<Rightarrow> unit result \<times> cluster_metadata" where
  "SetBrokersFromSpec specs m =
     (case parse_specs specs of
        Inl e \<Rightarrow> (Inl e, m)
      | Inr bs \<Rightarrow>
          let brokers = sort_key ep_id bs in
          if duplicate_neighbours (map ep_id brokers) then (Inl kInvalidArgument, m)
          else (Inr (), SetBrokers brokers m))"

definition FindBroker :: "int \<Rightarrow> cluster_metadata \<Rightarrow> broker_endpoint option" where
  "FindBroker i m = find (\<lambda>b. ep_id b = i) (cm_brokers m)"

definition ControllerId :: "cluster_metadata \<Rightarrow> int" where
  "ControllerId m = (if cm_brokers m = [] then - 1 else ep_id (hd (cm_brokers m)))"

definition CoordinatorFor :: "string \<Rightarrow> cluster_metadata \<Rightarrow> int" where
  "CoordinatorFor group_id m = CoordinatorForGroup group_id (cm_brokers m)"

section \<open>Topics\<close>

definition place_partition :: "int list \<Rightarrow> nat \<Rightarrow> nat \<Rightarrow> nat \<Rightarrow> partition_assignment" where
  "place_partition ids replication topic_offset p =
     (let replicas = map (\<lambda>r. ids ! ((p + r + topic_offset) mod length ids)) [0..<replication] in
      \<lparr>pa_index = int p, pa_leader = hd replicas, pa_leader_epoch = 0, pa_replicas = replicas,
       pa_in_sync_replicas = replicas\<rparr>)"

definition ComputeAssignments :: "topic_config \<Rightarrow> cluster_metadata \<Rightarrow> partition_assignment list" where
  "ComputeAssignments config m =
     (let ids = map ep_id (cm_brokers m) in
      if ids = [] then []
      else let replication = min (to_u64 (tc_replication_factor config)) (length ids);
               topic_offset = unat (Crc32c (AsBytes (tc_name config))) mod length ids
           in map (place_partition ids replication topic_offset) [0..<nat (tc_partition_count config)])"

text \<open>The conversion of a count to a 16-bit signed integer.\<close>

definition to_i16 :: "nat \<Rightarrow> int" where
  "to_i16 n = sint (word_of_nat n :: 16 word)"

definition CreateTopic ::
  "topic_config \<Rightarrow> cluster_metadata \<Rightarrow> topic_descriptor result \<times> bool \<times> cluster_metadata" where
  "CreateTopic config m =
     (if \<not> IsValidTopicName (tc_name config) then (Inl kInvalidArgument, False, m)
      else if tc_partition_count config \<le> 0 then (Inl kInvalidArgument, False, m)
      else if tc_replication_factor config \<le> 0 then (Inl kInvalidArgument, False, m)
      else if cm_brokers m = [] then (Inl kUnavailable, False, m)
      else if tc_replication_factor config > to_i16 (length (cm_brokers m)) then (Inl kInvalidArgument, False, m)
      else case om_get (tc_name config) (cm_topics m) of
        Some existing \<Rightarrow>
          if tc_partition_count (td_config existing) \<noteq> tc_partition_count config \<or>
             tc_replication_factor (td_config existing) \<noteq> tc_replication_factor config
          then (Inl kAlreadyExists, False, m)
          else (Inr existing, False, m)
      | None \<Rightarrow>
          let descriptor = \<lparr>td_config = config, td_partitions = ComputeAssignments config m\<rparr> in
          (Inr descriptor, True, m\<lparr>cm_topics := om_put (tc_name config) descriptor (cm_topics m)\<rparr>))"

definition UpsertTopic :: "topic_descriptor \<Rightarrow> cluster_metadata \<Rightarrow> unit result \<times> cluster_metadata" where
  "UpsertTopic descriptor m =
     (if \<not> IsValidTopicName (tc_name (td_config descriptor)) then (Inl kInvalidArgument, m)
      else (Inr (), m\<lparr>cm_topics := om_put (tc_name (td_config descriptor)) descriptor (cm_topics m)\<rparr>))"

definition DeleteTopic :: "string \<Rightarrow> cluster_metadata \<Rightarrow> unit result \<times> cluster_metadata" where
  "DeleteTopic name m =
     (if om_get name (cm_topics m) = None then (Inl kNotFound, m)
      else (Inr (), m\<lparr>cm_topics := om_erase name (cm_topics m)\<rparr>))"

definition HasTopic :: "string \<Rightarrow> cluster_metadata \<Rightarrow> bool" where
  "HasTopic name m \<longleftrightarrow> om_get name (cm_topics m) \<noteq> None"

definition GetTopic :: "string \<Rightarrow> cluster_metadata \<Rightarrow> topic_descriptor result" where
  "GetTopic name m = (case om_get name (cm_topics m) of None \<Rightarrow> Inl kNotFound | Some d \<Rightarrow> Inr d)"

definition ListTopics :: "cluster_metadata \<Rightarrow> topic_descriptor list" where
  "ListTopics m = map snd (cm_topics m)"

definition GetPartition :: "string \<Rightarrow> int \<Rightarrow> cluster_metadata \<Rightarrow> partition_assignment result" where
  "GetPartition topic p m =
     (case om_get topic (cm_topics m) of
        None \<Rightarrow> Inl kNotFound
      | Some d \<Rightarrow>
          if p < 0 \<or> to_u64 p \<ge> length (td_partitions d) then Inl kNotFound
          else Inr (td_partitions d ! to_u64 p))"

definition partitions_where ::
  "(partition_assignment \<Rightarrow> bool) \<Rightarrow> cluster_metadata \<Rightarrow> topic_partition list" where
  "partitions_where P m =
     concat (map (\<lambda>(name, d). map (\<lambda>a. TopicPartition name (pa_index a)) (filter P (td_partitions d))) (cm_topics m))"

definition PartitionsLedBy :: "int \<Rightarrow> cluster_metadata \<Rightarrow> topic_partition list" where
  "PartitionsLedBy broker m = partitions_where (\<lambda>a. pa_leader a = broker) m"

definition PartitionsHostedBy :: "int \<Rightarrow> cluster_metadata \<Rightarrow> topic_partition list" where
  "PartitionsHostedBy broker m = partitions_where (HasReplica broker) m"

definition UpdateInSyncReplicas ::
  "string \<Rightarrow> int \<Rightarrow> int list \<Rightarrow> cluster_metadata \<Rightarrow> unit result \<times> cluster_metadata" where
  "UpdateInSyncReplicas topic p in_sync m =
     (case om_get topic (cm_topics m) of
        None \<Rightarrow> (Inl kNotFound, m)
      | Some d \<Rightarrow>
          let i = to_u64 p in
          if i \<ge> length (td_partitions d) then (Inl kNotFound, m)
          else let a = (td_partitions d ! i)\<lparr>pa_in_sync_replicas := in_sync\<rparr> in
            (Inr (), m\<lparr>cm_topics := om_put topic (d\<lparr>td_partitions := (td_partitions d)[i := a]\<rparr>) (cm_topics m)\<rparr>))"

definition SetLeader :: "string \<Rightarrow> int \<Rightarrow> int \<Rightarrow> cluster_metadata \<Rightarrow> unit result \<times> cluster_metadata" where
  "SetLeader topic p leader m =
     (case om_get topic (cm_topics m) of
        None \<Rightarrow> (Inl kNotFound, m)
      | Some d \<Rightarrow>
          let i = to_u64 p in
          if i \<ge> length (td_partitions d) then (Inl kNotFound, m)
          else let a = td_partitions d ! i in
            if \<not> HasReplica leader a then (Inl kInvalidArgument, m)
            else if pa_leader a = leader then (Inr (), m)
            else let a' = a\<lparr>pa_leader := leader, pa_leader_epoch := pa_leader_epoch a + 1\<rparr> in
              (Inr (), m\<lparr>cm_topics := om_put topic (d\<lparr>td_partitions := (td_partitions d)[i := a']\<rparr>) (cm_topics m)\<rparr>))"

section \<open>Persistence\<close>

definition kFileHeader :: string where
  "kFileHeader = ''pulselog-metadata v1''"

abbreviation tab :: char where "tab \<equiv> CHR 0x09"
abbreviation newline :: char where "newline \<equiv> CHR 0x0A"

fun join_fields :: "char \<Rightarrow> string list \<Rightarrow> string" where
  "join_fields d [] = []"
| "join_fields d [x] = x"
| "join_fields d (x # y # xs) = x @ d # join_fields d (y # xs)"

definition topic_line :: "topic_config \<Rightarrow> string" where
  "topic_line c =
     join_fields tab [''topic'', tc_name c, to_string (tc_partition_count c), to_string (tc_replication_factor c),
       to_string (tc_retention_ms c), to_string (tc_segment_bytes c), to_string (uint (tc_compression c))]"

definition partition_line :: "string \<Rightarrow> partition_assignment \<Rightarrow> string" where
  "partition_line name a =
     join_fields tab [''partition'', name, to_string (pa_index a), to_string (pa_leader a),
       to_string (pa_leader_epoch a), join_fields CHR '','' (map to_string (pa_replicas a))]"

definition topic_lines :: "topic_descriptor \<Rightarrow> string list" where
  "topic_lines d =
     topic_line (td_config d) # map (partition_line (tc_name (td_config d))) (td_partitions d)"

definition save_text :: "cluster_metadata \<Rightarrow> string" where
  "save_text m =
     concat (map (\<lambda>l. l @ [newline]) (kFileHeader # concat (map (\<lambda>(_, d). topic_lines d) (cm_topics m))))"

text \<open>
  \<open>SaveTo\<close> writes a temporary file and renames it; \<open>existing\<close> is what the path holds.  The three
  calls that can fail are the opening, the writing and the renaming.
\<close>

definition SaveTo :: "string option \<Rightarrow> cluster_metadata \<Rightarrow> os \<Rightarrow> unit result \<times> string option \<times> os" where
  "SaveTo existing m w =
     (case next_reply w of (q1, w1) \<Rightarrow>
      if reply_error q1 \<noteq> None then (Inl kIoError, existing, w1)
      else case next_reply w1 of (q2, w2) \<Rightarrow>
      if reply_error q2 \<noteq> None then (Inl kIoError, existing, w2)
      else case next_reply w2 of (q3, w3) \<Rightarrow>
      if reply_error q3 \<noteq> None then (Inl kIoError, existing, w3)
      else (Inr (), Some (save_text m), w3))"

text \<open>\<open>std::getline\<close> until the end of the stream: a last line need not end in a newline.\<close>

function getlines :: "string \<Rightarrow> string list" where
  "getlines text =
     (if text = [] then []
      else let line = takeWhile (\<lambda>c. c \<noteq> newline) text in line # getlines (drop (Suc (length line)) text))"
  by pat_completeness auto
termination
  by (relation "measure length") auto

declare getlines.simps [simp del]

definition parse_replicas :: "string \<Rightarrow> int list" where
  "parse_replicas field =
     List.map_filter (\<lambda>replica. if replica \<noteq> [] then ParseI32 replica else None) (Split CHR '','' field)"

definition parse_topic :: "string list \<Rightarrow> topic_config option" where
  "parse_topic parts =
     (case (ParseI32 (parts ! 2), ParseI16 (parts ! 3), ParseI64 (parts ! 4), ParseI64 (parts ! 5),
            ParseI32 (parts ! 6)) of
        (Some pc, Some rf, Some ms, Some sb, Some co) \<Rightarrow>
          Some \<lparr>tc_name = parts ! 1, tc_partition_count = pc, tc_replication_factor = rf, tc_retention_ms = ms,
                tc_segment_bytes = sb, tc_compression = word_of_int co\<rparr>
      | _ \<Rightarrow> None)"

definition parse_partition :: "string list \<Rightarrow> partition_assignment option" where
  "parse_partition parts =
     (case (ParseI32 (parts ! 2), ParseI32 (parts ! 3), ParseI64 (parts ! 4)) of
        (Some i, Some leader, Some ep) \<Rightarrow>
          let replicas = parse_replicas (parts ! 5) in
          Some \<lparr>pa_index = i, pa_leader = leader, pa_leader_epoch = ep, pa_replicas = replicas,
                pa_in_sync_replicas = replicas\<rparr>
      | _ \<Rightarrow> None)"

definition load_line ::
  "string \<Rightarrow> (string, topic_descriptor) omap \<Rightarrow> (string, topic_descriptor) omap result" where
  "load_line line loaded =
     (if line = [] then Inr loaded
      else let parts = Split tab line in
        if parts ! 0 = ''topic'' then
          (if length parts < 7 then Inl kCorruption
           else case parse_topic parts of
             None \<Rightarrow> Inl kCorruption
           | Some c \<Rightarrow> Inr (om_put (tc_name c) \<lparr>td_config = c, td_partitions = []\<rparr> loaded))
        else if parts ! 0 = ''partition'' then
          (if length parts < 6 then Inl kCorruption
           else case om_get (parts ! 1) loaded of
             None \<Rightarrow> Inl kCorruption
           | Some d \<Rightarrow>
               (case parse_partition parts of
                  None \<Rightarrow> Inl kCorruption
                | Some a \<Rightarrow>
                    Inr (om_put (parts ! 1) (d\<lparr>td_partitions := td_partitions d @ [a]\<rparr>) loaded)))
        else Inr loaded)"

fun load_lines ::
  "string list \<Rightarrow> (string, topic_descriptor) omap \<Rightarrow> (string, topic_descriptor) omap result" where
  "load_lines [] loaded = Inr loaded"
| "load_lines (l # ls) loaded = (case load_line l loaded of Inl e \<Rightarrow> Inl e | Inr loaded' \<Rightarrow> load_lines ls loaded')"

definition dense :: "partition_assignment list \<Rightarrow> bool" where
  "dense ps \<longleftrightarrow> list_all (\<lambda>i. pa_index (ps ! i) = int i) [0..<length ps]"

definition sort_partitions :: "topic_descriptor \<Rightarrow> topic_descriptor" where
  "sort_partitions d = d\<lparr>td_partitions := sort_key pa_index (td_partitions d)\<rparr>"

definition LoadFrom :: "string option \<Rightarrow> cluster_metadata \<Rightarrow> unit result \<times> cluster_metadata" where
  "LoadFrom file m =
     (case file of
        None \<Rightarrow> (Inl kNotFound, m)
      | Some text \<Rightarrow>
          (case getlines text of
             [] \<Rightarrow> (Inl kCorruption, m)
           | header # ls \<Rightarrow>
               if header \<noteq> kFileHeader then (Inl kCorruption, m)
               else (case load_lines ls [] of
                  Inl e \<Rightarrow> (Inl e, m)
                | Inr loaded \<Rightarrow>
                    let topics = map (\<lambda>(name, d). (name, sort_partitions d)) loaded in
                    if \<not> list_all (\<lambda>(name, d). dense (td_partitions d)) topics then (Inl kCorruption, m)
                    else (Inr (), m\<lparr>cm_topics := topics\<rparr>))))"

section \<open>The METADATA response\<close>

definition topic_metadata_of :: "topic_descriptor \<Rightarrow> topic_metadata" where
  "topic_metadata_of d =
     \<lparr>tm_name = tc_name (td_config d),
      tm_partitions =
        map (\<lambda>a. \<lparr>pm_index = pa_index a, pm_leader = pa_leader a, pm_leader_epoch = pa_leader_epoch a,
                   pm_replicas = pa_replicas a, pm_in_sync_replicas = pa_in_sync_replicas a\<rparr>) (td_partitions d)\<rparr>"

definition BuildMetadataResponse :: "string list \<Rightarrow> cluster_metadata \<Rightarrow> metadata_response" where
  "BuildMetadataResponse requested m =
     \<lparr>mdr_header = \<lparr>rh_error = kOk, rh_message = ''''\<rparr>, mdr_controller_id = ControllerId m,
      mdr_brokers = cm_brokers m,
      mdr_topics =
        map topic_metadata_of
          (if requested = [] then ListTopics m
           else List.map_filter (\<lambda>name. om_get name (cm_topics m)) requested)\<rparr>"

end
