(* ===== verification/PL_Offset_Index.thy ===== *)
theory PL_Offset_Index
  imports PL_File PL_Endian
begin

text \<open>
  The sparse indexes of a segment (\<open>include/pulselog/storage/offset_index.h\<close>,
  \<open>src/storage/offset_index.cc\<close>): \<open>OffsetIndex\<close> maps record offsets to file positions,
  \<open>TimeIndex\<close> maps timestamps to record offsets.  Both keep an array of fixed-width entries in
  memory and in a file.  The locale \<open>entry_codec\<close> states what makes such a file readable again
  and is interpreted on the entries of both indexes.
\<close>

section \<open>Entries\<close>

definition kIndexEntryBytes :: nat where "kIndexEntryBytes = 8"
definition kTimeIndexEntryBytes :: nat where "kTimeIndexEntryBytes = 12"

record offset_index_entry =
  oe_relative_offset :: u32
  oe_file_position :: u32

record time_index_entry =
  te_timestamp :: timestamp_ms
  te_relative_offset :: u32

definition encode_offset_entry :: "offset_index_entry \<Rightarrow> bytes" where
  "encode_offset_entry e = StoreLe32 (oe_relative_offset e) @ StoreLe32 (oe_file_position e)"

definition decode_offset_entry :: "bytes \<Rightarrow> offset_index_entry" where
  "decode_offset_entry raw =
     \<lparr>oe_relative_offset = LoadLe32 raw, oe_file_position = LoadLe32 (drop 4 raw)\<rparr>"

definition encode_time_entry :: "time_index_entry \<Rightarrow> bytes" where
  "encode_time_entry e = StoreLeI64 (te_timestamp e) @ StoreLe32 (te_relative_offset e)"

definition decode_time_entry :: "bytes \<Rightarrow> time_index_entry" where
  "decode_time_entry raw = \<lparr>te_timestamp = LoadLeI64 raw, te_relative_offset = LoadLe32 (drop 8 raw)\<rparr>"

text \<open>
  The loop of both \<open>Open\<close> methods: decode entries until one is out of order, and report where the
  file has to be cut.
\<close>

function load_entries ::
  "nat \<Rightarrow> (bytes \<Rightarrow> 'e) \<Rightarrow> ('e \<Rightarrow> int) \<Rightarrow> (int \<Rightarrow> int \<Rightarrow> bool) \<Rightarrow>
   bytes \<Rightarrow> nat \<Rightarrow> int \<Rightarrow> 'e list \<Rightarrow> 'e list \<times> nat option" where
  "load_entries width dec key disorder raw pos previous acc =
     (if 0 < width \<and> pos + width \<le> length raw
      then let entry = dec (drop pos raw)
           in if disorder (key entry) previous then (acc, Some pos)
              else load_entries width dec key disorder raw (pos + width) (key entry) (acc @ [entry])
      else (acc, None))"
  by auto
termination
  by (relation "measure (\<lambda>(width, dec, key, disorder, raw, pos, previous, acc). length raw - pos)") auto

declare load_entries.simps [simp del]

section \<open>OffsetIndex\<close>

record offset_index =
  oi_file :: file_handle
  oi_entries :: "offset_index_entry list"
  oi_base_offset :: offset

definition NewOffsetIndex :: offset_index where
  "NewOffsetIndex = \<lparr>oi_file = ClosedFile, oi_entries = [], oi_base_offset = 0\<rparr>"

definition OffsetIndex_load :: "nat \<Rightarrow> offset_index \<Rightarrow> os \<Rightarrow> unit result \<times> offset_index \<times> os" where
  "OffsetIndex_load whole ix w =
     (if whole = 0 then (Inr (), ix, w)
      else case ReadExactAt whole 0 (oi_file ix) w of
        (Inl e, w') \<Rightarrow> (Inl e, ix, w')
      | (Inr raw, w') \<Rightarrow>
          (case load_entries kIndexEntryBytes decode_offset_entry (\<lambda>e. uint (oe_relative_offset e))
                  (\<le>) raw 0 (- 1) [] of
             (entries, None) \<Rightarrow> (Inr (), ix\<lparr>oi_entries := entries\<rparr>, w')
           | (entries, Some pos) \<Rightarrow>
               (case File_Truncate pos (oi_file ix) w' of
                  (st, f, w'') \<Rightarrow> (st, ix\<lparr>oi_entries := entries, oi_file := f\<rparr>, w''))))"

definition OffsetIndex_Open ::
  "bytes option \<Rightarrow> offset \<Rightarrow> offset_index \<Rightarrow> os \<Rightarrow> unit result \<times> offset_index \<times> os" where
  "OffsetIndex_Open existing base ix0 w =
     (let ix = ix0\<lparr>oi_base_offset := base, oi_entries := []\<rparr> in
      case File_Open existing w of
        (Inl e, w1) \<Rightarrow> (Inl e, ix, w1)
      | (Inr f, w1) \<Rightarrow>
          (case File_Size f w1 of
             (Inl e, w2) \<Rightarrow> (Inl e, ix\<lparr>oi_file := f\<rparr>, w2)
           | (Inr sz, w2) \<Rightarrow>
               let whole = sz - sz mod kIndexEntryBytes in
               if whole \<noteq> sz then
                 (case File_Truncate whole f w2 of
                    (Inl e, f', w3) \<Rightarrow> (Inl e, ix\<lparr>oi_file := f'\<rparr>, w3)
                  | (Inr _, f', w3) \<Rightarrow> OffsetIndex_load whole (ix\<lparr>oi_file := f'\<rparr>) w3)
               else OffsetIndex_load whole (ix\<lparr>oi_file := f\<rparr>) w2))"

definition kU32Max :: int where "kU32Max = 4294967295"

definition OffsetIndex_Append ::
  "offset \<Rightarrow> nat \<Rightarrow> offset_index \<Rightarrow> os \<Rightarrow> unit result \<times> offset_index \<times> os" where
  "OffsetIndex_Append off position ix w =
     (let relative = off - oi_base_offset ix in
      if relative < 0 \<or> relative > kU32Max then (Inl kInvalidArgument, ix, w)
      else if int position > kU32Max then (Inl kInvalidArgument, ix, w)
      else if oi_entries ix \<noteq> [] \<and>
              word_of_int relative \<le> oe_relative_offset (last (oi_entries ix))
      then (Inl kInvalidArgument, ix, w)
      else let entry = \<lparr>oe_relative_offset = word_of_int relative, oe_file_position = of_nat position\<rparr> in
        case WriteAllAt (encode_offset_entry entry) (length (oi_entries ix) * kIndexEntryBytes)
               (oi_file ix) w of
          (Inl e, f, w') \<Rightarrow> (Inl e, ix\<lparr>oi_file := f\<rparr>, w')
        | (Inr _, f, w') \<Rightarrow> (Inr (), ix\<lparr>oi_file := f, oi_entries := oi_entries ix @ [entry]\<rparr>, w'))"

definition LookupFloor :: "offset \<Rightarrow> offset_index \<Rightarrow> offset_index_entry option" where
  "LookupFloor target ix =
     (if oi_entries ix = [] \<or> target < oi_base_offset ix then None
      else let relative = target - oi_base_offset ix in
        if relative > kU32Max then Some (last (oi_entries ix))
        else let it = partition_index (\<lambda>e. \<not> (word_of_int relative < oe_relative_offset e)) (oi_entries ix)
             in if it = 0 then None else Some (oi_entries ix ! (it - 1)))"

definition OffsetIndex_TruncateFrom ::
  "offset \<Rightarrow> offset_index \<Rightarrow> os \<Rightarrow> unit result \<times> offset_index \<times> os" where
  "OffsetIndex_TruncateFrom off ix w =
     (let relative = off - oi_base_offset ix;
          keep = partition_index (\<lambda>e. uint (oe_relative_offset e) < relative) (oi_entries ix)
      in if keep = length (oi_entries ix) then (Inr (), ix, w)
         else case File_Truncate (keep * kIndexEntryBytes) (oi_file ix) w of
           (st, f, w') \<Rightarrow> (st, ix\<lparr>oi_entries := take keep (oi_entries ix), oi_file := f\<rparr>, w'))"

definition OffsetIndex_Sync :: "offset_index \<Rightarrow> os \<Rightarrow> unit result \<times> offset_index \<times> os" where
  "OffsetIndex_Sync ix w =
     (if \<not> fh_valid (oi_file ix) then (Inr (), ix, w)
      else case File_SyncData (oi_file ix) w of (st, f, w') \<Rightarrow> (st, ix\<lparr>oi_file := f\<rparr>, w'))"

definition OffsetIndex_Close :: "offset_index \<Rightarrow> offset_index" where
  "OffsetIndex_Close ix = ix\<lparr>oi_file := File_Close (oi_file ix), oi_entries := []\<rparr>"

definition EntryCount :: "offset_index \<Rightarrow> nat" where
  "EntryCount ix = length (oi_entries ix)"

definition OffsetIndex_BytesOnDisk :: "offset_index \<Rightarrow> nat" where
  "OffsetIndex_BytesOnDisk ix = length (oi_entries ix) * kIndexEntryBytes"

definition LastIndexedPosition :: "offset_index \<Rightarrow> nat" where
  "LastIndexedPosition ix =
     (if oi_entries ix = [] then 0 else unat (oe_file_position (last (oi_entries ix))))"

definition LastIndexedOffset :: "offset_index \<Rightarrow> offset" where
  "LastIndexedOffset ix =
     (if oi_entries ix = [] then oi_base_offset ix
      else oi_base_offset ix + uint (oe_relative_offset (last (oi_entries ix))))"

section \<open>TimeIndex\<close>

record time_index =
  ti_file :: file_handle
  ti_entries :: "time_index_entry list"
  ti_base_offset :: offset

definition NewTimeIndex :: time_index where
  "NewTimeIndex = \<lparr>ti_file = ClosedFile, ti_entries = [], ti_base_offset = 0\<rparr>"

definition TimeIndex_load :: "nat \<Rightarrow> time_index \<Rightarrow> os \<Rightarrow> unit result \<times> time_index \<times> os" where
  "TimeIndex_load whole ix w =
     (if whole = 0 then (Inr (), ix, w)
      else case ReadExactAt whole 0 (ti_file ix) w of
        (Inl e, w') \<Rightarrow> (Inl e, ix, w')
      | (Inr raw, w') \<Rightarrow>
          (case load_entries kTimeIndexEntryBytes decode_time_entry te_timestamp (<) raw 0 (- 1) [] of
             (entries, None) \<Rightarrow> (Inr (), ix\<lparr>ti_entries := entries\<rparr>, w')
           | (entries, Some pos) \<Rightarrow>
               (case File_Truncate pos (ti_file ix) w' of
                  (st, f, w'') \<Rightarrow> (st, ix\<lparr>ti_entries := entries, ti_file := f\<rparr>, w''))))"

definition TimeIndex_Open ::
  "bytes option \<Rightarrow> offset \<Rightarrow> time_index \<Rightarrow> os \<Rightarrow> unit result \<times> time_index \<times> os" where
  "TimeIndex_Open existing base ix0 w =
     (let ix = ix0\<lparr>ti_base_offset := base, ti_entries := []\<rparr> in
      case File_Open existing w of
        (Inl e, w1) \<Rightarrow> (Inl e, ix, w1)
      | (Inr f, w1) \<Rightarrow>
          (case File_Size f w1 of
             (Inl e, w2) \<Rightarrow> (Inl e, ix\<lparr>ti_file := f\<rparr>, w2)
           | (Inr sz, w2) \<Rightarrow>
               let whole = sz - sz mod kTimeIndexEntryBytes in
               if whole \<noteq> sz then
                 (case File_Truncate whole f w2 of
                    (Inl e, f', w3) \<Rightarrow> (Inl e, ix\<lparr>ti_file := f'\<rparr>, w3)
                  | (Inr _, f', w3) \<Rightarrow> TimeIndex_load whole (ix\<lparr>ti_file := f'\<rparr>) w3)
               else TimeIndex_load whole (ix\<lparr>ti_file := f\<rparr>) w2))"

definition TimeIndex_Append ::
  "timestamp_ms \<Rightarrow> offset \<Rightarrow> time_index \<Rightarrow> os \<Rightarrow> unit result \<times> time_index \<times> os" where
  "TimeIndex_Append timestamp off ix w =
     (if ti_entries ix \<noteq> [] \<and> timestamp < te_timestamp (last (ti_entries ix)) then (Inr (), ix, w)
      else let relative = off - ti_base_offset ix in
        if relative < 0 \<or> relative > kU32Max then (Inl kInvalidArgument, ix, w)
        else let entry = \<lparr>te_timestamp = timestamp, te_relative_offset = word_of_int relative\<rparr> in
          case WriteAllAt (encode_time_entry entry) (length (ti_entries ix) * kTimeIndexEntryBytes)
                 (ti_file ix) w of
            (Inl e, f, w') \<Rightarrow> (Inl e, ix\<lparr>ti_file := f\<rparr>, w')
          | (Inr _, f, w') \<Rightarrow> (Inr (), ix\<lparr>ti_file := f, ti_entries := ti_entries ix @ [entry]\<rparr>, w'))"

definition LookupCeiling :: "timestamp_ms \<Rightarrow> time_index \<Rightarrow> offset option" where
  "LookupCeiling timestamp ix =
     (if ti_entries ix = [] then None
      else let it = partition_index (\<lambda>e. te_timestamp e < timestamp) (ti_entries ix)
           in if it = length (ti_entries ix) then None
              else Some (ti_base_offset ix + uint (te_relative_offset (ti_entries ix ! it))))"

definition TimeIndex_TruncateFrom ::
  "offset \<Rightarrow> time_index \<Rightarrow> os \<Rightarrow> unit result \<times> time_index \<times> os" where
  "TimeIndex_TruncateFrom off ix w =
     (let relative = off - ti_base_offset ix;
          keep = partition_index (\<lambda>e. uint (te_relative_offset e) < relative) (ti_entries ix)
      in if keep = length (ti_entries ix) then (Inr (), ix, w)
         else case File_Truncate (keep * kTimeIndexEntryBytes) (ti_file ix) w of
           (st, f, w') \<Rightarrow> (st, ix\<lparr>ti_entries := take keep (ti_entries ix), ti_file := f\<rparr>, w'))"

definition TimeIndex_Sync :: "time_index \<Rightarrow> os \<Rightarrow> unit result \<times> time_index \<times> os" where
  "TimeIndex_Sync ix w =
     (if \<not> fh_valid (ti_file ix) then (Inr (), ix, w)
      else case File_SyncData (ti_file ix) w of (st, f, w') \<Rightarrow> (st, ix\<lparr>ti_file := f\<rparr>, w'))"

definition TimeIndex_Close :: "time_index \<Rightarrow> time_index" where
  "TimeIndex_Close ix = ix\<lparr>ti_file := File_Close (ti_file ix), ti_entries := []\<rparr>"

definition MaxTimestamp_indexed :: "time_index \<Rightarrow> timestamp_ms" where
  "MaxTimestamp_indexed ix = (if ti_entries ix = [] then - 1 else te_timestamp (last (ti_entries ix)))"


section \<open>Files of fixed-width entries\<close>

text \<open>Entries read in order: none is out of order with the one before it.\<close>

fun in_order :: "(int \<Rightarrow> int \<Rightarrow> bool) \<Rightarrow> int \<Rightarrow> int list \<Rightarrow> bool" where
  "in_order disorder previous [] = True"
| "in_order disorder previous (k # ks) = (\<not> disorder k previous \<and> in_order disorder k ks)"

lemma in_order_snoc:
  "in_order disorder previous (ks @ [k]) \<longleftrightarrow>
     in_order disorder previous ks \<and> \<not> disorder k (last (previous # ks))"
  by (induction ks arbitrary: previous) auto

lemma in_order_le: "in_order (\<le>) previous ks \<longleftrightarrow> sorted_wrt (<) (previous # ks)"
proof (induction ks arbitrary: previous)
  case (Cons k ks)
  have "sorted_wrt (<) (previous # k # ks) \<longleftrightarrow> previous < k \<and> sorted_wrt (<) (k # ks)"
    by (rule sorted_wrt2) (rule transp_on_less)
  with Cons [of k] show ?case by (simp only: in_order.simps not_le)
qed simp

lemma in_order_less: "in_order (<) previous ks \<longleftrightarrow> sorted (previous # ks)"
proof (induction ks arbitrary: previous)
  case (Cons k ks)
  then show ?case by (simp only: in_order.simps not_less sorted2)
qed simp

lemma in_order_take: "in_order disorder previous ks \<Longrightarrow> in_order disorder previous (take n ks)"
  by (induction ks arbitrary: previous n) (auto simp: take_Cons split: nat.split)

text \<open>The file begins with the encodings of the entries.\<close>

definition stored :: "nat \<Rightarrow> ('e \<Rightarrow> bytes) \<Rightarrow> 'e list \<Rightarrow> bytes \<Rightarrow> bool" where
  "stored width enc es f \<longleftrightarrow> take (length es * width) f = concat (map enc es)"

text \<open>Whatever a file holds, the entries kept are in order, and the cut is behind them.\<close>

lemma load_entries_in_order:
  assumes "load_entries width dec key disorder raw pos previous acc = (es, stop)"
    and "in_order disorder p0 (map key acc)" "previous = last (p0 # map key acc)" "pos = length acc * width"
  shows "in_order disorder p0 (map key es) \<and> (\<forall>c. stop = Some c \<longrightarrow> c = length es * width)"
  using assms
proof (induction width dec key disorder raw pos previous acc arbitrary: es stop rule: load_entries.induct)
  case (1 width dec key disorder raw pos previous acc)
  define entry where "entry = dec (drop pos raw)"
  have eq: "(if 0 < width \<and> pos + width \<le> length raw
      then if disorder (key entry) previous then (acc, Some pos)
           else load_entries width dec key disorder raw (pos + width) (key entry) (acc @ [entry])
      else (acc, None)) = (es, stop)"
    using 1(2) unfolding load_entries.simps [of width dec key disorder raw pos previous acc] Let_def entry_def .
  show ?case
  proof (cases "(0 < width \<and> pos + width \<le> length raw) \<and> \<not> disorder (key entry) previous")
    case True
    then have rec: "load_entries width dec key disorder raw (pos + width) (key entry) (acc @ [entry]) = (es, stop)"
      using eq by simp
    have ord: "in_order disorder p0 (map key (acc @ [entry]))"
      using True 1(3,4) by (simp add: in_order_snoc)
    have at: "pos + width = length (acc @ [entry]) * width"
      using 1(5) by simp
    show ?thesis
      by (rule 1(1) [OF conjunct1 [OF True] entry_def conjunct2 [OF True] rec ord _ at]) simp
  next
    case False
    with eq 1(3,5) show ?thesis by (auto split: if_splits)
  qed
qed

locale entry_codec =
  fixes width :: nat
    and enc :: "'e \<Rightarrow> bytes"
    and dec :: "bytes \<Rightarrow> 'e"
    and good :: "'e \<Rightarrow> bool"
  assumes width_pos: "0 < width"
    and length_enc: "length (enc e) = width"
    and dec_enc: "good e \<Longrightarrow> dec (enc e @ rest) = e"
    and enc_dec: "width \<le> length raw \<Longrightarrow> enc (dec raw) = take width raw"
begin

lemma length_encs: "length (concat (map enc es)) = length es * width"
  by (induction es) (simp_all add: length_enc)

lemma stored_length: "stored width enc es f \<Longrightarrow> length es * width \<le> length f"
  unfolding stored_def using length_encs [of es]
  by (metis length_take min.bounded_iff order_refl)

lemma stored_Nil [simp]: "stored width enc [] f"
  by (simp add: stored_def)

lemma stored_take:
  assumes "stored width enc es f"
  shows "stored width enc (take n es) f" and "stored width enc (take n es) (resize (length (take n es) * width) f)"
proof -
  have "length (take n es) * width \<le> length es * width" by simp
  then have "take (length (take n es) * width) f = take (length (take n es) * width) (concat (map enc es))"
    using assms by (metis min.absorb1 stored_def take_take)
  also have "\<dots> = concat (map enc (take n es))"
    using length_encs [of "take n es"] append_take_drop_id [of n es]
    by (metis append_eq_conv_conj concat_append map_append)
  finally show st: "stored width enc (take n es) f" by (simp only: stored_def)
  show "stored width enc (take n es) (resize (length (take n es) * width) f)"
    using st stored_length [OF st] length_encs [of "take n es"] by (simp add: stored_def resize_def)
qed

lemma stored_append:
  assumes "stored width enc es (fh_content h)" "wrote (enc e) (length es * width) h r h'"
  shows "stored width enc es (fh_content h')" and "r = Inr () \<Longrightarrow> stored width enc (es @ [e]) (fh_content h')"
    and "fh_valid h' = fh_valid h"
proof -
  note len = stored_length [OF assms(1)]
  from assms(2) obtain n where h': "h' = h\<lparr>fh_content := pwrite_bytes (length es * width) (take n (enc e)) (fh_content h)\<rparr>"
    and n: "r = Inr () \<longleftrightarrow> n = length (enc e)"
    by (auto simp: wrote_def)
  show "stored width enc es (fh_content h')"
    using assms(1) len by (simp add: h' stored_def take_pwrite_bytes)
  show "stored width enc (es @ [e]) (fh_content h')" if "r = Inr ()"
    using that n assms(1) take_pwrite_bytes_end [OF len, of "enc e"]
    by (simp add: h' stored_def length_enc add.commute)
  show "fh_valid h' = fh_valid h" by (simp add: h')
qed

lemma stored_snoc:
  "stored width enc (es @ [e]) f \<longleftrightarrow>
     stored width enc es f \<and> length es * width + width \<le> length f \<and>
     take width (drop (length es * width) f) = enc e"
proof -
  have "take (length es * width + width) f = concat (map enc es) @ enc e \<longleftrightarrow>
    take (length es * width) f = concat (map enc es) \<and> take width (drop (length es * width) f) = enc e"
    if "length es * width \<le> length f"
    using that length_encs [of es] unfolding take_add by (auto simp: append_eq_append_conv)
  moreover have "length es * width + width \<le> length f" if "stored width enc (es @ [e]) f"
    using stored_length [OF that] by (simp add: add.commute)
  ultimately show ?thesis
    by (auto simp: stored_def add.commute [of width])
qed

lemma load_entries_stored:
  assumes "load_entries width dec key disorder raw pos previous acc = (es, stop)"
    and "stored width enc acc raw" "pos = length acc * width"
  shows "stored width enc es raw"
  using assms
proof (induction "length raw - pos" arbitrary: pos previous acc rule: less_induct)
  case less
  define entry where "entry = dec (drop pos raw)"
  have eq: "(if 0 < width \<and> pos + width \<le> length raw
      then if disorder (key entry) previous then (acc, Some pos)
           else load_entries width dec key disorder raw (pos + width) (key entry) (acc @ [entry])
      else (acc, None)) = (es, stop)"
    using less.prems(1)
    unfolding load_entries.simps [of width dec key disorder raw pos previous acc] Let_def entry_def .
  show ?case
  proof (cases "pos + width \<le> length raw \<and> \<not> disorder (key entry) previous")
    case True
    have rec: "load_entries width dec key disorder raw (pos + width) (key entry) (acc @ [entry]) = (es, stop)"
      using eq True width_pos by simp
    have "stored width enc (acc @ [entry]) raw"
      using less.prems(2,3) True enc_dec [of "drop pos raw"] by (auto simp: stored_snoc entry_def)
    with rec show ?thesis
      by (rule less.hyps [rotated]) (use True width_pos less.prems(3) in auto)
  next
    case False
    with eq less.prems(2) show ?thesis by (auto split: if_splits)
  qed
qed

text \<open>Reading the entries back, up to trailing bytes that are not a whole entry.\<close>

lemma load_entries_all:
  assumes "list_all good es" "in_order disorder previous (map key es)" "length junk < width"
  shows "load_entries width dec key disorder (concat (map enc es0) @ concat (map enc es) @ junk)
           (length es0 * width) previous es0 = (es0 @ es, None)"
  using assms
proof (induction es arbitrary: es0 previous)
  case Nil
  then show ?case using length_encs [of es0] by (simp add: load_entries.simps [of width])
next
  case (Cons e es)
  let ?raw = "concat (map enc es0) @ concat (map enc (e # es)) @ junk"
  have drop: "drop (length es0 * width) ?raw = enc e @ concat (map enc es) @ junk"
    using length_encs [of es0] by simp
  have "load_entries width dec key disorder ?raw (length es0 * width) previous es0 =
        load_entries width dec key disorder ?raw (length (es0 @ [e]) * width) (key e) (es0 @ [e])"
    using Cons.prems width_pos length_encs [of es0]
    unfolding load_entries.simps [of width dec key disorder ?raw "length es0 * width"] drop
    by (simp add: Let_def dec_enc length_enc length_encs ac_simps)
  also have "\<dots> = ((es0 @ [e]) @ es, None)"
    using Cons.IH [of "key e" "es0 @ [e]"] Cons.prems by simp
  finally show ?case by simp
qed

end


lemma Store_Load_take:
  "4 \<le> length bs \<Longrightarrow> StoreLe32 (LoadLe32 bs) = take 4 bs"
  "8 \<le> length bs \<Longrightarrow> StoreLeI64 (LoadLeI64 bs) = take 8 bs"
  using Store_Load(2) [of "take 4 bs"] Store_Load(3) [of "take 8 bs"]
  by (simp_all add: LoadLe32_def LoadLe64_def StoreLeI64_def LoadLeI64_def)

interpretation offset_entries: entry_codec kIndexEntryBytes encode_offset_entry decode_offset_entry "\<lambda>_. True"
proof
  fix raw :: bytes
  assume "kIndexEntryBytes \<le> length raw"
  then show "encode_offset_entry (decode_offset_entry raw) = take kIndexEntryBytes raw"
    using take_add [of 4 4 raw]
    by (simp add: kIndexEntryBytes_def encode_offset_entry_def decode_offset_entry_def Store_Load_take)
qed (simp_all add: kIndexEntryBytes_def encode_offset_entry_def decode_offset_entry_def)

interpretation time_entries:
  entry_codec kTimeIndexEntryBytes encode_time_entry decode_time_entry "\<lambda>e. is_i64 (te_timestamp e)"
proof
  fix raw :: bytes
  assume "kTimeIndexEntryBytes \<le> length raw"
  then show "encode_time_entry (decode_time_entry raw) = take kTimeIndexEntryBytes raw"
    using take_add [of 8 4 raw]
    by (simp add: kTimeIndexEntryBytes_def encode_time_entry_def decode_time_entry_def Store_Load_take)
qed (simp_all add: kTimeIndexEntryBytes_def encode_time_entry_def decode_time_entry_def)

section \<open>Operations on a well-formed index\<close>

abbreviation oe_rel :: "offset_index_entry \<Rightarrow> int" where
  "oe_rel e \<equiv> uint (oe_relative_offset e)"

abbreviation te_rel :: "time_index_entry \<Rightarrow> int" where
  "te_rel e \<equiv> uint (te_relative_offset e)"

definition oi_ok :: "offset_index \<Rightarrow> bool" where
  "oi_ok ix \<longleftrightarrow>
     fh_valid (oi_file ix) \<and> sorted_wrt (<) (map oe_rel (oi_entries ix)) \<and>
     stored kIndexEntryBytes encode_offset_entry (oi_entries ix) (fh_content (oi_file ix))"

definition ti_ok :: "time_index \<Rightarrow> bool" where
  "ti_ok ix \<longleftrightarrow>
     fh_valid (ti_file ix) \<and> sorted (map te_timestamp (ti_entries ix)) \<and>
     stored kTimeIndexEntryBytes encode_time_entry (ti_entries ix) (fh_content (ti_file ix))"

lemma uint_word_of_int_u32: "0 \<le> x \<Longrightarrow> x \<le> kU32Max \<Longrightarrow> uint (word_of_int x :: u32) = x"
  by (simp add: kU32Max_def uint_word_of_int_eq take_bit_int_eq_self)

lemma unat_of_nat_u32: "int x \<le> kU32Max \<Longrightarrow> unat (of_nat x :: u32) = x"
  by (simp add: kU32Max_def unat_of_nat take_bit_nat_eq_self)

lemma sorted_wrt_less_snoc:
  "sorted_wrt (<) (ks @ [k]) \<longleftrightarrow> sorted_wrt (<) ks \<and> (ks \<noteq> [] \<longrightarrow> last ks < (k :: int))"
  by (induction ks) (auto simp: sorted_wrt_append intro: less_trans)

lemma sorted_snoc: "sorted (ks @ [k]) \<longleftrightarrow> sorted ks \<and> (ks \<noteq> [] \<longrightarrow> last ks \<le> (k :: int))"
  by (induction ks) (auto simp: sorted_append intro: order_trans)

lemma OffsetIndex_Append_spec:
  assumes "oi_ok ix" "OffsetIndex_Append off position ix w = (r, ix', w')"
  shows "oi_ok ix' \<and> oi_base_offset ix' = oi_base_offset ix \<and>
    (if r = Inr ()
     then \<exists>e. oi_entries ix' = oi_entries ix @ [e] \<and> oe_rel e = off - oi_base_offset ix \<and>
              unat (oe_file_position e) = position
     else oi_entries ix' = oi_entries ix)"
proof -
  define rel where "rel = off - oi_base_offset ix"
  let ?e = "\<lparr>oe_relative_offset = word_of_int rel, oe_file_position = of_nat position\<rparr> :: offset_index_entry"
  consider (fail) "r = Inl kInvalidArgument" "ix' = ix"
    | (go) f where "0 \<le> rel" "rel \<le> kU32Max" "int position \<le> kU32Max"
        "oi_entries ix \<noteq> [] \<longrightarrow> oe_rel (last (oi_entries ix)) < rel"
        "WriteAllAt (encode_offset_entry ?e) (length (oi_entries ix) * kIndexEntryBytes) (oi_file ix) w = (r, f, w')"
        "ix' = (if r = Inr () then ix\<lparr>oi_file := f, oi_entries := oi_entries ix @ [?e]\<rparr> else ix\<lparr>oi_file := f\<rparr>)"
    using assms(2) unfolding OffsetIndex_Append_def Let_def rel_def [symmetric]
    by (auto simp: not_le not_less word_less_def uint_word_of_int_u32
        split: if_splits prod.splits sum.splits)
  then show ?thesis
  proof cases
    case fail
    with assms(1) show ?thesis by simp
  next
    case go
    have st: "stored kIndexEntryBytes encode_offset_entry (oi_entries ix) (fh_content (oi_file ix))"
      and ok: "fh_valid (oi_file ix)" "sorted_wrt (<) (map oe_rel (oi_entries ix))"
      using assms(1) by (simp_all add: oi_ok_def)
    note wr = WriteAllAt_wrote [OF go(5) offset_entries.stored_length [OF st]]
    note app = offset_entries.stored_append [OF st wr]
    show ?thesis
      using go app ok unfolding rel_def [symmetric]
      by (auto simp: oi_ok_def uint_word_of_int_u32 unat_of_nat_u32 sorted_wrt_less_snoc last_map)
  qed
qed

lemma TimeIndex_Append_spec:
  assumes "ti_ok ix" "TimeIndex_Append timestamp off ix w = (r, ix', w')"
  shows "ti_ok ix' \<and> ti_base_offset ix' = ti_base_offset ix \<and>
    (ti_entries ix' = ti_entries ix \<or>
     (\<exists>e. ti_entries ix' = ti_entries ix @ [e] \<and> te_rel e = off - ti_base_offset ix \<and>
          te_timestamp e = timestamp))"
proof -
  define rel where "rel = off - ti_base_offset ix"
  let ?e = "\<lparr>te_timestamp = timestamp, te_relative_offset = word_of_int rel\<rparr> :: time_index_entry"
  consider (same) "ix' = ix"
    | (go) f where "0 \<le> rel" "rel \<le> kU32Max"
        "ti_entries ix \<noteq> [] \<longrightarrow> te_timestamp (last (ti_entries ix)) \<le> timestamp"
        "WriteAllAt (encode_time_entry ?e) (length (ti_entries ix) * kTimeIndexEntryBytes) (ti_file ix) w = (r, f, w')"
        "ix' = (if r = Inr () then ix\<lparr>ti_file := f, ti_entries := ti_entries ix @ [?e]\<rparr> else ix\<lparr>ti_file := f\<rparr>)"
  proof (cases "(ti_entries ix \<noteq> [] \<and> timestamp < te_timestamp (last (ti_entries ix))) \<or> rel < 0 \<or> rel > kU32Max")
    case True
    then have "ix' = ix"
      using assms(2) unfolding TimeIndex_Append_def Let_def rel_def [symmetric] by (auto split: if_splits)
    then show ?thesis by (rule that)
  next
    case False
    obtain r1 f w1 where wr0: "WriteAllAt (encode_time_entry ?e)
        (length (ti_entries ix) * kTimeIndexEntryBytes) (ti_file ix) w = (r1, f, w1)"
      using prod_cases3 by blast
    show ?thesis
      using assms(2) wr0 False that(2) [of f]
      unfolding TimeIndex_Append_def Let_def rel_def [symmetric] by (cases r1) auto
  qed
  then show ?thesis
  proof cases
    case same
    with assms(1) show ?thesis by simp
  next
    case go
    have st: "stored kTimeIndexEntryBytes encode_time_entry (ti_entries ix) (fh_content (ti_file ix))"
      and ok: "fh_valid (ti_file ix)" "sorted (map te_timestamp (ti_entries ix))"
      using assms(1) by (simp_all add: ti_ok_def)
    note wr = WriteAllAt_wrote [OF go(4) time_entries.stored_length [OF st]]
    note app = time_entries.stored_append [OF st wr]
    have "ti_ok ix'"
    proof (cases "r = Inr ()")
      case True
      have "sorted (map te_timestamp (ti_entries ix @ [?e]))"
        using ok(2) go(3) by (simp only: map_append list.map sorted_snoc) (simp add: last_map)
      then show ?thesis using app ok(1) go(5) True by (simp add: ti_ok_def)
    qed (use app ok go(5) in \<open>simp add: ti_ok_def\<close>)
    then show ?thesis
      using go uint_word_of_int_u32 [of rel] by (cases "r = Inr ()") (simp_all add: rel_def [symmetric])
  qed
qed

lemma sorted_wrt_filter_take:
  assumes "sorted_wrt (<) (map f xs)"
  shows "take (partition_index (\<lambda>e. f e < (k :: int)) xs) xs = filter (\<lambda>e. f e < k) xs"
  using filter_eq_take_partition [of "\<lambda>a b. f a < f b" xs "\<lambda>e. f e < k"] assms
  by (simp add: sorted_wrt_map)

lemma OffsetIndex_TruncateFrom_spec:
  assumes "oi_ok ix" "OffsetIndex_TruncateFrom off ix w = (r, ix', w')"
  shows "oi_ok ix' \<and> oi_base_offset ix' = oi_base_offset ix \<and>
    oi_entries ix' = filter (\<lambda>e. oe_rel e < off - oi_base_offset ix) (oi_entries ix)"
proof -
  define keep where "keep = partition_index (\<lambda>e. oe_rel e < off - oi_base_offset ix) (oi_entries ix)"
  have st: "stored kIndexEntryBytes encode_offset_entry (oi_entries ix) (fh_content (oi_file ix))"
    and ok: "fh_valid (oi_file ix)" "sorted_wrt (<) (map oe_rel (oi_entries ix))"
    using assms(1) by (simp_all add: oi_ok_def)
  note flt = sorted_wrt_filter_take [OF ok(2), of "off - oi_base_offset ix", folded keep_def]
  have keep: "keep \<le> length (oi_entries ix)" unfolding keep_def by (rule partition_index_le)
  have kl: "length (filter (\<lambda>e. oe_rel e < off - oi_base_offset ix) (oi_entries ix)) = keep"
    using arg_cong [OF flt, of length] keep by simp
  have sorted: "sorted_wrt (<) (map oe_rel (take keep (oi_entries ix)))"
    using ok(2) by (simp flip: take_map add: sorted_wrt_take)
  show ?thesis
  proof (cases "keep = length (oi_entries ix)")
    case True
    with assms flt show ?thesis by (simp add: OffsetIndex_TruncateFrom_def keep_def [symmetric])
  next
    case False
    obtain r1 f w1 where tr: "File_Truncate (keep * kIndexEntryBytes) (oi_file ix) w = (r1, f, w1)"
      using prod_cases3 by blast
    from False assms(2) tr have ix': "ix' = ix\<lparr>oi_entries := take keep (oi_entries ix), oi_file := f\<rparr>"
      by (simp add: OffsetIndex_TruncateFrom_def keep_def [symmetric])
    from File_Truncate_cases [OF tr] show ?thesis
      using ok sorted offset_entries.stored_take [OF st, of keep] keep flt
      by (auto simp: ix' oi_ok_def kl)
  qed
qed

lemma TimeIndex_TruncateFrom_spec:
  assumes "ti_ok ix" "TimeIndex_TruncateFrom off ix w = (r, ix', w')"
  shows "ti_ok ix' \<and> ti_base_offset ix' = ti_base_offset ix \<and>
    ti_entries ix' = takeWhile (\<lambda>e. te_rel e < off - ti_base_offset ix) (ti_entries ix)"
proof -
  define keep where "keep = partition_index (\<lambda>e. te_rel e < off - ti_base_offset ix) (ti_entries ix)"
  have st: "stored kTimeIndexEntryBytes encode_time_entry (ti_entries ix) (fh_content (ti_file ix))"
    and ok: "fh_valid (ti_file ix)" "sorted (map te_timestamp (ti_entries ix))"
    using assms(1) by (simp_all add: ti_ok_def)
  have tw: "take keep (ti_entries ix) = takeWhile (\<lambda>e. te_rel e < off - ti_base_offset ix) (ti_entries ix)"
    unfolding keep_def partition_index_def by (rule takeWhile_eq_take [symmetric])
  have keep: "keep \<le> length (ti_entries ix)" unfolding keep_def by (rule partition_index_le)
  have sorted: "sorted (map te_timestamp (take keep (ti_entries ix)))"
    using ok(2) by (simp flip: take_map add: sorted_wrt_take)
  show ?thesis
  proof (cases "keep = length (ti_entries ix)")
    case True
    with assms tw show ?thesis by (simp add: TimeIndex_TruncateFrom_def keep_def [symmetric])
  next
    case False
    obtain r1 f w1 where tr: "File_Truncate (keep * kTimeIndexEntryBytes) (ti_file ix) w = (r1, f, w1)"
      using prod_cases3 by blast
    from False assms(2) tr have ix': "ix' = ix\<lparr>ti_entries := take keep (ti_entries ix), ti_file := f\<rparr>"
      by (simp add: TimeIndex_TruncateFrom_def keep_def [symmetric])
    have "ti_ok ix'"
      using File_Truncate_cases [OF tr] ok sorted time_entries.stored_take [OF st, of keep] keep
      by (auto simp: ix' ti_ok_def min_absorb2)
    with tw show ?thesis by (simp add: ix')
  qed
qed

lemma LookupFloor_spec:
  assumes "oi_ok ix"
  shows "case LookupFloor target ix of
      None \<Rightarrow> \<forall>e \<in> set (oi_entries ix). target < oi_base_offset ix + oe_rel e
    | Some e \<Rightarrow> e \<in> set (oi_entries ix) \<and> oi_base_offset ix + oe_rel e \<le> target \<and>
        (\<forall>e' \<in> set (oi_entries ix). oi_base_offset ix + oe_rel e' \<le> target \<longrightarrow> oe_rel e' \<le> oe_rel e)"
proof -
  define rel where "rel = target - oi_base_offset ix"
  define es where "es = oi_entries ix"
  have sorted: "sorted_wrt (\<lambda>a b. oe_rel a < oe_rel b) es"
    using assms by (simp add: oi_ok_def es_def sorted_wrt_map)
  have u32: "oe_rel e \<le> kU32Max" for e
    using uint_lt2p [of "oe_relative_offset e"] by (simp add: kU32Max_def)
  show ?thesis
  proof (cases "es = [] \<or> rel < 0")
    case True
    then show ?thesis
      by (auto simp: LookupFloor_def es_def rel_def intro: less_le_trans)
  next
    case False
    then have rel: "0 \<le> rel" and ne: "es \<noteq> []" by auto
    have mono: "oe_rel (es ! i) \<le> oe_rel (es ! j)" if "i \<le> j" "j < length es" for i j
      using that sorted_wrt_nth_less [OF sorted, of i j] by (cases "i = j") simp_all
    show ?thesis
    proof (cases "rel > kU32Max")
      case True
      have "oe_rel e \<le> oe_rel (last es)" if "e \<in> set es" for e
        using that mono ne by (fastforce simp: in_set_conv_nth last_conv_nth)
      with True False u32 [of "last es"] show ?thesis
        by (auto simp: LookupFloor_def es_def [symmetric] rel_def)
    next
      case small: False
      define P where "P e \<longleftrightarrow> oe_rel e \<le> rel" for e
      have P: "(\<lambda>e. \<not> word_of_int rel < oe_relative_offset e) = P"
        using rel small by (auto simp: P_def word_less_def uint_word_of_int_u32 not_less)
      define it where "it = partition_index P es"
      have lk: "LookupFloor target ix = (if it = 0 then None else Some (es ! (it - 1)))"
        using False small
        by (auto simp: LookupFloor_def es_def [symmetric] rel_def [symmetric] it_def P [symmetric] Let_def)
          (simp_all add: rel_def)
      have after: "it \<le> j" if "j < length es" "\<not> P (es ! j)" for j
        using that partition_index_before [of j P es] by (force simp: it_def)
      have beyond: "\<not> P (es ! j)" if "it \<le> j" "j < length es" for j
        using partition_index_sorted_after [OF sorted, of P j] that by (auto simp: it_def P_def)
      have lim: "it \<le> length es" unfolding it_def by (rule partition_index_le)
      have conv: "oi_base_offset ix + oe_rel e \<le> target \<longleftrightarrow> P e" for e
        by (auto simp: P_def rel_def)
      show ?thesis
      proof (cases "it = 0")
        case True
        have "\<not> P e" if "e \<in> set es" for e
          using that beyond True by (auto simp: in_set_conv_nth)
        with True show ?thesis by (auto simp: lk es_def [symmetric] conv [symmetric] not_le)
      next
        case it: False
        have "P (es ! (it - 1))" using partition_index_before [of "it - 1" P es] it by (simp add: it_def)
        moreover have "oe_rel e \<le> oe_rel (es ! (it - 1))" if e: "e \<in> set es" "P e" for e
        proof -
          from e(1) obtain j where j: "j < length es" "e = es ! j" by (auto simp: in_set_conv_nth)
          with e(2) beyond [of j] have "j \<le> it - 1" by (cases "it \<le> j") auto
          with mono [of j "it - 1"] j it lim show ?thesis by simp
        qed
        ultimately show ?thesis
          using it lim by (auto simp: lk es_def [symmetric] conv)
      qed
    qed
  qed
qed

text \<open>
  The loaded index is well-formed whatever its file held, and an index written by the code is
  read back as it was, a torn last entry aside.
\<close>

lemma OffsetIndex_load_ok:
  assumes "OffsetIndex_load whole ix w = (Inr (), ix', w')" "oi_entries ix = []" "fh_valid (oi_file ix)"
  shows "oi_ok ix' \<and> oi_base_offset ix' = oi_base_offset ix"
proof (cases "whole = 0")
  case True
  with assms show ?thesis by (auto simp: OffsetIndex_load_def oi_ok_def)
next
  case False
  let ?f = "oi_file ix"
  obtain raw w1 where rd: "ReadExactAt whole 0 ?f w = (Inr raw, w1)"
    using assms(1) False by (auto simp: OffsetIndex_load_def split: prod.splits sum.splits)
  note raw = ReadExactAt_slice [OF rd]
  obtain es stop where ld: "load_entries kIndexEntryBytes decode_offset_entry oe_rel (\<le>) raw 0 (- 1) [] = (es, stop)"
    by fastforce
  have ord: "sorted_wrt (<) (map oe_rel es)" and cut: "\<And>c. stop = Some c \<Longrightarrow> c = length es * kIndexEntryBytes"
    using load_entries_in_order [OF ld, of "- 1"] by (auto simp: in_order_le)
  have "stored kIndexEntryBytes encode_offset_entry es raw"
    using offset_entries.load_entries_stored [OF ld] by simp
  with raw have st: "stored kIndexEntryBytes encode_offset_entry es (fh_content ?f)"
    using offset_entries.stored_length by (fastforce simp: stored_def slice_def)
  show ?thesis
  proof (cases stop)
    case None
    with assms rd ld False ord st show ?thesis by (auto simp: OffsetIndex_load_def oi_ok_def)
  next
    case (Some c)
    obtain f w2 where tr: "File_Truncate c ?f w1 = (Inr (), f, w2)"
      using assms(1) rd ld False Some by (auto simp: OffsetIndex_load_def split: prod.splits)
    have ix': "ix' = ix\<lparr>oi_entries := es, oi_file := f\<rparr>"
      using assms(1) rd ld False Some tr by (auto simp: OffsetIndex_load_def)
    show ?thesis
      using File_Truncate_cases [OF tr] assms(3) ord cut [OF Some]
        offset_entries.stored_take(2) [OF st, of "length es"]
      by (auto simp: ix' oi_ok_def)
  qed
qed

lemma OffsetIndex_Open_ok:
  assumes "OffsetIndex_Open existing base ix0 w = (Inr (), ix, w')"
  shows "oi_ok ix \<and> oi_base_offset ix = base"
  using assms
  by (auto simp: OffsetIndex_Open_def Let_def dest!: File_Open_Inr OffsetIndex_load_ok File_Truncate_cases
      split: prod.splits sum.splits if_splits)


lemma TimeIndex_load_ok:
  assumes "TimeIndex_load whole ix w = (Inr (), ix', w')" "ti_entries ix = []" "fh_valid (ti_file ix)"
  shows "ti_ok ix' \<and> ti_base_offset ix' = ti_base_offset ix"
proof (cases "whole = 0")
  case True
  with assms show ?thesis by (auto simp: TimeIndex_load_def ti_ok_def)
next
  case False
  let ?f = "ti_file ix"
  obtain raw w1 where rd: "ReadExactAt whole 0 ?f w = (Inr raw, w1)"
    using assms(1) False by (auto simp: TimeIndex_load_def split: prod.splits sum.splits)
  note raw = ReadExactAt_slice [OF rd]
  obtain es stop where ld: "load_entries kTimeIndexEntryBytes decode_time_entry te_timestamp (<) raw 0 (- 1) [] = (es, stop)"
    by fastforce
  have ord: "sorted (map te_timestamp es)" and cut: "\<And>c. stop = Some c \<Longrightarrow> c = length es * kTimeIndexEntryBytes"
    using load_entries_in_order [OF ld, of "- 1"] by (auto simp: in_order_less)
  have "stored kTimeIndexEntryBytes encode_time_entry es raw"
    using time_entries.load_entries_stored [OF ld] by simp
  with raw have st: "stored kTimeIndexEntryBytes encode_time_entry es (fh_content ?f)"
    using time_entries.stored_length by (fastforce simp: stored_def slice_def)
  show ?thesis
  proof (cases stop)
    case None
    with assms rd ld False ord st show ?thesis by (auto simp: TimeIndex_load_def ti_ok_def)
  next
    case (Some c)
    obtain f w2 where tr: "File_Truncate c ?f w1 = (Inr (), f, w2)"
      using assms(1) rd ld False Some by (auto simp: TimeIndex_load_def split: prod.splits)
    have ix': "ix' = ix\<lparr>ti_entries := es, ti_file := f\<rparr>"
      using assms(1) rd ld False Some tr by (auto simp: TimeIndex_load_def)
    show ?thesis
      using File_Truncate_cases [OF tr] assms(3) ord cut [OF Some]
        time_entries.stored_take(2) [OF st, of "length es"]
      by (auto simp: ix' ti_ok_def)
  qed
qed

lemma TimeIndex_Open_ok:
  assumes "TimeIndex_Open existing base ix0 w = (Inr (), ix, w')"
  shows "ti_ok ix \<and> ti_base_offset ix = base"
  using assms
  by (auto simp: TimeIndex_Open_def Let_def dest!: File_Open_Inr TimeIndex_load_ok File_Truncate_cases
      split: prod.splits sum.splits if_splits)

lemma LookupCeiling_spec:
  assumes "ti_ok ix"
  shows "case LookupCeiling timestamp ix of
      None \<Rightarrow> \<forall>e \<in> set (ti_entries ix). te_timestamp e < timestamp
    | Some off \<Rightarrow> \<exists>i < length (ti_entries ix). off = ti_base_offset ix + te_rel (ti_entries ix ! i) \<and>
        timestamp \<le> te_timestamp (ti_entries ix ! i) \<and>
        (\<forall>j < i. te_timestamp (ti_entries ix ! j) < timestamp)"
proof -
  define it where "it = partition_index (\<lambda>e. te_timestamp e < timestamp) (ti_entries ix)"
  have lim: "it \<le> length (ti_entries ix)" unfolding it_def by (rule partition_index_le)
  have before: "te_timestamp (ti_entries ix ! j) < timestamp" if "j < it" for j
    using partition_index_before that unfolding it_def by fastforce
  have at: "timestamp \<le> te_timestamp (ti_entries ix ! it)" if "it < length (ti_entries ix)"
    using partition_index_at that unfolding it_def by fastforce
  show ?thesis
  proof (cases "it = length (ti_entries ix)")
    case True
    with before show ?thesis
      by (auto simp: LookupCeiling_def it_def [symmetric] in_set_conv_nth)
  next
    case False
    with lim have "it < length (ti_entries ix)" by simp
    with at before False show ?thesis
      by (auto simp: LookupCeiling_def it_def [symmetric] intro!: exI [of _ it])
  qed
qed

text \<open>An index written by the code is read back as it was, a torn last entry aside.\<close>

lemma whole_entries:
  "n * k \<le> size_c \<Longrightarrow> size_c < (n + 1) * k \<Longrightarrow> size_c - size_c mod k = n * (k :: nat)"
  by (simp add: minus_mod_eq_div_mult div_nat_eqI mult.commute)

lemma OffsetIndex_load_entries:
  assumes "OffsetIndex_load (length es * kIndexEntryBytes) ix w = (Inr (), ix', w')" "oi_entries ix = []"
    and "take (length es * kIndexEntryBytes) (fh_content (oi_file ix)) = concat (map encode_offset_entry es)"
    and "sorted_wrt (<) (map oe_rel es)"
  shows "oi_entries ix' = es"
proof -
  have "- 1 < oe_rel e" for e using uint_ge_0 [of "oe_relative_offset e"] by linarith
  then have "in_order (\<le>) (- 1) (map oe_rel es)" using assms(4) by (simp add: in_order_le)
  then have ld: "load_entries kIndexEntryBytes decode_offset_entry oe_rel (\<le>)
      (concat (map encode_offset_entry es)) 0 (- 1) [] = (es, None)"
    using offset_entries.load_entries_all [of es "(\<le>)" "- 1" oe_rel "[]" "[]"]
    by (simp add: list_all_iff kIndexEntryBytes_def)
  show ?thesis
  proof (cases "es = []")
    case True
    with assms(1,2) show ?thesis by (auto simp: OffsetIndex_load_def)
  next
    case False
    then obtain raw w1 where rd: "ReadExactAt (length es * kIndexEntryBytes) 0 (oi_file ix) w = (Inr raw, w1)"
      using assms(1) by (auto simp: OffsetIndex_load_def kIndexEntryBytes_def split: prod.splits sum.splits)
    from ReadExactAt_slice [OF rd] assms(3) have "raw = concat (map encode_offset_entry es)"
      by (simp add: slice_def)
    with assms(1) rd ld False show ?thesis
      by (auto simp: OffsetIndex_load_def kIndexEntryBytes_def)
  qed
qed

lemma OffsetIndex_reopen_entries:
  assumes "oi_ok ix" "length (fh_content (oi_file ix)) < (length (oi_entries ix) + 1) * kIndexEntryBytes"
    and "OffsetIndex_Open (Some (fh_content (oi_file ix))) base ix0 w = (Inr (), ix', w')"
  shows "oi_entries ix' = oi_entries ix"
proof -
  let ?es = "oi_entries ix" and ?c = "fh_content (oi_file ix)"
  have st: "stored kIndexEntryBytes encode_offset_entry ?es ?c"
    and sorted: "sorted_wrt (<) (map oe_rel ?es)"
    using assms(1) by (simp_all add: oi_ok_def)
  let ?n = "length ?es * kIndexEntryBytes"
  note len = offset_entries.stored_length [OF st]
  note whole = whole_entries [OF len assms(2)]
  obtain f w1 where op: "File_Open (Some ?c) w = (Inr f, w1)"
    using assms(3) by (auto simp: OffsetIndex_Open_def Let_def split: prod.splits sum.splits)
  have f: "fh_content f = ?c" using File_Open_Inr [OF op] by simp
  let ?ix = "ix0\<lparr>oi_base_offset := base, oi_entries := []\<rparr>"
  obtain w2 where sz: "File_Size f w1 = (Inr (length ?c), w2)"
    using assms(3) op File_Size_Inr [of f w1] f
    by (fastforce simp: OffsetIndex_Open_def Let_def split: prod.splits sum.splits)
  obtain f' w3 where load: "OffsetIndex_load ?n (?ix\<lparr>oi_file := f'\<rparr>) w3 = (Inr (), ix', w')"
    and pre: "take ?n (fh_content f') = take ?n ?c"
  proof (cases "?n = length ?c")
    case True
    show thesis
      by (rule that [of f w2]) (use assms(3) op sz whole True f in \<open>simp_all add: OffsetIndex_Open_def Let_def\<close>)
  next
    case False
    obtain r f' w3 where tr: "File_Truncate ?n f w2 = (r, f', w3)" using prod_cases3 by blast
    have r: "r = Inr ()"
      using assms(3) op sz whole False tr by (cases r) (simp_all add: OffsetIndex_Open_def Let_def)
    show thesis
      by (rule that [of f' w3])
        (use assms(3) op sz whole False f tr r File_Truncate_cases [OF tr] len
          in \<open>simp_all add: OffsetIndex_Open_def Let_def resize_def\<close>)
  qed
  from OffsetIndex_load_entries [OF load] sorted st pre show ?thesis by (simp add: stored_def)
qed

section \<open>Every history of an index\<close>

text \<open>
  The index files a segment can have in memory: opened on any bytes, then appended to, truncated
  and flushed in any order and with any answers of the kernel.
\<close>

inductive index_reachable :: "offset \<Rightarrow> offset_index \<Rightarrow> bool" for base where
  opened: "OffsetIndex_Open existing base ix0 w = (Inr (), ix, w') \<Longrightarrow> index_reachable base ix"
| appended: "index_reachable base ix \<Longrightarrow> OffsetIndex_Append off pos ix w = (r, ix', w') \<Longrightarrow> index_reachable base ix'"
| truncated: "index_reachable base ix \<Longrightarrow> OffsetIndex_TruncateFrom off ix w = (r, ix', w') \<Longrightarrow> index_reachable base ix'"
| synced: "index_reachable base ix \<Longrightarrow> OffsetIndex_Sync ix w = (r, ix', w') \<Longrightarrow> index_reachable base ix'"

lemma OffsetIndex_Sync_ok:
  "oi_ok ix \<Longrightarrow> OffsetIndex_Sync ix w = (r, ix', w') \<Longrightarrow>
   oi_ok ix' \<and> oi_base_offset ix' = oi_base_offset ix \<and> oi_entries ix' = oi_entries ix"
  by (auto simp: OffsetIndex_Sync_def oi_ok_def File_SyncData_def dest!: File_Sync_cases
      split: if_splits prod.splits)

lemma index_reachable_ok: "index_reachable base ix \<Longrightarrow> oi_ok ix \<and> oi_base_offset ix = base"
proof (induction rule: index_reachable.induct)
  case (opened existing ix0 w ix w')
  then show ?case by (rule OffsetIndex_Open_ok)
next
  case (appended ix off pos w r ix' w')
  then show ?case using OffsetIndex_Append_spec by blast
next
  case (truncated ix off w r ix' w')
  then show ?case using OffsetIndex_TruncateFrom_spec by blast
next
  case (synced ix w r ix' w')
  then show ?case using OffsetIndex_Sync_ok by metis
qed

text \<open>
  C33: the sparse index never lies about order.  Whatever bytes the index file held when it was
  opened and whatever happened to it since, \<open>LookupFloor\<close> returns an entry at or below the target
  with no other entry between them, and nothing exactly when every entry is above the target.
\<close>

theorem LookupFloor_any_history:
  assumes "index_reachable base ix"
  shows "case LookupFloor target ix of
      None \<Rightarrow> \<forall>e \<in> set (oi_entries ix). target < base + oe_rel e
    | Some e \<Rightarrow> e \<in> set (oi_entries ix) \<and> base + oe_rel e \<le> target \<and>
        (\<forall>e' \<in> set (oi_entries ix). base + oe_rel e' \<le> target \<longrightarrow> oe_rel e' \<le> oe_rel e)"
  using LookupFloor_spec [of ix target] index_reachable_ok [OF assms] by (auto split: option.splits)

text \<open>A file of two entries and a torn third one.\<close>

definition torn_index_file :: bytes where
  "torn_index_file = [0, 0, 0, 0, 0, 0, 0, 0, 5, 0, 0, 0, 200, 0, 0, 0, 9, 0]"

theorem LookupFloor_any_history_witness:
  "case OffsetIndex_Open (Some torn_index_file) 100 NewOffsetIndex quiet_os of (r, ix, w) \<Rightarrow>
     r = Inr () \<and> map oe_rel (oi_entries ix) = [0, 5] \<and>
     (\<exists>e. LookupFloor 103 ix = Some e \<and> oe_rel e = 0)"
proof -
  obtain r ix w where op: "OffsetIndex_Open (Some torn_index_file) 100 NewOffsetIndex quiet_os = (r, ix, w)"
    using prod_cases3 by blast
  have "fst (OffsetIndex_Open (Some torn_index_file) 100 NewOffsetIndex quiet_os) = Inr () \<and>
      map oe_rel (oi_entries (fst (snd (OffsetIndex_Open (Some torn_index_file) 100 NewOffsetIndex quiet_os)))) = [0, 5]"
    by code_simp
  with op have r: "r = Inr ()" and es: "map oe_rel (oi_entries ix) = [0, 5]" by simp_all
  then have "index_reachable 100 ix" using op index_reachable.opened by blast
  from LookupFloor_any_history [OF this, of 103] es
  have "\<exists>e. LookupFloor 103 ix = Some e \<and> oe_rel e = 0"
    by (auto split: option.splits simp: map_eq_Cons_conv)
  with op r es show ?thesis by simp
qed

text \<open>
  C34: index entries survive a restart.  Reopening the file of an index whose last append may have
  been torn gives back exactly its entries.
\<close>

theorem OffsetIndex_reopen:
  assumes "index_reachable base ix" "length (fh_content (oi_file ix)) < (length (oi_entries ix) + 1) * kIndexEntryBytes"
    and "OffsetIndex_Open (Some (fh_content (oi_file ix))) base ix0 w = (Inr (), ix', w')"
  shows "oi_entries ix' = oi_entries ix \<and> (\<forall>target. LookupFloor target ix' = LookupFloor target ix)"
proof -
  have "oi_entries ix' = oi_entries ix"
    using OffsetIndex_reopen_entries [OF _ assms(2,3)] index_reachable_ok [OF assms(1)] by simp
  moreover have "oi_base_offset ix' = oi_base_offset ix"
    using index_reachable_ok [OF assms(1)] OffsetIndex_Open_ok [OF assms(3)] by simp
  ultimately show ?thesis by (simp add: LookupFloor_def Let_def)
qed

theorem OffsetIndex_reopen_witness:
  "let ix = fst (snd (OffsetIndex_Open (Some torn_index_file) 100 NewOffsetIndex quiet_os));
       ix' = fst (snd (OffsetIndex_Open (Some (fh_content (oi_file ix))) 100 NewOffsetIndex quiet_os))
   in oi_entries ix' = oi_entries ix"
proof -
  let ?op = "OffsetIndex_Open (Some torn_index_file) 100 NewOffsetIndex quiet_os"
  obtain r ix w where op: "?op = (r, ix, w)" using prod_cases3 by blast
  let ?re = "OffsetIndex_Open (Some (fh_content (oi_file (fst (snd ?op))))) 100 NewOffsetIndex quiet_os"
  obtain q ix' w' where re: "?re = (q, ix', w')" using prod_cases3 by blast
  have "fst ?op = Inr () \<and> fst ?re = Inr () \<and>
      length (fh_content (oi_file (fst (snd ?op)))) < (length (oi_entries (fst (snd ?op))) + 1) * kIndexEntryBytes"
    by code_simp
  with op re have ok: "r = Inr ()" "q = Inr ()"
    "length (fh_content (oi_file ix)) < (length (oi_entries ix) + 1) * kIndexEntryBytes" by simp_all
  then have "index_reachable 100 ix" using op index_reachable.opened by blast
  from OffsetIndex_reopen [OF this ok(3)] op re ok show ?thesis by simp
qed

end
