(* ===== verification/PL_Segment.thy ===== *)
theory PL_Segment
  imports PL_Offset_Index PL_Record
begin

text \<open>
  A log segment (\<open>include/pulselog/storage/segment.h\<close>, \<open>src/storage/segment.cc\<close>): one data file
  with its offset and time index.  The atomics of the class are plain fields here: one writer
  changes them, and every operation is modelled as one step.  Sums of file positions stay below
  \<open>2 ^ 63\<close> (\<open>off_t\<close>) and are not wrapped; the two unsigned differences that the code does not
  guard (\<open>start - last_indexed_position_\<close>, \<open>limit - position\<close>) are.  Log messages are not modelled,
  and the reason text of a recovery report is kept as the datum it is printed from.
\<close>

section \<open>State\<close>

definition kBaseOffsetDigits :: nat where "kBaseOffsetDigits = 20"
definition kRecoveryChunkBytes :: nat where "kRecoveryChunkBytes = 1048576"

record segment_options =
  so_max_bytes :: int
  so_index_interval_bytes :: int
  so_preallocate :: bool
  so_write_mode :: write_mode
  so_sync_mode :: sync_mode

datatype stop_reason =
    ParseStop error_code nat
  | OffsetDiscontinuity offset offset
  | RecordTooLarge
  | TrailingBytes

record recovery_report =
  rr_next_offset :: offset
  rr_valid_bytes :: nat
  rr_truncated_bytes :: nat
  rr_preallocated_bytes :: nat
  rr_records_scanned :: nat
  rr_truncated :: bool
  rr_reason :: "stop_reason option"

record segment =
  sg_file :: file_handle
  sg_index :: offset_index
  sg_time_index :: time_index
  sg_options :: segment_options
  sg_base_offset :: offset
  sg_created_at_ms :: timestamp_ms
  sg_end_position :: nat
  sg_next_offset :: offset
  sg_synced_position :: nat
  sg_max_timestamp :: timestamp_ms
  sg_record_count :: nat
  sg_last_indexed_position :: nat
  sg_preallocated_to :: nat

text \<open>The three files of a segment as they are found in its directory.\<close>

record segment_files =
  sf_log :: "bytes option"
  sf_index :: "bytes option"
  sf_tindex :: "bytes option"

definition NoFiles :: segment_files where
  "NoFiles = \<lparr>sf_log = None, sf_index = None, sf_tindex = None\<rparr>"

section \<open>File names\<close>

definition FormatBaseOffset :: "offset \<Rightarrow> string" where
  "FormatBaseOffset base =
     (let s = to_string base in replicate (kBaseOffsetDigits - length s) (CHR ''0'') @ s)"

definition ParseBaseOffset :: "string \<Rightarrow> offset option" where
  "ParseBaseOffset stem =
     (if length stem \<noteq> kBaseOffsetDigits then None
      else case from_chars (- (2 ^ 63)) (2 ^ 63 - 1) stem of
        Some (v, rest) \<Rightarrow> if rest = [] then Some v else None
      | None \<Rightarrow> None)"

section \<open>Opening\<close>

definition NewSegment :: "offset \<Rightarrow> segment_options \<Rightarrow> segment" where
  "NewSegment base options =
     \<lparr>sg_file = ClosedFile, sg_index = NewOffsetIndex, sg_time_index = NewTimeIndex,
      sg_options = options, sg_base_offset = base, sg_created_at_ms = 0, sg_end_position = 0,
      sg_next_offset = base, sg_synced_position = 0, sg_max_timestamp = - 1, sg_record_count = 0,
      sg_last_indexed_position = 0, sg_preallocated_to = 0\<rparr>"

text \<open>The end of \<open>Open\<close>: preallocation of a new file, whose failure is only logged.\<close>

definition Segment_preallocate :: "bool \<Rightarrow> segment \<Rightarrow> os \<Rightarrow> segment \<times> os" where
  "Segment_preallocate existed s w =
     (if \<not> existed \<and> so_preallocate (sg_options s) \<and> so_max_bytes (sg_options s) > 0
      then case Preallocate (to_u64 (so_max_bytes (sg_options s))) (sg_file s) w of
          (Inl e, f, w') \<Rightarrow> (s\<lparr>sg_file := f\<rparr>, w')
        | (Inr _, f, w') \<Rightarrow>
            (s\<lparr>sg_file := f, sg_preallocated_to := to_u64 (so_max_bytes (sg_options s))\<rparr>, w')
      else (s, w))"

definition Segment_Open ::
  "segment_files \<Rightarrow> offset \<Rightarrow> segment_options \<Rightarrow> os \<Rightarrow> segment result \<times> os" where
  "Segment_Open files base options w =
     (let s = NewSegment base options; existed = (sf_log files \<noteq> None) in
      case File_Open (sf_log files) w of
        (Inl e, w1) \<Rightarrow> (Inl e, w1)
      | (Inr f, w1) \<Rightarrow>
      (case OffsetIndex_Open (sf_index files) base (sg_index s) w1 of
        (Inl e, _, w2) \<Rightarrow> (Inl e, w2)
      | (Inr _, ix, w2) \<Rightarrow>
      (case TimeIndex_Open (sf_tindex files) base (sg_time_index s) w2 of
        (Inl e, _, w3) \<Rightarrow> (Inl e, w3)
      | (Inr _, tx, w3) \<Rightarrow>
      (case File_Size f w3 of
        (Inl e, w4) \<Rightarrow> (Inl e, w4)
      | (Inr file_size, w4) \<Rightarrow>
          (case Segment_preallocate existed
                  (s\<lparr>sg_file := f, sg_index := ix, sg_time_index := tx,
                     sg_preallocated_to := file_size\<rparr>) w4 of
             (s', w5) \<Rightarrow>
               (case WallClockMillis w5 of
                  (now, w6) \<Rightarrow>
                    (Inr (s'\<lparr>sg_created_at_ms := now,
                             sg_last_indexed_position := LastIndexedPosition (sg_index s')\<rparr>), w6)))))))"

section \<open>Recovery\<close>

record scan_state =
  sc_position :: nat
  sc_offset :: offset
  sc_records :: nat
  sc_max_timestamp :: timestamp_ms
  sc_reason :: "stop_reason option"

text \<open>
  The inner loop over one chunk.  \<open>straddle\<close> says that the chunk was filled and the file goes on
  behind it, so that an incomplete record is re-read instead of reported.  It returns the
  position in the chunk and the scan so far; a reason stands for the \<open>done\<close> flag.
\<close>

function scan_chunk :: "bool \<Rightarrow> bytes \<Rightarrow> nat \<Rightarrow> scan_state \<Rightarrow> nat \<times> scan_state" where
  "scan_chunk straddle chunk chunk_pos sc =
     (if chunk_pos < length chunk
      then case ParseRecord chunk chunk_pos True of
          Inl e \<Rightarrow>
            if e = kOutOfRange \<and> straddle then (chunk_pos, sc)
            else (chunk_pos, sc\<lparr>sc_reason := Some (ParseStop e (sc_position sc + chunk_pos))\<rparr>)
        | Inr (v, nxt) \<Rightarrow>
            if rv_offset v \<noteq> sc_offset sc
            then (chunk_pos, sc\<lparr>sc_reason := Some (OffsetDiscontinuity (sc_offset sc) (rv_offset v))\<rparr>)
            else scan_chunk straddle chunk nxt
                   (sc\<lparr>sc_offset := sc_offset sc + 1, sc_records := sc_records sc + 1,
                       sc_max_timestamp := max (sc_max_timestamp sc) (rv_timestamp v)\<rparr>)
      else (chunk_pos, sc))"
  by pat_completeness auto
termination
  by (relation "measure (\<lambda>(straddle, chunk, chunk_pos, sc). length chunk - chunk_pos)")
    (auto dest: ParseRecord_framed(1,2))

declare scan_chunk.simps [simp del]

text \<open>
  The outer loop.  It need not end: when no whole record fits into the chunk, the code enlarges
  a buffer that the next round shrinks again, so the round is repeated as it was.
\<close>

partial_function (option) recover_scan ::
  "file_handle \<Rightarrow> nat \<Rightarrow> scan_state \<Rightarrow> os \<Rightarrow> (scan_state result \<times> os) option" where
  "recover_scan f file_size sc w =
     (if sc_reason sc = None \<and> sc_position sc < file_size
      then let want = min kRecoveryChunkBytes (file_size - sc_position sc) in
        case ReadAt want (sc_position sc) f w of
          (Inl e, w') \<Rightarrow> Some (Inl e, w')
        | (Inr chunk, w') \<Rightarrow>
            if chunk = [] then Some (Inr sc, w')
            else let (chunk_pos, sc') =
                   scan_chunk (length chunk = want \<and> sc_position sc + length chunk < file_size) chunk 0 sc
              in if chunk_pos = 0 \<and> sc_reason sc' = None
                 then if want \<ge> kMaxRecordBytes + 64
                      then Some (Inr (sc'\<lparr>sc_reason := Some RecordTooLarge\<rparr>), w')
                      else recover_scan f file_size sc' w'
                 else recover_scan f file_size (sc'\<lparr>sc_position := sc_position sc' + chunk_pos\<rparr>) w'
      else Some (Inr sc, w))"

text \<open>What lies behind the valid records: the zeros of preallocation, or damage.\<close>

definition preallocated_tail :: "nat \<Rightarrow> file_handle \<Rightarrow> os \<Rightarrow> bool \<times> os" where
  "preallocated_tail position f w =
     (case ReadAt 4 position f w of
        (Inl e, w') \<Rightarrow> (False, w')
      | (Inr peek, w') \<Rightarrow> (length peek = 4 \<and> LoadLe32 peek = 0, w'))"

definition Recover_finish ::
  "bool \<Rightarrow> scan_state \<Rightarrow> recovery_report \<Rightarrow> segment \<Rightarrow> os \<Rightarrow> recovery_report result \<times> segment \<times> os" where
  "Recover_finish full_scan sc report s w =
     (Inr report,
      s\<lparr>sg_end_position := sc_position sc,
        sg_synced_position := sc_position sc,
        sg_next_offset := sc_offset sc,
        sg_record_count := sc_records sc + (if full_scan then 0 else EntryCount (sg_index s)),
        sg_max_timestamp := max (sc_max_timestamp sc) (MaxTimestamp_indexed (sg_time_index s)),
        sg_last_indexed_position := LastIndexedPosition (sg_index s)\<rparr>, w)"

definition Recover_tail ::
  "bool \<Rightarrow> nat \<Rightarrow> scan_state \<Rightarrow> segment \<Rightarrow> os \<Rightarrow> recovery_report result \<times> segment \<times> os" where
  "Recover_tail full_scan file_size sc s w =
     (let position = sc_position sc;
          report = \<lparr>rr_next_offset = sc_offset sc, rr_valid_bytes = position, rr_truncated_bytes = 0,
                    rr_preallocated_bytes = 0, rr_records_scanned = sc_records sc,
                    rr_truncated = False, rr_reason = None\<rparr>
      in if position < file_size then
           (case preallocated_tail position (sg_file s) w of (zeros, w1) \<Rightarrow>
             let report' = (if zeros then report\<lparr>rr_preallocated_bytes := file_size - position\<rparr>
                            else report\<lparr>rr_truncated := True, rr_truncated_bytes := file_size - position,
                                        rr_reason := (case sc_reason sc of None \<Rightarrow> Some TrailingBytes
                                                      | Some why \<Rightarrow> Some why)\<rparr>)
             in (case File_Truncate position (sg_file s) w1 of
                   (Inl e, f, w2) \<Rightarrow> (Inl e, s\<lparr>sg_file := f\<rparr>, w2)
                 | (Inr _, f, w2) \<Rightarrow>
                 (case OffsetIndex_TruncateFrom (sc_offset sc) (sg_index s) w2 of
                   (Inl e, ix, w3) \<Rightarrow> (Inl e, s\<lparr>sg_file := f, sg_index := ix\<rparr>, w3)
                 | (Inr _, ix, w3) \<Rightarrow>
                 (case TimeIndex_TruncateFrom (sc_offset sc) (sg_time_index s) w3 of
                   (Inl e, tx, w4) \<Rightarrow> (Inl e, s\<lparr>sg_file := f, sg_index := ix, sg_time_index := tx\<rparr>, w4)
                 | (Inr _, tx, w4) \<Rightarrow>
                     Recover_finish full_scan sc report'
                       (s\<lparr>sg_file := f, sg_index := ix, sg_time_index := tx,
                          sg_preallocated_to := position\<rparr>) w4))))
         else Recover_finish full_scan sc report s w)"

definition Recover_start :: "bool \<Rightarrow> segment \<Rightarrow> scan_state" where
  "Recover_start full_scan s =
     (if \<not> full_scan \<and> EntryCount (sg_index s) > 0
      then \<lparr>sc_position = LastIndexedPosition (sg_index s), sc_offset = LastIndexedOffset (sg_index s),
            sc_records = 0, sc_max_timestamp = - 1, sc_reason = None\<rparr>
      else \<lparr>sc_position = 0, sc_offset = sg_base_offset s, sc_records = 0, sc_max_timestamp = - 1,
            sc_reason = None\<rparr>)"

definition Recover :: "bool \<Rightarrow> segment \<Rightarrow> os \<Rightarrow> (recovery_report result \<times> segment \<times> os) option" where
  "Recover full_scan s w =
     (case File_Size (sg_file s) w of
        (Inl e, w1) \<Rightarrow> Some (Inl e, s, w1)
      | (Inr file_size, w1) \<Rightarrow>
          (case recover_scan (sg_file s) file_size (Recover_start full_scan s) w1 of
             None \<Rightarrow> None
           | Some (Inl e, w2) \<Rightarrow> Some (Inl e, s, w2)
           | Some (Inr sc, w2) \<Rightarrow> Some (Recover_tail full_scan file_size sc s w2)))"


section \<open>Appending\<close>

text \<open>
  A failing index append is only logged; the time index is appended to when the offset index was.
\<close>

definition index_append :: "nat \<Rightarrow> offset \<Rightarrow> timestamp_ms \<Rightarrow> segment \<Rightarrow> os \<Rightarrow> segment \<times> os" where
  "index_append start append_base max_timestamp s w =
     (if sub64 start (sg_last_indexed_position s) \<ge> to_u64 (so_index_interval_bytes (sg_options s)) \<or>
         EntryCount (sg_index s) = 0
      then case OffsetIndex_Append append_base start (sg_index s) w of
          (Inl e, ix, w1) \<Rightarrow> (s\<lparr>sg_index := ix\<rparr>, w1)
        | (Inr _, ix, w1) \<Rightarrow>
            (case TimeIndex_Append max_timestamp append_base (sg_time_index s) w1 of
               (_, tx, w2) \<Rightarrow>
                 (s\<lparr>sg_index := ix, sg_last_indexed_position := start, sg_time_index := tx\<rparr>, w2))
      else (s, w))"

definition FinishAppend ::
  "nat \<Rightarrow> offset \<Rightarrow> offset \<Rightarrow> nat \<Rightarrow> timestamp_ms \<Rightarrow> segment \<Rightarrow> os \<Rightarrow> unit result \<times> segment \<times> os" where
  "FinishAppend len append_base last_offset record_count max_timestamp s w =
     (let start = sg_end_position s in
      case index_append start append_base max_timestamp s w of (s1, w1) \<Rightarrow>
        (Inr (),
         s1\<lparr>sg_end_position := start + len, sg_next_offset := last_offset + 1,
            sg_record_count := sg_record_count s1 + record_count,
            sg_max_timestamp := max (sg_max_timestamp s1) max_timestamp\<rparr>, w1))"

definition AppendEncoded ::
  "bytes \<Rightarrow> offset \<Rightarrow> offset \<Rightarrow> nat \<Rightarrow> timestamp_ms \<Rightarrow> segment \<Rightarrow> os \<Rightarrow> unit result \<times> segment \<times> os" where
  "AppendEncoded records append_base last_offset record_count max_timestamp s w =
     (if records = [] then (Inr (), s, w)
      else let start = sg_end_position s;
               s1 = (if start + length records > sg_preallocated_to s
                     then s\<lparr>sg_preallocated_to := start + length records\<rparr> else s)
        in case WriteAllAt records start (sg_file s1) w of
             (Inl e, f, w1) \<Rightarrow> (Inl e, s1\<lparr>sg_file := f\<rparr>, w1)
           | (Inr _, f, w1) \<Rightarrow>
               FinishAppend (length records) append_base last_offset record_count max_timestamp
                 (s1\<lparr>sg_file := f\<rparr>) w1)"

definition AppendEncodedVectored ::
  "bytes list \<Rightarrow> offset \<Rightarrow> offset \<Rightarrow> nat \<Rightarrow> timestamp_ms \<Rightarrow> segment \<Rightarrow> os \<Rightarrow>
   unit result \<times> segment \<times> os" where
  "AppendEncodedVectored chunks append_base last_offset record_count max_timestamp s w =
     (let total_bytes = sum_list (map length chunks) in
      if total_bytes = 0 then (Inr (), s, w)
      else let start = sg_end_position s;
               s1 = (if start + total_bytes > sg_preallocated_to s
                     then s\<lparr>sg_preallocated_to := start + total_bytes\<rparr> else s)
        in case WriteVectoredAt chunks start (sg_file s1) w of
             (Inl e, f, w1) \<Rightarrow> (Inl e, s1\<lparr>sg_file := f\<rparr>, w1)
           | (Inr _, f, w1) \<Rightarrow>
               FinishAppend total_bytes append_base last_offset record_count max_timestamp
                 (s1\<lparr>sg_file := f\<rparr>) w1)"

section \<open>Finding a record\<close>

text \<open>The walk over one block by length prefixes; the result is the position in the block and the offset there.\<close>

function scan_block :: "bytes \<Rightarrow> nat \<Rightarrow> nat \<Rightarrow> offset \<Rightarrow> nat \<Rightarrow> offset \<Rightarrow> (nat \<times> offset) result" where
  "scan_block block position limit target block_pos current =
     (if current < target \<and> block_pos + 4 \<le> length block
      then let record_size = unat (LoadLe32 (drop block_pos block)) + 4 in
        if record_size < kRecordFixedPrefix \<or> position + block_pos + record_size > limit
        then Inl kCorruption
        else if block_pos + record_size > length block then Inr (block_pos, current)
        else scan_block block position limit target (block_pos + record_size) (current + 1)
      else Inr (block_pos, current))"
  by auto
termination
  by (relation "measure (\<lambda>(block, position, limit, target, block_pos, current). length block - block_pos)")
    auto

declare scan_block.simps [simp del]

lemma scan_block_progress:
  "scan_block block position limit target block_pos current = Inr (bp, cur) \<Longrightarrow>
   block_pos \<le> bp \<and> (block_pos < bp \<longrightarrow> position + bp \<le> limit)"
proof (induction block position limit target block_pos current rule: scan_block.induct)
  case (1 block position limit target block_pos current)
  then show ?case
    unfolding scan_block.simps [of block position limit target block_pos current]
    by (fastforce simp: Let_def split: if_splits)
qed

text \<open>
  One round of the scan: read a block, walk it, and go on behind the records walked; a record
  larger than the block enlarges the block instead.  The result is the next position, the offset
  there and the block size.
\<close>

definition position_round ::
  "file_handle \<Rightarrow> nat \<Rightarrow> offset \<Rightarrow> nat \<Rightarrow> offset \<Rightarrow> nat \<Rightarrow> os \<Rightarrow> (nat \<times> offset \<times> nat) result \<times> os" where
  "position_round f limit target position current block_size w =
     (let want = min block_size (sub64 limit position) in
      if want < 4 then (Inl kCorruption, w)
      else case ReadAt want position f w of
        (Inl e, w1) \<Rightarrow> (Inl e, w1)
      | (Inr block, w1) \<Rightarrow>
          if length block < 4 then (Inl kCorruption, w1)
          else (case scan_block block position limit target 0 current of
             Inl e \<Rightarrow> (Inl e, w1)
           | Inr (block_pos, current') \<Rightarrow>
               if block_pos = 0
               then let record_size = unat (LoadLe32 block) + 4 in
                 if record_size < kRecordFixedPrefix \<or> record_size > kMaxRecordBytes \<or>
                    position + record_size > limit then (Inl kCorruption, w1)
                 else if record_size \<le> block_size then (Inl kCorruption, w1)
                 else (Inr (position, current', record_size), w1)
               else (Inr (position + block_pos, current', block_size), w1)))"

lemma position_round_progress:
  assumes "position_round f limit target position current block_size w = (Inr (position', current', block_size'), w')"
  shows "position < position' \<and> position' \<le> limit \<or>
    position' = position \<and> block_size < block_size' \<and> block_size' \<le> limit"
  using assms
  by (auto simp: position_round_def Let_def dest!: scan_block_progress split: if_splits prod.splits sum.splits)

function position_scan ::
  "file_handle \<Rightarrow> nat \<Rightarrow> offset \<Rightarrow> nat \<Rightarrow> offset \<Rightarrow> nat \<Rightarrow> os \<Rightarrow> nat result \<times> os" where
  "position_scan f limit target position current block_size w =
     (if current < target
      then case position_round f limit target position current block_size w of
          (Inl e, w1) \<Rightarrow> (Inl e, w1)
        | (Inr (position', current', block_size'), w1) \<Rightarrow>
            position_scan f limit target position' current' block_size' w1
      else (Inr position, w))"
  by pat_completeness auto
termination
  by (relation "measures [\<lambda>(f, limit, target, position, current, block_size, w). limit - position,
                          \<lambda>(f, limit, target, position, current, block_size, w). limit - block_size]")
    (auto dest!: position_round_progress [OF sym])

declare position_scan.simps [simp del]

definition PositionFor :: "offset \<Rightarrow> segment \<Rightarrow> os \<Rightarrow> nat result \<times> os" where
  "PositionFor off s w =
     (if off < sg_base_offset s then (Inl kOutOfRange, w)
      else if off \<ge> sg_next_offset s then (Inl kOutOfRange, w)
      else let limit = sg_end_position s;
               (position, current) =
                 (case LookupFloor off (sg_index s) of
                    None \<Rightarrow> (0, sg_base_offset s)
                  | Some e \<Rightarrow> (unat (oe_file_position e), sg_base_offset s + uint (oe_relative_offset e)))
        in if current \<ge> off then (Inr position, w)
           else position_scan (sg_file s) limit off position current
                  (nat (max (so_index_interval_bytes (sg_options s)) 8192)) w)"

section \<open>Reading\<close>

record read_result =
  rd_base_offset :: offset
  rd_record_count :: nat
  rd_bytes :: nat
  rd_reached_end :: bool

text \<open>
  The records of a chunk that fit: \<open>chunk_pos\<close> and \<open>accepted\<close> of the source advance together.
\<close>

function accept_records ::
  "bytes \<Rightarrow> offset \<Rightarrow> offset \<Rightarrow> nat \<Rightarrow> nat \<Rightarrow> nat \<Rightarrow> nat \<Rightarrow> nat \<Rightarrow> nat \<times> nat" where
  "accept_records chunk off end_off record_count got_bytes max_bytes accepted accepted_records =
     (if accepted < length chunk \<and> off + int accepted_records < end_off
      then case PeekRecordLength chunk accepted of
          None \<Rightarrow> (accepted, accepted_records)
        | Some len \<Rightarrow>
            let record_size = len + 4 in
            if accepted + record_size > length chunk then (accepted, accepted_records)
            else if record_count + accepted_records > 0 \<and> got_bytes + accepted + record_size > max_bytes
            then (accepted, accepted_records)
            else accept_records chunk off end_off record_count got_bytes max_bytes
                   (accepted + record_size) (accepted_records + 1)
      else (accepted, accepted_records))"
  by auto
termination
  by (relation "measure (\<lambda>(chunk, off, end_off, rc, gb, mb, accepted, ar). length chunk - accepted)") auto

declare accept_records.simps [simp del]

text \<open>
  One round of the reading loop: \<open>Inr None\<close> leaves the loop, \<open>Inr (Some (accepted, n))\<close> goes on
  behind \<open>n\<close> more records.  On an I/O error the buffer keeps what earlier rounds committed.  Its
  second half reads \<open>want\<close> bytes into the buffer and commits the records that fit.
\<close>

definition read_chunk ::
  "file_handle \<Rightarrow> offset \<Rightarrow> nat \<Rightarrow> nat \<Rightarrow> offset \<Rightarrow> nat \<Rightarrow> nat \<Rightarrow> nat \<Rightarrow> nat \<Rightarrow> byte_buffer \<Rightarrow> os \<Rightarrow>
   (nat \<times> nat) option result \<times> byte_buffer \<times> os" where
  "read_chunk f end_off max_bytes cursor off rc rbytes want next_record_size out w =
     (let out1 = EnsureWritable want out in
      case ReadAt want cursor f w of
        (Inl e, w1) \<Rightarrow> (Inl e, out1, w1)
      | (Inr chunk, w1) \<Rightarrow>
          let out2 = poke 0 chunk out1 in
          if length chunk < next_record_size then (Inr None, out2, w1)
          else let (accepted, n) = accept_records chunk off end_off rc rbytes max_bytes 0 0 in
            if accepted = 0 then (Inr None, out2, w1)
            else (Inr (Some (accepted, n)), Commit accepted out2, w1))"

definition read_round ::
  "file_handle \<Rightarrow> nat \<Rightarrow> offset \<Rightarrow> nat \<Rightarrow> nat \<Rightarrow> offset \<Rightarrow> nat \<Rightarrow> nat \<Rightarrow> byte_buffer \<Rightarrow> os \<Rightarrow>
   (nat \<times> nat) option result \<times> byte_buffer \<times> os" where
  "read_round f limit end_off max_bytes cursor off rc rbytes out w =
     (let budget_left = (if max_bytes > rbytes then max_bytes - rbytes else 0) in
      if budget_left = 0 then (Inr None, out, w)
      else case ReadExactAt 4 cursor f w of
        (Inl e, w1) \<Rightarrow> (Inl e, out, w1)
      | (Inr length_bytes, w1) \<Rightarrow>
          let next_record_size = unat (LoadLe32 length_bytes) + 4 in
          if next_record_size < kRecordFixedPrefix \<or> cursor + next_record_size > limit
          then (Inl kCorruption, out, w1)
          else let want = min kRecoveryChunkBytes (min (limit - cursor) budget_left) in
            if want < next_record_size
            then if rc > 0 then (Inr None, out, w1)
                 else read_chunk f end_off max_bytes cursor off rc rbytes next_record_size
                        next_record_size out w1
            else read_chunk f end_off max_bytes cursor off rc rbytes want next_record_size out w1)"

lemma read_chunk_accepts:
  "read_chunk f end_off max_bytes cursor off rc rbytes want nrs out w = (Inr (Some (accepted, n)), out', w') \<Longrightarrow>
   0 < accepted"
  by (auto simp: read_chunk_def Let_def split: if_splits prod.splits sum.splits)

lemma read_round_accepts:
  "read_round f limit end_off max_bytes cursor off rc rbytes out w = (Inr (Some (accepted, n)), out', w') \<Longrightarrow>
   0 < accepted"
  by (auto simp: read_round_def Let_def dest: read_chunk_accepts split: if_splits prod.splits sum.splits)

function read_loop ::
  "file_handle \<Rightarrow> nat \<Rightarrow> offset \<Rightarrow> nat \<Rightarrow> nat \<Rightarrow> offset \<Rightarrow> nat \<Rightarrow> nat \<Rightarrow> byte_buffer \<Rightarrow> os \<Rightarrow>
   (offset \<times> nat \<times> nat) result \<times> byte_buffer \<times> os" where
  "read_loop f limit end_off max_bytes cursor off rc rbytes out w =
     (if cursor < limit \<and> off < end_off
      then case read_round f limit end_off max_bytes cursor off rc rbytes out w of
          (Inl e, out', w') \<Rightarrow> (Inl e, out', w')
        | (Inr None, out', w') \<Rightarrow> (Inr (off, rc, rbytes), out', w')
        | (Inr (Some (accepted, n)), out', w') \<Rightarrow>
            read_loop f limit end_off max_bytes (cursor + accepted) (off + int n) (rc + n)
              (rbytes + accepted) out' w'
      else (Inr (off, rc, rbytes), out, w))"
  by pat_completeness auto
termination
  by (relation "measure (\<lambda>(f, limit, end_off, mb, cursor, off, rc, rb, out, w). limit - cursor)")
    (auto dest!: read_round_accepts [OF sym])

declare read_loop.simps [simp del]

definition Segment_Read ::
  "offset \<Rightarrow> nat \<Rightarrow> byte_buffer \<Rightarrow> segment \<Rightarrow> os \<Rightarrow> read_result result \<times> byte_buffer \<times> os" where
  "Segment_Read from max_bytes out s w =
     (let end_off = sg_next_offset s; limit = sg_end_position s in
      if from \<ge> end_off
      then (Inr \<lparr>rd_base_offset = from, rd_record_count = 0, rd_bytes = 0, rd_reached_end = True\<rparr>, out, w)
      else case PositionFor from s w of
        (Inl e, w1) \<Rightarrow> (Inl e, out, w1)
      | (Inr position, w1) \<Rightarrow>
          (case read_loop (sg_file s) limit end_off max_bytes position from 0 0 out w1 of
             (Inl e, out', w2) \<Rightarrow> (Inl e, out', w2)
           | (Inr (off, rc, rbytes), out', w2) \<Rightarrow>
               (Inr \<lparr>rd_base_offset = from, rd_record_count = rc, rd_bytes = rbytes,
                     rd_reached_end = (off \<ge> end_off)\<rparr>, out', w2)))"

section \<open>Truncating, flushing, closing\<close>

definition Segment_TruncateFrom :: "offset \<Rightarrow> segment \<Rightarrow> os \<Rightarrow> unit result \<times> segment \<times> os" where
  "Segment_TruncateFrom off s w =
     (if off \<ge> sg_next_offset s then (Inr (), s, w)
      else if off \<le> sg_base_offset s then
        (case File_Truncate 0 (sg_file s) w of
           (Inl e, f, w1) \<Rightarrow> (Inl e, s\<lparr>sg_file := f\<rparr>, w1)
         | (Inr _, f, w1) \<Rightarrow>
         (case OffsetIndex_TruncateFrom (sg_base_offset s) (sg_index s) w1 of
           (Inl e, ix, w2) \<Rightarrow> (Inl e, s\<lparr>sg_file := f, sg_index := ix\<rparr>, w2)
         | (Inr _, ix, w2) \<Rightarrow>
         (case TimeIndex_TruncateFrom (sg_base_offset s) (sg_time_index s) w2 of
           (Inl e, tx, w3) \<Rightarrow> (Inl e, s\<lparr>sg_file := f, sg_index := ix, sg_time_index := tx\<rparr>, w3)
         | (Inr _, tx, w3) \<Rightarrow>
             (Inr (), s\<lparr>sg_file := f, sg_index := ix, sg_time_index := tx, sg_end_position := 0,
                        sg_next_offset := sg_base_offset s, sg_synced_position := 0,
                        sg_record_count := 0, sg_last_indexed_position := 0,
                        sg_preallocated_to := 0\<rparr>, w3))))
      else case PositionFor off s w of
        (Inl e, w1) \<Rightarrow> (Inl e, s, w1)
      | (Inr position, w1) \<Rightarrow>
        (case File_Truncate position (sg_file s) w1 of
           (Inl e, f, w2) \<Rightarrow> (Inl e, s\<lparr>sg_file := f\<rparr>, w2)
         | (Inr _, f, w2) \<Rightarrow>
         (case OffsetIndex_TruncateFrom off (sg_index s) w2 of
           (Inl e, ix, w3) \<Rightarrow> (Inl e, s\<lparr>sg_file := f, sg_index := ix\<rparr>, w3)
         | (Inr _, ix, w3) \<Rightarrow>
         (case TimeIndex_TruncateFrom off (sg_time_index s) w3 of
           (Inl e, tx, w4) \<Rightarrow> (Inl e, s\<lparr>sg_file := f, sg_index := ix, sg_time_index := tx\<rparr>, w4)
         | (Inr _, tx, w4) \<Rightarrow>
             (Inr (), s\<lparr>sg_file := f, sg_index := ix, sg_time_index := tx,
                        sg_end_position := position, sg_next_offset := off,
                        sg_synced_position := (if sg_synced_position s > position then position
                                               else sg_synced_position s),
                        sg_record_count := to_u64 (off - sg_base_offset s),
                        sg_last_indexed_position := LastIndexedPosition ix,
                        sg_preallocated_to := position\<rparr>, w4)))))"

definition Segment_Sync :: "segment \<Rightarrow> os \<Rightarrow> unit result \<times> segment \<times> os" where
  "Segment_Sync s w =
     (let position = sg_end_position s in
      if position = sg_synced_position s then (Inr (), s, w)
      else case File_Sync (so_sync_mode (sg_options s)) (sg_file s) w of
        (Inl e, f, w1) \<Rightarrow> (Inl e, s\<lparr>sg_file := f\<rparr>, w1)
      | (Inr _, f, w1) \<Rightarrow>
      (case OffsetIndex_Sync (sg_index s) w1 of
        (Inl e, ix, w2) \<Rightarrow> (Inl e, s\<lparr>sg_file := f, sg_index := ix\<rparr>, w2)
      | (Inr _, ix, w2) \<Rightarrow>
      (case TimeIndex_Sync (sg_time_index s) w2 of
        (Inl e, tx, w3) \<Rightarrow> (Inl e, s\<lparr>sg_file := f, sg_index := ix, sg_time_index := tx\<rparr>, w3)
      | (Inr _, tx, w3) \<Rightarrow>
          (Inr (), s\<lparr>sg_file := f, sg_index := ix, sg_time_index := tx,
                     sg_synced_position := position\<rparr>, w3))))"

definition close_handles :: "segment \<Rightarrow> segment" where
  "close_handles s =
     s\<lparr>sg_file := File_Close (sg_file s), sg_index := OffsetIndex_Close (sg_index s),
       sg_time_index := TimeIndex_Close (sg_time_index s)\<rparr>"

definition Segment_Close :: "segment \<Rightarrow> os \<Rightarrow> unit result \<times> segment \<times> os" where
  "Segment_Close s w =
     (if \<not> fh_valid (sg_file s) then (Inr (), close_handles s, w)
      else case Segment_Sync s w of (status, s1, w1) \<Rightarrow>
        if sg_preallocated_to s1 > sg_end_position s1 then
          (case File_Truncate (sg_end_position s1) (sg_file s1) w1 of
             (trunc, f, w2) \<Rightarrow>
               ((if status = Inr () \<and> trunc \<noteq> Inr () then trunc else status),
                close_handles (s1\<lparr>sg_file := f\<rparr>), w2))
        else (status, close_handles s1, w1))"

text \<open>The files of a segment as they stand in its directory.\<close>

definition files_of :: "segment \<Rightarrow> segment_files" where
  "files_of s =
     \<lparr>sf_log = Some (fh_content (sg_file s)), sf_index = Some (fh_content (oi_file (sg_index s))),
      sf_tindex = Some (fh_content (ti_file (sg_time_index s)))\<rparr>"

text \<open>
  \<open>Delete\<close> removes the three files with one \<open>error_code\<close>: each call overwrites it, so only the
  outcome of the last one is seen.  What is left in the directory is returned too.
\<close>

definition Segment_Delete :: "segment \<Rightarrow> os \<Rightarrow> unit result \<times> segment_files \<times> os" where
  "Segment_Delete s w =
     (case next_reply w of (q1, w1) \<Rightarrow>
      case next_reply w1 of (q2, w2) \<Rightarrow>
      case next_reply w2 of (q3, w3) \<Rightarrow>
        let left = \<lambda>q x. (case reply_error q of None \<Rightarrow> None | Some _ \<Rightarrow> x);
            files = \<lparr>sf_log = left q1 (sf_log (files_of s)), sf_index = left q2 (sf_index (files_of s)),
                     sf_tindex = left q3 (sf_tindex (files_of s))\<rparr>
        in (case reply_error q3 of Some e \<Rightarrow> (Inl kIoError, files, w3) | None \<Rightarrow> (Inr (), files, w3)))"

definition Segment_OffsetForTimestamp :: "timestamp_ms \<Rightarrow> segment \<Rightarrow> offset option" where
  "Segment_OffsetForTimestamp target s = LookupCeiling target (sg_time_index s)"

definition IsFull :: "int \<Rightarrow> segment \<Rightarrow> bool" where
  "IsFull max_bytes s \<longleftrightarrow> int (sg_end_position s) \<ge> max_bytes"

end
