(* ===== verification/PL_Segment_Inv.thy ===== *)
theory PL_Segment_Inv
  imports PL_Segment
begin

text \<open>
  What a segment promises: its data file begins with a run of framed records with consecutive
  offsets, ending at the published end position; every index entry points at the start of the
  record it names.  Each operation is shown to keep this invariant for every behaviour of the
  kernel, and to return the records it should.
\<close>

section \<open>Runs of records\<close>

fun chained :: "offset \<Rightarrow> bytes list \<Rightarrow> bool" where
  "chained base [] = True"
| "chained base (r # rs) = (framed r \<and> rec_offset r = base \<and> chained (base + 1) rs)"

lemma chained_append: "chained base (rs @ ts) \<longleftrightarrow> chained base rs \<and> chained (base + int (length rs)) ts"
  by (induction rs arbitrary: base) (auto simp: algebra_simps)

lemma chained_take: "chained base rs \<Longrightarrow> chained base (take n rs)"
  by (metis append_take_drop_id chained_append)

lemma chained_drop: "chained base rs \<Longrightarrow> n \<le> length rs \<Longrightarrow> chained (base + int n) (drop n rs)"
  using chained_append [of base "take n rs" "drop n rs"] by simp

lemma chained_framed: "chained base rs \<Longrightarrow> r \<in> set rs \<Longrightarrow> framed r"
  by (induction rs arbitrary: base) auto

lemma chained_all_framed: "chained base rs \<Longrightarrow> list_all framed rs"
  by (simp add: list_all_iff chained_framed)

definition rec_pos :: "bytes list \<Rightarrow> nat \<Rightarrow> nat" where
  "rec_pos rs i = length (concat (take i rs))"

lemma rec_pos_0 [simp]: "rec_pos rs 0 = 0"
  by (simp add: rec_pos_def)

lemma rec_pos_all [simp]: "length rs \<le> i \<Longrightarrow> rec_pos rs i = length (concat rs)"
  by (simp add: rec_pos_def)

lemma rec_pos_mono: "i \<le> j \<Longrightarrow> rec_pos rs i \<le> rec_pos rs j"
  unfolding rec_pos_def by (rule length_concat_take_mono)

lemma rec_pos_le: "rec_pos rs i \<le> length (concat rs)"
  unfolding rec_pos_def by (rule length_concat_take_le)

lemma rec_pos_Suc: "i < length rs \<Longrightarrow> rec_pos rs (Suc i) = rec_pos rs i + length (rs ! i)"
  unfolding rec_pos_def by (rule length_concat_take_Suc)

lemma rec_pos_append: "i \<le> length rs \<Longrightarrow> rec_pos (rs @ ts) i = rec_pos rs i"
  by (simp add: rec_pos_def)

lemma rec_pos_take: "i \<le> n \<Longrightarrow> rec_pos (take n rs) i = rec_pos rs i"
  by (simp add: rec_pos_def min_absorb1)

lemma rec_pos_add: "rec_pos rs (i + j) = rec_pos rs i + rec_pos (drop i rs) j"
  by (simp add: rec_pos_def take_add)

lemma rec_pos_strict: "i < j \<Longrightarrow> j \<le> length rs \<Longrightarrow> list_all framed rs \<Longrightarrow> rec_pos rs i < rec_pos rs j"
proof -
  assume "i < j" "j \<le> length rs" "list_all framed rs"
  then have "framed (rs ! i)" by (simp add: list_all_length)
  then have "rec_pos rs i < rec_pos rs (Suc i)"
    using \<open>i < j\<close> \<open>j \<le> length rs\<close> by (subst rec_pos_Suc) (auto simp: framed_def)
  also have "\<dots> \<le> rec_pos rs j" using \<open>i < j\<close> by (intro rec_pos_mono) simp
  finally show ?thesis .
qed

lemma drop_rec_pos: "drop (rec_pos rs i) (concat rs) = concat (drop i rs)"
  unfolding rec_pos_def by (rule drop_concat_take)

lemma take_rec_pos: "take (rec_pos rs i) (concat rs) = concat (take i rs)"
  by (metis append_eq_conv_conj append_take_drop_id concat_append rec_pos_def)

text \<open>The length prefix that is found at the start of a record, also when the record is cut.\<close>

lemma framed_prefix:
  assumes "framed r" "4 \<le> n"
  shows "unat (LoadLe32 (take n (r @ rest))) + 4 = length r"
  using assms by (simp add: LoadLe_take LoadLe_append framed_def)

lemma prefix_at:
  assumes "list_all framed ts" "j < length ts" "rec_pos ts j + 4 \<le> n"
  shows "unat (LoadLe32 (drop (rec_pos ts j) (take n (concat ts)))) + 4 = length (ts ! j)"
proof -
  have "drop (rec_pos ts j) (take n (concat ts)) = take (n - rec_pos ts j) (ts ! j @ concat (drop (Suc j) ts))"
    using assms(2) by (simp add: drop_take drop_rec_pos flip: Cons_nth_drop_Suc)
  with framed_prefix [of "ts ! j" "n - rec_pos ts j"] assms show ?thesis
    by (simp add: list_all_length)
qed


section \<open>The invariant\<close>

definition boundary :: "bytes list \<Rightarrow> nat \<Rightarrow> bool" where
  "boundary rs p \<longleftrightarrow> (\<exists>k \<le> length rs. p = rec_pos rs k)"

definition index_points :: "bytes list \<Rightarrow> offset_index_entry list \<Rightarrow> bool" where
  "index_points rs es \<longleftrightarrow>
     (\<forall>e \<in> set es. unat (oe_relative_offset e) < length rs \<and>
        unat (oe_file_position e) = rec_pos rs (unat (oe_relative_offset e)))"

lemma oe_rel_unat: "oe_rel e = int n \<Longrightarrow> unat (oe_relative_offset e) = n"
  by (metis nat_int unat_eq_nat_uint)

definition seg_inv :: "segment \<Rightarrow> bytes list \<Rightarrow> bool" where
  "seg_inv s rs \<longleftrightarrow>
     fh_valid (sg_file s) \<and>
     take (length (concat rs)) (fh_content (sg_file s)) = concat rs \<and>
     sg_end_position s = length (concat rs) \<and>
     chained (sg_base_offset s) rs \<and>
     sg_next_offset s = sg_base_offset s + int (length rs) \<and>
     oi_ok (sg_index s) \<and> oi_base_offset (sg_index s) = sg_base_offset s \<and>
     index_points rs (oi_entries (sg_index s)) \<and>
     ti_ok (sg_time_index s) \<and> ti_base_offset (sg_time_index s) = sg_base_offset s \<and>
     (\<forall>e \<in> set (ti_entries (sg_time_index s)). te_rel e < int (length rs)) \<and>
     boundary rs (sg_synced_position s) \<and>
     take (sg_synced_position s) (fh_durable (sg_file s)) = take (sg_synced_position s) (concat rs)"

lemma boundary_le: "boundary rs p \<Longrightarrow> p \<le> length (concat rs)"
  using rec_pos_le by (auto simp: boundary_def simp del: length_concat)

lemma boundary_append: "boundary rs p \<Longrightarrow> boundary (rs @ ts) p"
  unfolding boundary_def using rec_pos_append by (metis length_append trans_le_add1)

lemma boundary_all: "boundary rs (length (concat rs))"
  unfolding boundary_def by (rule exI [of _ "length rs"]) simp

lemma index_points_append: "index_points rs es \<Longrightarrow> index_points (rs @ ts) es"
  by (auto simp: index_points_def rec_pos_append)

lemma seg_inv_content_length:
  "seg_inv s rs \<Longrightarrow> sg_end_position s \<le> length (fh_content (sg_file s))"
  by (auto simp: seg_inv_def simp del: length_concat) (metis length_take min.cobounded1 min.commute)

lemma seg_inv_file_write:
  assumes "seg_inv s rs" "wrote d (sg_end_position s) (sg_file s) r f"
  shows "seg_inv (s\<lparr>sg_file := f\<rparr>) rs"
    and "r = Inr () \<Longrightarrow> take (sg_end_position s + length d) (fh_content f) = concat rs @ d"
proof -
  note len = seg_inv_content_length [OF assms(1)]
  from assms(2) obtain n where f: "f = (sg_file s)\<lparr>fh_content :=
      pwrite_bytes (sg_end_position s) (take n d) (fh_content (sg_file s))\<rparr>"
    and n: "r = Inr () \<longleftrightarrow> n = length d" by (auto simp: wrote_def)
  have "take (sg_end_position s) (fh_content f) = take (sg_end_position s) (fh_content (sg_file s))"
    using len by (simp add: f take_pwrite_bytes)
  then show "seg_inv (s\<lparr>sg_file := f\<rparr>) rs"
    using assms(1) by (simp add: seg_inv_def f)
  show "take (sg_end_position s + length d) (fh_content f) = concat rs @ d" if "r = Inr ()"
    using take_pwrite_bytes_end [OF len, of d] that n assms(1) by (simp add: f seg_inv_def)
qed

lemma index_append_spec:
  assumes "seg_inv s rs" "index_append start (sg_next_offset s) mts s w = (s', w')"
    and "start = sg_end_position s" "news \<noteq> []"
  shows "\<exists>ix tx p. s' = s\<lparr>sg_index := ix, sg_last_indexed_position := p, sg_time_index := tx\<rparr> \<and>
    oi_ok ix \<and> oi_base_offset ix = sg_base_offset s \<and> index_points (rs @ news) (oi_entries ix) \<and>
    ti_ok tx \<and> ti_base_offset tx = sg_base_offset s \<and>
    (\<forall>e \<in> set (ti_entries tx). te_rel e < int (length (rs @ news)))"
proof -
  have oi: "oi_ok (sg_index s)" "oi_base_offset (sg_index s) = sg_base_offset s"
    and ip: "index_points (rs @ news) (oi_entries (sg_index s))"
    and ti: "ti_ok (sg_time_index s)" "ti_base_offset (sg_time_index s) = sg_base_offset s"
    and tl: "\<forall>e \<in> set (ti_entries (sg_time_index s)). te_rel e < int (length (rs @ news))"
    and start: "start = rec_pos rs (length rs)" and nxt: "sg_next_offset s - sg_base_offset s = int (length rs)"
    using assms(1,3) by (auto simp: seg_inv_def index_points_append)
  show ?thesis
  proof (cases "sub64 start (sg_last_indexed_position s) \<ge> to_u64 (so_index_interval_bytes (sg_options s)) \<or>
        EntryCount (sg_index s) = 0")
    case False
    then have "s' = s" using assms(2) by (auto simp: index_append_def)
    then show ?thesis using oi ip ti tl
      by (intro exI [of _ "sg_index s"] exI [of _ "sg_time_index s"] exI [of _ "sg_last_indexed_position s"]) simp
  next
    case True
    obtain r ix w1 where ap: "OffsetIndex_Append (sg_next_offset s) start (sg_index s) w = (r, ix, w1)"
      using prod_cases3 by blast
    note spec = OffsetIndex_Append_spec [OF oi(1) ap]
    have ip': "index_points (rs @ news) (oi_entries ix)"
      using spec ip nxt assms(4) oi(2) start
      by (auto simp: index_points_def rec_pos_append dest!: oe_rel_unat split: if_splits)
    show ?thesis
    proof (cases r)
      case (Inl e)
      then have "s' = s\<lparr>sg_index := ix\<rparr>" using assms(2) True ap by (simp add: index_append_def)
      then show ?thesis using spec oi(2) ip' ti tl
        by (intro exI [of _ ix] exI [of _ "sg_time_index s"] exI [of _ "sg_last_indexed_position s"]) simp
    next
      case (Inr u)
      obtain r2 tx w2 where tp: "TimeIndex_Append mts (sg_next_offset s) (sg_time_index s) w1 = (r2, tx, w2)"
        using prod_cases3 by blast
      have s': "s' = s\<lparr>sg_index := ix, sg_last_indexed_position := start, sg_time_index := tx\<rparr>"
        using assms(2) True ap Inr tp by (simp add: index_append_def)
      have "\<forall>e \<in> set (ti_entries tx). te_rel e < int (length (rs @ news))"
        using TimeIndex_Append_spec [OF ti(1) tp] tl nxt ti(2) assms(4) by auto
      then show ?thesis using s' spec oi(2) ip' TimeIndex_Append_spec [OF ti(1) tp] ti(2)
        by (intro exI [of _ ix] exI [of _ tx] exI [of _ start]) simp
    qed
  qed
qed

lemma FinishAppend_inv:
  assumes "seg_inv s rs" "chained (sg_next_offset s) news" "news \<noteq> []"
    and "take (sg_end_position s + length (concat news)) (fh_content (sg_file s)) = concat (rs @ news)"
    and "FinishAppend (length (concat news)) (sg_next_offset s) (sg_next_offset s + int (length news) - 1)
           n mts s w = (r, s', w')"
  shows "r = Inr () \<and> seg_inv s' (rs @ news) \<and> sg_base_offset s' = sg_base_offset s"
proof -
  obtain s1 w1 where ia: "index_append (sg_end_position s) (sg_next_offset s) mts s w = (s1, w1)" by fastforce
  from index_append_spec [OF assms(1) ia refl assms(3)] obtain ix tx p where
    s1: "s1 = s\<lparr>sg_index := ix, sg_last_indexed_position := p, sg_time_index := tx\<rparr>"
    and ok: "oi_ok ix" "oi_base_offset ix = sg_base_offset s" "index_points (rs @ news) (oi_entries ix)"
      "ti_ok tx" "ti_base_offset tx = sg_base_offset s"
      "\<forall>e \<in> set (ti_entries tx). te_rel e < int (length (rs @ news))"
    by blast
  have b: "boundary (rs @ news) (sg_synced_position s)" "sg_synced_position s \<le> length (concat rs)"
    using assms(1) by (auto simp: seg_inv_def boundary_append dest: boundary_le simp del: length_concat)
  have "chained (sg_base_offset s) (rs @ news)"
    using assms(1,2) by (simp add: seg_inv_def chained_append)
  then show ?thesis
    using assms(1,4,5) ia ok b
    by (auto simp: FinishAppend_def s1 seg_inv_def Let_def simp del: length_concat)
qed

text \<open>
  Both ways of appending: room is accounted for, the bytes are written behind the end, and only
  then are the end position and the next offset published.
\<close>

definition reserve :: "nat \<Rightarrow> segment \<Rightarrow> segment" where
  "reserve n s = (if sg_end_position s + n > sg_preallocated_to s
                  then s\<lparr>sg_preallocated_to := sg_end_position s + n\<rparr> else s)"

lemma append_inv:
  assumes "seg_inv s rs" "chained (sg_next_offset s) news" "news \<noteq> []"
    and "wrote (concat news) (sg_end_position s) (sg_file s) r1 f"
    and "(case r1 of Inl e \<Rightarrow> (Inl e, (reserve (length (concat news)) s)\<lparr>sg_file := f\<rparr>, w1)
      | Inr _ \<Rightarrow> FinishAppend (length (concat news)) (sg_next_offset s)
          (sg_next_offset s + int (length news) - 1) n mts
          ((reserve (length (concat news)) s)\<lparr>sg_file := f\<rparr>) w1) = (r, s', w')"
  shows "seg_inv s' (if r = Inr () then rs @ news else rs) \<and> sg_base_offset s' = sg_base_offset s"
proof -
  define s1 where "s1 = reserve (length (concat news)) s"
  have s1: "sg_next_offset s1 = sg_next_offset s" "sg_end_position s1 = sg_end_position s"
    "sg_base_offset s1 = sg_base_offset s" "sg_file s1 = sg_file s" "seg_inv s1 rs"
    using assms(1) by (simp_all add: s1_def reserve_def seg_inv_def)
  note inv2 = seg_inv_file_write [OF s1(5), unfolded s1, OF assms(4)]
  show ?thesis
  proof (cases r1)
    case (Inl e)
    with assms(5) inv2(1) s1 show ?thesis by (auto simp: s1_def [symmetric])
  next
    case (Inr u)
    have sel: "sg_next_offset (s1\<lparr>sg_file := f\<rparr>) = sg_next_offset s"
      "sg_end_position (s1\<lparr>sg_file := f\<rparr>) = sg_end_position s" "sg_file (s1\<lparr>sg_file := f\<rparr>) = f"
      "sg_base_offset (s1\<lparr>sg_file := f\<rparr>) = sg_base_offset s"
      by (simp_all add: s1)
    have "FinishAppend (length (concat news)) (sg_next_offset s)
          (sg_next_offset s + int (length news) - 1) n mts (s1\<lparr>sg_file := f\<rparr>) w1 = (r, s', w')"
      using assms(5) Inr by (simp only: sum.case s1_def)
    moreover have "take (sg_end_position s + length (concat news)) (fh_content f) = concat (rs @ news)"
      using inv2(2) Inr by simp
    ultimately have "r = Inr () \<and> seg_inv s' (rs @ news) \<and> sg_base_offset s' = sg_base_offset s"
      by (intro FinishAppend_inv [OF inv2(1), unfolded sel, OF assms(2,3)])
    then show ?thesis by simp
  qed
qed

lemma AppendEncoded_inv:
  assumes "seg_inv s rs" "chained (sg_next_offset s) news" "news \<noteq> []"
    and "AppendEncoded (concat news) (sg_next_offset s) (sg_next_offset s + int (length news) - 1) n mts s w
      = (r, s', w')"
  shows "seg_inv s' (if r = Inr () then rs @ news else rs) \<and> sg_base_offset s' = sg_base_offset s"
proof -
  have ne: "concat news \<noteq> []"
    using assms(2,3) by (cases news) (auto simp: framed_def)
  have fl: "sg_file (reserve n s) = sg_file s" for n by (simp add: reserve_def)
  obtain r1 f w1 where wa: "WriteAllAt (concat news) (sg_end_position s) (sg_file s) w = (r1, f, w1)"
    using prod_cases3 by blast
  show ?thesis
  proof (rule append_inv [OF assms(1-3) WriteAllAt_wrote [OF wa seg_inv_content_length [OF assms(1)]]])
    show "(case r1 of Inl e \<Rightarrow> (Inl e, (reserve (length (concat news)) s)\<lparr>sg_file := f\<rparr>, w1)
      | Inr _ \<Rightarrow> FinishAppend (length (concat news)) (sg_next_offset s)
          (sg_next_offset s + int (length news) - 1) n mts
          ((reserve (length (concat news)) s)\<lparr>sg_file := f\<rparr>) w1) = (r, s', w')"
      using assms(4) unfolding AppendEncoded_def Let_def reserve_def [symmetric] if_not_P [OF ne] fl wa
      by (cases r1) auto
  qed
qed

lemma AppendEncodedVectored_inv:
  assumes "seg_inv s rs" "chained (sg_next_offset s) news" "news \<noteq> []" "concat chunks = concat news"
    and "AppendEncodedVectored chunks (sg_next_offset s) (sg_next_offset s + int (length news) - 1) n mts s w
      = (r, s', w')"
  shows "seg_inv s' (if r = Inr () then rs @ news else rs) \<and> sg_base_offset s' = sg_base_offset s"
proof -
  have "concat news \<noteq> []"
    using assms(2,3) by (cases news) (auto simp: framed_def)
  then have ne: "length (concat news) \<noteq> 0" by (simp only: length_0_conv not_False_eq_True)
  have len: "sum_list (map length chunks) = length (concat news)"
    using arg_cong [OF assms(4), of length] by (simp only: length_concat)
  have fl: "sg_file (reserve n s) = sg_file s" for n by (simp add: reserve_def)
  obtain r1 f w1 where wa: "WriteVectoredAt chunks (sg_end_position s) (sg_file s) w = (r1, f, w1)"
    using prod_cases3 by blast
  note wr = WriteVectoredAt_wrote [OF wa seg_inv_content_length [OF assms(1)], unfolded assms(4)]
  show ?thesis
  proof (rule append_inv [OF assms(1-3) wr])
    show "(case r1 of Inl e \<Rightarrow> (Inl e, (reserve (length (concat news)) s)\<lparr>sg_file := f\<rparr>, w1)
      | Inr _ \<Rightarrow> FinishAppend (length (concat news)) (sg_next_offset s)
          (sg_next_offset s + int (length news) - 1) n mts
          ((reserve (length (concat news)) s)\<lparr>sg_file := f\<rparr>) w1) = (r, s', w')"
      using assms(5)
      unfolding AppendEncodedVectored_def Let_def len reserve_def [symmetric] if_not_P [OF ne] fl wa
      by (cases r1) auto
  qed
qed

section \<open>Finding a record\<close>

lemma scan_block_records:
  assumes "list_all framed ts" "block = take n (concat ts)" "limit = position + length (concat ts)"
    and "j \<le> length ts" "target \<le> c0 + int (length ts)"
  shows "\<exists>j'. j \<le> j' \<and> j' \<le> length ts \<and> (j < j' \<longrightarrow> c0 + int j' \<le> target) \<and>
    (c0 + int j' < target \<longrightarrow> length block < rec_pos ts (Suc j')) \<and>
    scan_block block position limit target (rec_pos ts j) (c0 + int j) = Inr (rec_pos ts j', c0 + int j')"
  using assms(4)
proof (induction "length ts - j" arbitrary: j)
  case 0
  then have "scan_block block position limit target (rec_pos ts j) (c0 + int j) = Inr (rec_pos ts j, c0 + int j)"
    using assms(5) by (simp add: scan_block.simps)
  with 0 assms(5) show ?case by (intro exI [of _ j]) auto
next
  case (Suc k)
  then have j: "j < length ts" by simp
  show ?case
  proof (cases "c0 + int j < target \<and> rec_pos ts j + 4 \<le> length block")
    case False
    then have "scan_block block position limit target (rec_pos ts j) (c0 + int j) = Inr (rec_pos ts j, c0 + int j)"
      by (auto simp: scan_block.simps)
    moreover have "4 < length (ts ! j)" using assms(1) j by (force simp: list_all_length framed_def)
    ultimately show ?thesis using False j by (intro exI [of _ j]) (auto simp: rec_pos_Suc)
  next
    case True
    have size: "unat (LoadLe32 (drop (rec_pos ts j) block)) + 4 = length (ts ! j)"
      using prefix_at [OF assms(1) j, of n] True assms(2) by simp
    have big: "\<not> length (ts ! j) < kRecordFixedPrefix"
      using assms(1) j by (auto simp: list_all_length framed_def kRecordFixedPrefix_def)
    have fits: "\<not> position + rec_pos ts j + length (ts ! j) > limit"
      using rec_pos_Suc [OF j] rec_pos_le [of ts "Suc j"] assms(3) by simp
    have step: "scan_block block position limit target (rec_pos ts j) (c0 + int j) =
      (if rec_pos ts j + length (ts ! j) > length block then Inr (rec_pos ts j, c0 + int j)
       else scan_block block position limit target (rec_pos ts (Suc j)) (c0 + int (Suc j)))"
      using True big fits unfolding scan_block.simps [of block position limit target "rec_pos ts j"] Let_def size
      by (auto simp: rec_pos_Suc [OF j] ac_simps)
    show ?thesis
    proof (cases "rec_pos ts j + length (ts ! j) > length block")
      case True
      with step j show ?thesis by (intro exI [of _ j]) (simp add: rec_pos_Suc)
    next
      case False
      have k: "k = length ts - Suc j" "Suc j \<le> length ts" using Suc.hyps(2) j by simp_all
      from Suc.hyps(1) [OF k] obtain j' where
        "Suc j \<le> j'" "j' \<le> length ts" "Suc j < j' \<longrightarrow> c0 + int j' \<le> target"
        "c0 + int j' < target \<longrightarrow> length block < rec_pos ts (Suc j')"
        "scan_block block position limit target (rec_pos ts (Suc j)) (c0 + int (Suc j)) =
           Inr (rec_pos ts j', c0 + int j')" by blast
      with step False True show ?thesis
        by (intro exI [of _ j']) (cases "Suc j = j'", auto)
    qed
  qed
qed


text \<open>
  The scan for offset \<open>base + k\<close> keeps a position that is the start of a record at or before it,
  and the offset of that record.  With a kernel that completes every call it fails only on a
  record above the size limit.
\<close>

lemma block_of_records:
  assumes "take (length (concat rs)) (fh_content f) = concat rs" "n \<le> length (concat rs) - rec_pos rs i"
  shows "slice (rec_pos rs i) n (fh_content f) = take n (concat (drop i rs))"
proof -
  have "slice (rec_pos rs i) n (fh_content f) = slice (rec_pos rs i) n (concat rs)"
    using slice_slice [of "rec_pos rs i" n "length (concat rs)" 0 "fh_content f"] assms rec_pos_le [of rs i]
    by (simp add: slice_0)
  then show ?thesis by (simp add: slice_def drop_rec_pos)
qed

lemma position_round_exact:
  assumes "take (length (concat rs)) (fh_content f) = concat rs" "list_all framed rs"
    and "i < k" "k < length rs" "4 \<le> bs"
    and "position_round f (length (concat rs)) (base + int k) (rec_pos rs i) (base + int i) bs w = (r, w')"
  shows "(\<forall>p c b. r = Inr (p, c, b) \<longrightarrow>
           (\<exists>i' \<ge> i. i' \<le> k \<and> p = rec_pos rs i' \<and> c = base + int i' \<and> 4 \<le> b)) \<and>
    (quiet w \<and> fh_valid f \<and> list_all (\<lambda>x. length x \<le> kMaxRecordBytes) rs \<longrightarrow> (\<exists>x. r = Inr x) \<and> w' = w)"
proof -
  let ?limit = "length (concat rs)" and ?ts = "drop i rs"
  define want where "want = min bs (?limit - rec_pos rs i)"
  have sub: "sub64 ?limit (rec_pos rs i) = ?limit - rec_pos rs i"
    by (rule sub64_le) (rule rec_pos_le)
  have framed: "list_all framed ?ts" "framed (rs ! i)"
    using assms(2-4) by (auto simp: list_all_length)
  have split: "rec_pos rs i + length (rs ! i) \<le> ?limit"
    using rec_pos_Suc [of i rs] rec_pos_le [of rs "Suc i"] assms(3,4) by simp
  then have want4: "\<not> want < 4" using assms(5) framed(2) by (auto simp: want_def framed_def)
  obtain rb w1 where rd: "ReadAt want (rec_pos rs i) f w = (rb, w1)" by fastforce
  show ?thesis
  proof (cases rb)
    case (Inl e)
    with assms(6) rd want4 have "r = Inl e" by (simp add: position_round_def Let_def sub want_def [symmetric])
    with Inl rd show ?thesis by (auto simp: ReadAt_quiet)
  next
    case (Inr block)
    have block: "block = take want (concat ?ts)"
      using ReadAt_slice [of want "rec_pos rs i" f w block w1] rd Inr block_of_records [OF assms(1), of want i]
      by (simp add: want_def)
    have lts: "length (concat ?ts) = ?limit - rec_pos rs i"
      using arg_cong [OF drop_rec_pos [of rs i], of length] by (simp only: length_drop)
    have len: "length block = want" unfolding block want_def lts [symmetric] by simp
    obtain j where j: "j \<le> length ?ts" "0 < j \<longrightarrow> base + int i + int j \<le> base + int k"
      and stop: "base + int i + int j < base + int k \<longrightarrow> length block < rec_pos ?ts (Suc j)"
      and sb: "scan_block block (rec_pos rs i) ?limit (base + int k) 0 (base + int i) =
        Inr (rec_pos ?ts j, base + int i + int j)"
      using scan_block_records [OF framed(1) block, of ?limit "rec_pos rs i" 0 "base + int k" "base + int i"]
        assms(3,4) rec_pos_le [of rs i] lts by auto
    have w1: "quiet w \<and> fh_valid f \<longrightarrow> w1 = w" using rd by (auto simp: ReadAt_quiet)
    show ?thesis
    proof (cases "rec_pos ?ts j = 0")
      case False
      then have "r = Inr (rec_pos rs (i + j), base + int (i + j), bs)" "w' = w1"
        using assms(6) rd Inr want4 len sb
        by (auto simp: position_round_def Let_def sub want_def [symmetric] rec_pos_add)
      moreover have "0 < j" using False by (cases j) simp_all
      ultimately show ?thesis using j w1 assms(5) by (auto intro!: exI [of _ "i + j"])
    next
      case True
      then have j0: "j = 0"
        using rec_pos_strict [of 0 j ?ts] j(1) framed(1) by (cases j) auto
      have size: "unat (LoadLe32 block) + 4 = length (rs ! i)"
        using prefix_at [OF framed(1), of 0 want] want4 block assms(3,4) by simp
      have "want < length (rs ! i)"
        using stop j0 assms(3,4) len rec_pos_Suc [of 0 ?ts] by simp
      then have bs: "\<not> length (rs ! i) \<le> bs" using split by (auto simp: want_def)
      have eq: "position_round f ?limit (base + int k) (rec_pos rs i) (base + int i) bs w =
        (if length (rs ! i) > kMaxRecordBytes then (Inl kCorruption, w1)
         else (Inr (rec_pos rs i, base + int i, length (rs ! i)), w1))"
        using rd Inr want4 len sb True j0 size split bs framed(2)
        by (simp add: position_round_def Let_def sub want_def [symmetric] framed_def kRecordFixedPrefix_def)
      have ge4: "4 \<le> length (rs ! i)" using framed(2) by (simp add: framed_def)
      have small: "length (rs ! i) \<le> kMaxRecordBytes" if "list_all (\<lambda>x. length x \<le> kMaxRecordBytes) rs"
        using that assms(3,4) by (simp add: list_all_length)
      show ?thesis
      proof (cases "length (rs ! i) > kMaxRecordBytes")
        case True
        then have "r = Inl kCorruption" using assms(6) eq by simp
        with True small show ?thesis by auto
      next
        case False
        then have "r = Inr (rec_pos rs i, base + int i, length (rs ! i))" "w' = w1"
          using assms(6) eq by simp_all
        with ge4 assms(3) w1 show ?thesis by auto
      qed
    qed
  qed
qed

lemma position_scan_exact:
  assumes "take (length (concat rs)) (fh_content f) = concat rs" "list_all framed rs" "k < length rs"
    and "position_scan f limit target position current bs w = (r, w')"
    and "limit = length (concat rs)" "target = base + int k" "position = rec_pos rs i"
      "current = base + int i" "i \<le> k" "4 \<le> bs"
  shows "(\<forall>p. r = Inr p \<longrightarrow> p = rec_pos rs k) \<and>
    (quiet w \<and> fh_valid f \<and> list_all (\<lambda>x. length x \<le> kMaxRecordBytes) rs \<longrightarrow>
       r = Inr (rec_pos rs k) \<and> w' = w)"
  using assms
proof (induction f limit target position current bs w arbitrary: i r w' rule: position_scan.induct)
  case (1 f limit target position current bs w)
  show ?case
  proof (cases "i = k")
    case True
    then have "position_scan f limit target position current bs w = (Inr (rec_pos rs k), w)"
      using "1.prems"(6-8) by (subst position_scan.simps) simp
    with "1.prems"(4) show ?thesis by auto
  next
    case False
    with "1.prems"(6,8,9) have ik: "i < k" "current < target" by simp_all
    obtain r1 w1 where rnd: "position_round f limit target position current bs w = (r1, w1)" by fastforce
    note step = position_round_exact [OF "1.prems"(1,2) ik(1) "1.prems"(3,10) rnd [unfolded "1.prems"(5-8)]]
    show ?thesis
    proof (cases r1)
      case (Inl e)
      with rnd ik "1.prems"(4) have "r = Inl e" by (simp add: position_scan.simps [of f limit target position])
      with step Inl show ?thesis by auto
    next
      case (Inr x)
      obtain p c b where x: "x = (p, c, b)" by (cases x)
      with rnd ik "1.prems"(4) Inr have rec: "position_scan f limit target p c b w1 = (r, w')"
        by (simp add: position_scan.simps [of f limit target position])
      from step Inr x obtain i' where i': "i' \<le> k" "p = rec_pos rs i'" "c = base + int i'" "4 \<le> b"
        by auto
      have "quiet w \<and> fh_valid f \<and> list_all (\<lambda>x. length x \<le> kMaxRecordBytes) rs \<longrightarrow> w1 = w"
        using step by auto
      note w1 = this
      note IH = "1.IH" [OF ik(2) rnd [symmetric], of x p "(c, b)" c b r w' i',
          OF Inr x [symmetric] refl "1.prems"(1-3) rec "1.prems"(5,6) i'(2,3,1,4)]
      show ?thesis
      proof (intro conjI impI)
        show "\<forall>p. r = Inr p \<longrightarrow> p = rec_pos rs k" by (rule conjunct1 [OF IH])
        assume q: "quiet w \<and> fh_valid f \<and> list_all (\<lambda>x. length x \<le> kMaxRecordBytes) rs"
        with w1 have "w1 = w" by blast
        with IH q show "r = Inr (rec_pos rs k)" "w' = w" by blast+
      qed
    qed
  qed
qed

lemma PositionFor_exact:
  assumes "seg_inv s rs" "k < length rs" "PositionFor (sg_base_offset s + int k) s w = (r, w')"
  shows "(\<forall>p. r = Inr p \<longrightarrow> p = rec_pos rs k) \<and>
    (quiet w \<and> list_all (\<lambda>x. length x \<le> kMaxRecordBytes) rs \<longrightarrow> r = Inr (rec_pos rs k) \<and> w' = w)"
proof -
  let ?base = "sg_base_offset s"
  have inv: "take (length (concat rs)) (fh_content (sg_file s)) = concat rs" "fh_valid (sg_file s)"
    "sg_end_position s = length (concat rs)" "sg_next_offset s = ?base + int (length rs)"
    "oi_ok (sg_index s)" "oi_base_offset (sg_index s) = ?base" "index_points rs (oi_entries (sg_index s))"
    and framed: "list_all framed rs"
    using assms(1) chained_all_framed by (auto simp: seg_inv_def)
  obtain i where i: "i \<le> k" and start: "(case LookupFloor (?base + int k) (sg_index s) of
        None \<Rightarrow> (0, ?base)
      | Some e \<Rightarrow> (unat (oe_file_position e), ?base + uint (oe_relative_offset e))) = (rec_pos rs i, ?base + int i)"
  proof (cases "LookupFloor (?base + int k) (sg_index s)")
    case None
    then show thesis by (intro that [of 0]) simp_all
  next
    case (Some e)
    with LookupFloor_spec [OF inv(5), of "?base + int k"] inv(6)
    have e: "e \<in> set (oi_entries (sg_index s))" "oe_rel e \<le> int k" by simp_all
    have "unat (oe_relative_offset e) \<le> k"
      using e(2) by (simp add: nat_le_iff flip: nat_uint_eq)
    moreover have "unat (oe_file_position e) = rec_pos rs (unat (oe_relative_offset e))"
      using e(1) inv(7) by (simp add: index_points_def)
    ultimately show thesis
      using Some by (intro that [of "unat (oe_relative_offset e)"]) simp_all
  qed
  define bs where "bs = nat (max (so_index_interval_bytes (sg_options s)) 8192)"
  have bs: "4 \<le> bs" by (simp add: bs_def)
  have eq: "PositionFor (?base + int k) s w =
    (if ?base + int i \<ge> ?base + int k then (Inr (rec_pos rs i), w)
     else position_scan (sg_file s) (length (concat rs)) (?base + int k) (rec_pos rs i) (?base + int i) bs w)"
    using assms(2) unfolding PositionFor_def Let_def start prod.case inv(3,4) bs_def by simp
  show ?thesis
  proof (cases "i = k")
    case True
    with assms(3) eq show ?thesis by auto
  next
    case False
    with i assms(3) eq
    have "position_scan (sg_file s) (length (concat rs)) (?base + int k) (rec_pos rs i) (?base + int i) bs w = (r, w')"
      by simp
    from position_scan_exact [OF inv(1) framed assms(2) this refl refl refl refl i bs] inv(2)
    show ?thesis by blast
  qed
qed

end
