(* ===== verification/PL_Segment_Ops.thy ===== *)
theory PL_Segment_Ops
  imports PL_Segment_Inv PL_Record_Props
begin

text \<open>
  The other operations of a segment against the invariant of \<open>PL_Segment_Inv\<close>: opening a new
  segment, truncating, flushing and closing (\<open>src/src/storage/segment.cc\<close>).
\<close>

section \<open>Opening\<close>

lemma OffsetIndex_Open_new:
  assumes "OffsetIndex_Open None base ix0 w = (Inr (), ix, w')"
  shows "oi_entries ix = [] \<and> oi_ok ix \<and> oi_base_offset ix = base"
proof -
  have "oi_entries ix = []"
    using assms
    by (auto simp: OffsetIndex_Open_def OffsetIndex_load_def Let_def
        dest!: File_Open_Inr File_Size_Inr File_Truncate_cases
        split: prod.splits sum.splits if_splits)
  with OffsetIndex_Open_ok [OF assms] show ?thesis by simp
qed

lemma TimeIndex_Open_new:
  assumes "TimeIndex_Open None base ix0 w = (Inr (), ix, w')"
  shows "ti_entries ix = [] \<and> ti_ok ix \<and> ti_base_offset ix = base"
proof -
  have "ti_entries ix = []"
    using assms
    by (auto simp: TimeIndex_Open_def TimeIndex_load_def Let_def
        dest!: File_Open_Inr File_Size_Inr File_Truncate_cases
        split: prod.splits sum.splits if_splits)
  with TimeIndex_Open_ok [OF assms] show ?thesis by simp
qed

lemma Preallocate_valid: "Preallocate n h w = (r, h', w') \<Longrightarrow> fh_valid h' = fh_valid h"
  by (auto simp: Preallocate_def dest!: File_Truncate_cases split: prod.splits if_splits option.splits)

lemma Segment_preallocate_frame:
  "Segment_preallocate existed s w = (s', w') \<Longrightarrow>
   fh_valid (sg_file s') = fh_valid (sg_file s) \<and>
   sg_index s' = sg_index s \<and> sg_time_index s' = sg_time_index s \<and> sg_base_offset s' = sg_base_offset s \<and>
   sg_end_position s' = sg_end_position s \<and> sg_next_offset s' = sg_next_offset s \<and>
   sg_synced_position s' = sg_synced_position s \<and> sg_options s' = sg_options s \<and>
   sg_max_timestamp s' = sg_max_timestamp s"
  by (auto simp: Segment_preallocate_def dest!: Preallocate_valid split: prod.splits sum.splits if_splits)

lemma Segment_Open_new:
  assumes "Segment_Open NoFiles base options w = (Inr s, w')"
  shows "seg_inv s [] \<and> sg_base_offset s = base \<and> sg_options s = options"
  using assms
  by (auto simp: Segment_Open_def NoFiles_def NewSegment_def Let_def seg_inv_def boundary_def index_points_def
      dest!: File_Open_Inr OffsetIndex_Open_new TimeIndex_Open_new Segment_preallocate_frame
      split: prod.splits sum.splits)

section \<open>Truncating\<close>

lemma seg_inv_take:
  assumes "seg_inv s rs" "p \<le> length (concat rs)"
  shows "take p (fh_content (sg_file s)) = take p (concat rs)"
proof -
  have "take p (fh_content (sg_file s)) = take p (take (length (concat rs)) (fh_content (sg_file s)))"
    using assms(2) by (simp add: min_absorb1 del: length_concat)
  with assms(1) show ?thesis by (simp add: seg_inv_def)
qed

lemma index_points_take:
  assumes "index_points rs es"
  shows "index_points (take k rs) (filter (\<lambda>e. oe_rel e < int k) es)"
proof -
  have "unat (oe_relative_offset e) < k" if "oe_rel e < int k" for e
    using that by (simp add: unat_eq_nat_uint nat_less_iff del: nat_uint_eq)
  moreover have "rec_pos (take k rs) j = rec_pos rs j" if "j < k" for j
    using that by (simp add: rec_pos_def min_absorb2 less_imp_le)
  ultimately show ?thesis using assms by (auto simp: index_points_def)
qed

lemma boundary_0: "boundary rs 0"
  unfolding boundary_def by (rule exI [of _ 0]) simp

lemma boundary_take: "boundary rs p \<Longrightarrow> p \<le> rec_pos rs k \<Longrightarrow> boundary (take k rs) p"
proof -
  assume "boundary rs p" and le: "p \<le> rec_pos rs k"
  then obtain j where j: "j \<le> length rs" "p = rec_pos rs j" by (auto simp: boundary_def)
  show ?thesis
  proof (cases "j \<le> k")
    case True
    with j show ?thesis unfolding boundary_def by (intro exI [of _ j]) (simp add: rec_pos_take)
  next
    case False
    with j le rec_pos_mono [of k j rs] have "p = length (concat (take k rs))" by (simp add: rec_pos_def)
    then show ?thesis using boundary_all [of "take k rs"] by simp
  qed
qed

text \<open>
  A successful truncation of the file and of both indexes.  The source has it twice, with the
  position 0 and with that of a record inside.
\<close>

lemma seg_inv_cut:
  assumes inv: "seg_inv s rs" and k: "k \<le> length rs"
    and f: "f = (sg_file s)\<lparr>fh_content := resize (rec_pos rs k) (fh_content (sg_file s))\<rparr>"
    and ix: "OffsetIndex_TruncateFrom (sg_base_offset s + int k) (sg_index s) w1 = (r1, ix, w1')"
    and tx: "TimeIndex_TruncateFrom (sg_base_offset s + int k) (sg_time_index s) w2 = (r2, tx, w2')"
    and s': "sg_file s' = f" "sg_index s' = ix" "sg_time_index s' = tx" "sg_base_offset s' = sg_base_offset s"
      "sg_end_position s' = rec_pos rs k" "sg_next_offset s' = sg_base_offset s + int k"
      "sg_synced_position s' = min (sg_synced_position s) (rec_pos rs k) \<or> k = 0 \<and> sg_synced_position s' = 0"
  shows "seg_inv s' (take k rs)"
proof -
  have ok: "oi_ok (sg_index s)" "ti_ok (sg_time_index s)" "oi_base_offset (sg_index s) = sg_base_offset s"
    "ti_base_offset (sg_time_index s) = sg_base_offset s" "boundary rs (sg_synced_position s)"
    using inv by (simp_all add: seg_inv_def)
  note ixs = OffsetIndex_TruncateFrom_spec [OF ok(1) ix] and txs = TimeIndex_TruncateFrom_spec [OF ok(2) tx]
  have pts: "index_points (take k rs) (oi_entries ix)"
    using ixs ok(3) index_points_take [of rs "oi_entries (sg_index s)" k] inv by (simp add: seg_inv_def)
  have tms: "\<forall>e \<in> set (ti_entries tx). te_rel e < int (length (take k rs))"
    using txs ok(4) k by (auto dest!: set_takeWhileD)
  have rp: "rec_pos rs k = length (concat (take k rs))" by (rule rec_pos_def)
  have pre: "take (rec_pos rs k) (fh_content (sg_file s)) = concat (take k rs)"
    using seg_inv_take [OF inv rec_pos_le] by (simp add: take_rec_pos)
  have "rec_pos rs k \<le> length (fh_content (sg_file s))"
    using seg_inv_content_length [OF inv] rec_pos_le [of rs k] inv by (simp add: seg_inv_def del: length_concat)
  then have content: "fh_content f = concat (take k rs)"
    using pre by (simp add: f resize_def rp del: length_concat)
  have chain: "chained (sg_base_offset s) (take k rs)"
    using inv chained_append [of "sg_base_offset s" "take k rs" "drop k rs"] by (simp add: seg_inv_def)
  have sync: "boundary (take k rs) (sg_synced_position s')" "sg_synced_position s' \<le> sg_synced_position s"
      "sg_synced_position s' \<le> rec_pos rs k"
    using s'(7) boundary_take [OF ok(5), of k] boundary_all [of "take k rs", folded rp] boundary_0
    by (auto simp: min_def simp del: length_concat split: if_splits)
  have "take (sg_synced_position s') (take (sg_synced_position s) (fh_durable (sg_file s))) =
      take (sg_synced_position s') (take (sg_synced_position s) (concat rs))"
    using inv by (simp add: seg_inv_def)
  then have dur: "take (sg_synced_position s') (fh_durable f) = take (sg_synced_position s') (concat (take k rs))"
    using sync(2,3) by (simp add: f min_absorb1 flip: take_rec_pos)
  show ?thesis
    unfolding seg_inv_def s'(1-6) using inv f content pts tms chain ixs txs ok k sync(1) dur
    by (simp add: seg_inv_def rp del: length_concat)
qed

lemma Segment_TruncateFrom_inv:
  assumes inv: "seg_inv s rs" and k: "k \<le> length rs"
    and run: "Segment_TruncateFrom (sg_base_offset s + int k) s w = (Inr (), s', w')"
  shows "seg_inv s' (take k rs) \<and> sg_base_offset s' = sg_base_offset s"
proof -
  have nxt: "sg_next_offset s = sg_base_offset s + int (length rs)" using inv by (simp add: seg_inv_def)
  consider "k = length rs" | "k = 0" "k < length rs" | "0 < k" "k < length rs" using k by linarith
  then show ?thesis
  proof cases
    case 1
    with run inv nxt show ?thesis by (simp add: Segment_TruncateFrom_def)
  next
    case 2
    have cutf: "f = (sg_file s)\<lparr>fh_content := resize (rec_pos rs 0) (fh_content (sg_file s))\<rparr>"
      if "File_Truncate 0 (sg_file s) v = (Inr (), f, v')" for f v v'
      using File_Truncate_cases [OF that] by simp
    from run 2 nxt show ?thesis
      by (auto simp: Segment_TruncateFrom_def dest!: cutf split: prod.splits sum.splits
          intro!: seg_inv_cut [OF inv, of 0, simplified])
  next
    case 3
    obtain q w1 where pos: "PositionFor (sg_base_offset s + int k) s w = (q, w1)" by fastforce
    have q: "q = Inr p \<Longrightarrow> p = rec_pos rs k" for p using PositionFor_exact [OF inv 3(2) pos] by simp
    have cutf: "f = (sg_file s)\<lparr>fh_content := resize (rec_pos rs k) (fh_content (sg_file s))\<rparr>"
      if "File_Truncate (rec_pos rs k) (sg_file s) v = (Inr (), f, v')" for f v v'
      using File_Truncate_cases [OF that] by simp
    have clamp: "(if rec_pos rs k < y then rec_pos rs k else y) = min y (rec_pos rs k)" for y by simp
    from run 3 nxt pos show ?thesis
      by (auto simp: Segment_TruncateFrom_def clamp dest!: q cutf split: prod.splits sum.splits
          intro!: seg_inv_cut [OF inv k])
  qed
qed

section \<open>Flushing and closing\<close>

lemma File_SyncData_frame:
  "File_SyncData h w = (r, h', w') \<Longrightarrow> fh_content h' = fh_content h \<and> fh_valid h' = fh_valid h"
  unfolding File_SyncData_def by (auto dest!: File_Sync_cases)

lemma Segment_Sync_inv:
  assumes inv: "seg_inv s rs" and run: "Segment_Sync s w = (r, s', w')"
  shows "seg_inv s' rs \<and> sg_base_offset s' = sg_base_offset s \<and>
    (r = Inr () \<longrightarrow> sg_synced_position s' = sg_end_position s')"
proof (cases "sg_end_position s = sg_synced_position s")
  case True
  with run inv show ?thesis by (simp add: Segment_Sync_def)
next
  case False
  obtain r1 f w1 where f: "File_Sync (so_sync_mode (sg_options s)) (sg_file s) w = (r1, f, w1)"
    using prod_cases3 by blast
  obtain r2 ix w2 where ix: "OffsetIndex_Sync (sg_index s) w1 = (r2, ix, w2)" using prod_cases3 by blast
  obtain r3 tx w3 where tx: "TimeIndex_Sync (sg_time_index s) w2 = (r3, tx, w3)" using prod_cases3 by blast
  have ixs: "oi_ok ix = oi_ok (sg_index s)" "oi_entries ix = oi_entries (sg_index s)"
      "oi_base_offset ix = oi_base_offset (sg_index s)"
    using ix by (auto simp: OffsetIndex_Sync_def oi_ok_def dest!: File_SyncData_frame split: if_splits prod.splits)
  have txs: "ti_ok tx = ti_ok (sg_time_index s)" "ti_entries tx = ti_entries (sg_time_index s)"
      "ti_base_offset tx = ti_base_offset (sg_time_index s)"
    using tx by (auto simp: TimeIndex_Sync_def ti_ok_def dest!: File_SyncData_frame split: if_splits prod.splits)
  have fs: "fh_valid f = fh_valid (sg_file s)" "fh_content f = fh_content (sg_file s)"
      "fh_durable f = (if r1 = Inr () then fh_content (sg_file s) else fh_durable (sg_file s))"
    using File_Sync_cases [OF f] by auto
  note pre = seg_inv_take [OF inv]
  have durable: "take p (fh_durable f) = take p (concat rs)"
    if "p = sg_synced_position s \<or> r1 = Inr () \<and> p = sg_end_position s" for p
    using that fs(3) pre [of p] inv boundary_le [of rs "sg_synced_position s"]
    by (auto simp: seg_inv_def simp del: length_concat)
  have keep: "seg_inv (s\<lparr>sg_file := f, sg_index := ix', sg_time_index := tx', sg_synced_position := p\<rparr>) rs"
    if "p = sg_synced_position s \<or> r1 = Inr () \<and> p = sg_end_position s"
      "ix' \<in> {sg_index s, ix}" "tx' \<in> {sg_time_index s, tx}" for p ix' tx'
    using that inv fs(1,2) ixs txs durable [of p] boundary_all [of rs]
    by (auto simp: seg_inv_def simp del: length_concat)
  show ?thesis
  proof (cases r1)
    case (Inl e)
    then have "s' = s\<lparr>sg_file := f\<rparr>" "r = Inl e" using run False f by (simp_all add: Segment_Sync_def Let_def)
    with keep [of "sg_synced_position s" "sg_index s" "sg_time_index s"] show ?thesis by simp
  next
    case r1: (Inr u)
    show ?thesis
    proof (cases r2)
      case (Inl e)
      then have "s' = s\<lparr>sg_file := f, sg_index := ix\<rparr>" "r = Inl e"
        using run False f ix r1 by (simp_all add: Segment_Sync_def Let_def)
      with keep [of "sg_synced_position s" ix "sg_time_index s"] show ?thesis by simp
    next
      case r2: (Inr u)
      show ?thesis
      proof (cases r3)
        case (Inl e)
        then have "s' = s\<lparr>sg_file := f, sg_index := ix, sg_time_index := tx\<rparr>" "r = Inl e"
          using run False f ix tx r1 r2 by (simp_all add: Segment_Sync_def Let_def)
        with keep [of "sg_synced_position s" ix tx] show ?thesis by simp
      next
        case (Inr u)
        then have "s' = s\<lparr>sg_file := f, sg_index := ix, sg_time_index := tx, sg_synced_position := sg_end_position s\<rparr>"
          using run False f ix tx r1 r2 by (simp add: Segment_Sync_def Let_def)
        with keep [of "sg_end_position s" ix tx] r1 show ?thesis by simp
      qed
    qed
  qed
qed

text \<open>
  Closing flushes and trims the preallocated space; what a successful close leaves on disk are
  exactly the records.
\<close>

lemma Segment_Close_durable:
  assumes inv: "seg_inv s rs" and run: "Segment_Close s w = (Inr (), s', w')"
    and pre: "length (fh_content (sg_file s)) \<le> max (sg_end_position s) (sg_preallocated_to s)"
  shows "fh_content (sg_file s') = concat rs \<and>
    take (length (concat rs)) (fh_durable (sg_file s')) = concat rs \<and> \<not> fh_valid (sg_file s')"
proof -
  obtain r1 s1 w1 where sync: "Segment_Sync s w = (r1, s1, w1)" using prod_cases3 by blast
  have s1: "fh_content (sg_file s1) = fh_content (sg_file s)" "sg_preallocated_to s1 = sg_preallocated_to s"
    using sync by (auto simp: Segment_Sync_def Let_def dest!: File_Sync_cases split: if_splits prod.splits sum.splits)
  note inv1 = Segment_Sync_inv [OF inv sync]
  have r1: "r1 = Inr ()" using run sync inv by (auto simp: Segment_Close_def seg_inv_def split: if_splits prod.splits)
  have len: "sg_end_position s1 = length (concat rs)" "sg_end_position s = length (concat rs)"
    "take (length (concat rs)) (fh_content (sg_file s1)) = concat rs"
    "take (length (concat rs)) (fh_durable (sg_file s1)) = concat rs"
    using inv inv1 r1 by (auto simp: seg_inv_def simp del: length_concat)
  have clen: "length (concat rs) \<le> length (fh_content (sg_file s1))"
    using seg_inv_content_length inv1 len(1) by metis
  show ?thesis
  proof (cases "sg_end_position s1 < sg_preallocated_to s1")
    case True
    then obtain f w2 where "File_Truncate (sg_end_position s1) (sg_file s1) w1 = (Inr (), f, w2)"
        "s' = close_handles (s1\<lparr>sg_file := f\<rparr>)"
      using run sync r1 inv by (auto simp: Segment_Close_def seg_inv_def split: if_splits prod.splits)
    with len clen show ?thesis
      by (auto simp: close_handles_def File_Close_def resize_def simp del: length_concat dest!: File_Truncate_cases)
  next
    case False
    with run sync r1 inv have "s' = close_handles s1" by (auto simp: Segment_Close_def seg_inv_def)
    moreover have "fh_content (sg_file s1) = concat rs"
      using False pre s1 len clen by (simp del: length_concat)
    ultimately show ?thesis using len by (simp add: close_handles_def File_Close_def)
  qed
qed

section \<open>Appending without faults\<close>

lemma AppendEncoded_quiet:
  assumes "seg_inv s rs" "quiet w" "AppendEncoded d base lst n mts s w = (r, s', w')"
  shows "r = Inr ()"
proof -
  have "fh_valid (sg_file s)" "sg_end_position s \<le> length (fh_content (sg_file s))"
    using assms(1) seg_inv_content_length by (auto simp: seg_inv_def)
  with assms(2,3) show ?thesis
    by (auto simp: AppendEncoded_def Let_def WriteAllAt_quiet FinishAppend_def split: if_splits prod.splits)
qed

section \<open>Records as the encoder writes them\<close>

lemma plain_wire_framed:
  assumes "plain_ok r"
  shows "framed (plain_wire r) \<and> crc_good (plain_wire r) \<and> rec_offset (plain_wire r) = pl_off r"
proof -
  have len: "length (plain_wire r) < 2 ^ 64"
    using assms by (simp add: plain_wire_def plain_ok_def record_fits_def length_record_wire kMaxRecordBytes_def)
  obtain v where p: "ParseRecord (plain_wire r) 0 True = Inr (v, length (plain_wire r))"
      and v: "view_record (plain_wire r) v = r"
    using ParseRecord_plain [of 0 "plain_wire r" r "[]" True] assms len by auto
  show ?thesis
    using ParseRecord_framed [OF p] arg_cong [OF v, of pl_off] by (simp add: slice_def view_record_def)
qed

fun consecutive :: "offset \<Rightarrow> plain_record list \<Rightarrow> bool" where
  "consecutive base [] = True"
| "consecutive base (r # rs) = (pl_off r = base \<and> consecutive (base + 1) rs)"

lemma chained_plain: "list_all plain_ok ps \<Longrightarrow> consecutive base ps \<Longrightarrow> chained base (map plain_wire ps)"
  by (induction ps arbitrary: base) (auto simp: plain_wire_framed)

section \<open>A segment with two records\<close>

definition sample_options :: segment_options where
  "sample_options = \<lparr>so_max_bytes = 1024, so_index_interval_bytes = 4096, so_preallocate = False,
     so_write_mode = WriteModeWrite, so_sync_mode = SyncData\<rparr>"

definition sample_plain :: "plain_record list" where
  "sample_plain = [Plain 7 1000 0 (Some [1, 2]) [3], Plain 8 1001 4 None []]"

definition sample_records :: "bytes list" where
  "sample_records = map plain_wire sample_plain"

definition sample_segment :: segment where
  "sample_segment =
     (case Segment_Open NoFiles 7 sample_options quiet_os of
        (Inl e, w) \<Rightarrow> NewSegment 7 sample_options
      | (Inr s, w) \<Rightarrow> fst (snd (AppendEncoded (concat sample_records) 7 8 2 1001 s w)))"

lemma sample_plain_ok: "list_all plain_ok sample_plain"
  by (simp add: sample_plain_def plain_ok_def is_i64_def record_fits_def EncodedRecordSize_def
      kRecordFixedPrefix_def kMaxRecordBytes_def key_field_def VarUIntSize.simps)

lemma sample_chained: "chained 7 sample_records"
  unfolding sample_records_def by (rule chained_plain [OF sample_plain_ok]) (simp add: sample_plain_def)

lemma sample_small: "list_all (\<lambda>x. length x \<le> kMaxRecordBytes) sample_records"
  by (simp add: sample_records_def sample_plain_def plain_wire_def length_record_wire EncodedRecordSize_def
      kRecordFixedPrefix_def kMaxRecordBytes_def key_field_def VarUIntSize.simps)

lemma sample_open: "\<exists>s w. Segment_Open NoFiles 7 sample_options quiet_os = (Inr s, w) \<and> quiet w"
proof -
  have "case Segment_Open NoFiles 7 sample_options quiet_os of (Inl e, w) \<Rightarrow> False | (Inr s, w) \<Rightarrow> os_replies w = []"
    by code_simp
  then show ?thesis by (auto simp: quiet_def split: prod.splits sum.splits)
qed

lemma sample_inv:
  "seg_inv sample_segment sample_records" "sg_base_offset sample_segment = 7"
proof -
  obtain s w where op: "Segment_Open NoFiles 7 sample_options quiet_os = (Inr s, w)" and q: "quiet w"
    using sample_open by blast
  from Segment_Open_new [OF op] have inv: "seg_inv s []" and base: "sg_base_offset s = 7" by simp_all
  then have nxt: "sg_next_offset s = 7" by (simp add: seg_inv_def)
  obtain r s' w' where app: "AppendEncoded (concat sample_records) 7 8 2 1001 s w = (r, s', w')"
    using prod_cases3 by blast
  have two: "sample_records \<noteq> []" "length sample_records = 2"
    by (simp_all add: sample_records_def sample_plain_def)
  have "sample_segment = s'" using op app by (simp add: sample_segment_def)
  moreover have "r = Inr ()" using AppendEncoded_quiet [OF inv q app] .
  ultimately show "seg_inv sample_segment sample_records" "sg_base_offset sample_segment = 7"
    using AppendEncoded_inv [OF inv, of sample_records 2 1001 w r s' w'] sample_chained two nxt base app by simp_all
qed

end
