(* ===== verification/PL_Segment_Read.thy ===== *)
theory PL_Segment_Read
  imports PL_Segment_Ops
begin

text \<open>
  Reading from a segment: \<open>Segment::Read\<close> returns a run of whole records starting at the requested
  offset, at least one of them, as many as the byte budget admits.
\<close>

section \<open>The caller's buffer\<close>

lemma poke_readable:
  assumes "buf_ok b" "length d \<le> WritableBytes b"
  shows "buf_ok (poke 0 d b)" "Readable (poke 0 d b) = Readable b"
  using assms
  by (auto simp: buf_ok_def poke_def WritableBytes_def Readable_def ReadableBytes_def slice_overwrite_before)

lemma poke_Commit_part:
  assumes "buf_ok b" "length d \<le> WritableBytes b" "n \<le> length d"
  shows "buf_ok (Commit n (poke 0 d b))" "Readable (Commit n (poke 0 d b)) = Readable b @ take n d"
proof -
  show "buf_ok (Commit n (poke 0 d b))"
    using assms by (auto simp: buf_ok_def Commit_def poke_def WritableBytes_def)
  let ?r = "write_pos b - read_pos b" and ?st = "overwrite (write_pos b) d (storage b)"
  have wp: "read_pos b + ?r = write_pos b" using assms(1) by (simp add: buf_ok_def)
  have "Readable (Commit n (poke 0 d b)) = slice (read_pos b) (?r + n) ?st"
    using assms(1) by (simp add: Commit_def poke_def Readable_def ReadableBytes_def buf_ok_def)
  also have "\<dots> = slice (read_pos b) ?r ?st @ slice (write_pos b) n ?st"
    by (simp only: slice_add wp)
  also have "slice (read_pos b) ?r ?st = Readable b"
    using assms wp
    by (simp add: Readable_def ReadableBytes_def slice_overwrite_before buf_ok_def WritableBytes_def)
  also have "slice (write_pos b) n ?st = take n (slice (write_pos b) (length d) ?st)"
    using assms(3) by (simp add: slice_def)
  also have "\<dots> = take n d"
    using assms(1,2) by (auto simp: slice_overwrite_same buf_ok_def WritableBytes_def)
  finally show "Readable (Commit n (poke 0 d b)) = Readable b @ take n d" .
qed

section \<open>Accepting records\<close>

text \<open>
  On a chunk that begins with the records \<open>us\<close>, the loop stops behind \<open>j'\<close> of them: every one but
  the very first of the whole read respects the budget, and the next one does not fit.
\<close>

lemma accept_records_exact:
  assumes "list_all framed us" "chunk = take n (concat us)" "end_off = off + int (length us)"
    and "rec_pos us j \<le> length chunk" "j \<le> length us"
    and "rc + j \<le> 1 \<or> rb + rec_pos us j \<le> max_bytes"
  shows "\<exists>j'. j \<le> j' \<and> j' \<le> length us \<and> rec_pos us j' \<le> length chunk \<and>
    accept_records chunk off end_off rc rb max_bytes (rec_pos us j) j = (rec_pos us j', j') \<and>
    (rc + j' \<le> 1 \<or> rb + rec_pos us j' \<le> max_bytes) \<and>
    (j' < length us \<longrightarrow> length chunk < rec_pos us (Suc j') \<or> 0 < rc + j' \<and> max_bytes < rb + rec_pos us (Suc j'))"
  using assms(4-6)
proof (induction "length us - j" arbitrary: j)
  case 0
  then have "accept_records chunk off end_off rc rb max_bytes (rec_pos us j) j = (rec_pos us j, j)"
    using assms(3) by (simp add: accept_records.simps)
  with 0 show ?case by (intro exI [of _ j]) simp
next
  case (Suc k)
  then have j: "j < length us" by simp
  then have "framed (us ! j)" using assms(1) by (simp add: list_all_length)
  then have size4: "4 < length (us ! j)" by (simp add: framed_def)
  note suc = rec_pos_Suc [OF j]
  show ?case
  proof (cases "rec_pos us j + 4 \<le> length chunk")
    case False
    then have "accept_records chunk off end_off rc rb max_bytes (rec_pos us j) j = (rec_pos us j, j)"
      by (simp add: accept_records.simps [of chunk] PeekRecordLength_def)
    with Suc.prems False size4 suc show ?thesis by (intro exI [of _ j]) auto
  next
    case True
    then have peek: "PeekRecordLength chunk (rec_pos us j) = Some (length (us ! j) - 4)"
      using prefix_at [OF assms(1) j, of n] assms(2) by (auto simp: PeekRecordLength_def)
    have step: "accept_records chunk off end_off rc rb max_bytes (rec_pos us j) j =
      (if rec_pos us (Suc j) > length chunk \<or> (0 < rc + j \<and> rb + rec_pos us (Suc j) > max_bytes)
       then (rec_pos us j, j)
       else accept_records chunk off end_off rc rb max_bytes (rec_pos us (Suc j)) (Suc j))"
      unfolding accept_records.simps [of chunk off end_off rc rb max_bytes "rec_pos us j" j] peek
      using True j assms(3) size4 by (auto simp: suc Let_def add.assoc)
    show ?thesis
    proof (cases "rec_pos us (Suc j) > length chunk \<or> (0 < rc + j \<and> rb + rec_pos us (Suc j) > max_bytes)")
      case True
      with step Suc.prems show ?thesis by (intro exI [of _ j]) auto
    next
      case False
      have k: "k = length us - Suc j" "Suc j \<le> length us" using Suc.hyps(2) j by simp_all
      have "rec_pos us (Suc j) \<le> length chunk" "rc + Suc j \<le> 1 \<or> rb + rec_pos us (Suc j) \<le> max_bytes"
        using False by auto
      from Suc.hyps(1) [OF k(1) this(1) k(2) this(2)] obtain j' where
        "Suc j \<le> j'" "j' \<le> length us" "rec_pos us j' \<le> length chunk"
        "accept_records chunk off end_off rc rb max_bytes (rec_pos us (Suc j)) (Suc j) = (rec_pos us j', j')"
        "rc + j' \<le> 1 \<or> rb + rec_pos us j' \<le> max_bytes"
        "j' < length us \<longrightarrow> length chunk < rec_pos us (Suc j') \<or> 0 < rc + j' \<and> max_bytes < rb + rec_pos us (Suc j')"
        by blast
      with step False show ?thesis by (intro exI [of _ j']) auto
    qed
  qed
qed


section \<open>One round\<close>

lemma read_chunk_exact:
  assumes "take (length (concat rs)) (fh_content f) = concat rs" "list_all framed rs" "i < length rs"
    and "length (rs ! i) \<le> want" "rec_pos rs i + want \<le> length (concat rs)"
    and "0 < rc \<longrightarrow> rb + length (rs ! i) \<le> max_bytes" "buf_ok out"
    and "read_chunk f (base + int (length rs)) max_bytes (rec_pos rs i) (base + int i) rc rb want
           (length (rs ! i)) out w = (r, out', w')"
  shows "(quiet w \<and> fh_valid f \<longrightarrow> (\<exists>x. r = Inr x) \<and> w' = w) \<and>
    (\<forall>x. r = Inr x \<longrightarrow> (\<exists>j. 0 < j \<and> i + j \<le> length rs \<and> x = Some (rec_pos (drop i rs) j, j) \<and>
       buf_ok out' \<and> Readable out' = Readable out @ concat (take j (drop i rs)) \<and>
       (rc + j \<le> 1 \<or> rb + rec_pos (drop i rs) j \<le> max_bytes)))"
proof -
  let ?us = "drop i rs" and ?lim = "base + int (length rs)"
  obtain rd w1 where read: "ReadAt want (rec_pos rs i) f w = (rd, w1)" by fastforce
  show ?thesis
  proof (cases rd)
    case (Inl e)
    with assms(8) read have "r = Inl e" by (simp add: read_chunk_def Let_def)
    with Inl read show ?thesis by (auto simp: ReadAt_quiet)
  next
    case (Inr chunk)
    have chunk: "chunk = take want (concat ?us)"
      using ReadAt_slice [of want "rec_pos rs i" f w chunk w1] read Inr
        block_of_records [OF assms(1), of want i] assms(5) by simp
    have "length (concat ?us) = length (concat rs) - rec_pos rs i"
      using arg_cong [OF drop_rec_pos [of rs i], of length] by (simp only: length_drop)
    then have len: "length chunk = want" using assms(5) by (simp add: chunk del: length_concat)
    have us: "list_all framed ?us" "0 < length ?us" "rec_pos ?us (Suc 0) = length (rs ! i)"
      using assms(2,3) rec_pos_Suc [of 0 ?us] by (auto simp: list_all_length)
    have start: "rec_pos ?us 0 \<le> length chunk" "(0 :: nat) \<le> length ?us"
      "rc + 0 \<le> 1 \<or> rb + rec_pos ?us 0 \<le> max_bytes" using assms(6) by auto
    have endo: "?lim = base + int i + int (length ?us)" using assms(3) by simp
    from accept_records_exact [OF us(1) chunk endo start] obtain j where
      j: "j \<le> length ?us" "rec_pos ?us j \<le> length chunk"
      "rc + j \<le> 1 \<or> rb + rec_pos ?us j \<le> max_bytes"
      "j < length ?us \<longrightarrow> length chunk < rec_pos ?us (Suc j) \<or> 0 < rc + j \<and> max_bytes < rb + rec_pos ?us (Suc j)"
      and acc: "accept_records chunk (base + int i) ?lim rc rb max_bytes 0 0 = (rec_pos ?us j, j)"
      by auto
    have j0: "0 < j" using j(4) us(2,3) len assms(4,6) by (cases j) auto
    then have acc0: "rec_pos ?us j \<noteq> 0"
      using rec_pos_strict [of 0 j ?us] j(1) us(1) by simp
    have tk: "take (rec_pos ?us j) chunk = concat (take j ?us)"
      using j(2) by (simp add: chunk take_rec_pos min_absorb1)
    let ?out1 = "EnsureWritable want out"
    have res: "r = Inr (Some (rec_pos ?us j, j))" "out' = Commit (rec_pos ?us j) (poke 0 chunk ?out1)" "w' = w1"
      using assms(4,8) read Inr acc acc0 len by (auto simp: read_chunk_def Let_def)
    have wr: "length chunk \<le> WritableBytes ?out1"
      using WritableBytes_EnsureWritable [OF assms(7)] by (simp add: len)
    note pk = poke_Commit_part [OF buf_ok_EnsureWritable [OF assms(7)] wr j(2)]
    have "w1 = w" if "quiet w \<and> fh_valid f" using that read by (simp add: ReadAt_quiet)
    with res pk tk j j0 show ?thesis
      by (auto simp: Readable_EnsureWritable [OF assms(7)])
  qed
qed

text \<open>
  What the loop maintains: \<open>n\<close> records were delivered, and unless it was a single one they fit the
  budget.  It ends when all records were delivered, or the next one exceeds the budget or the
  chunk size.
\<close>

lemma read_round_exact:
  assumes "take (length (concat rs)) (fh_content f) = concat rs" "list_all framed rs" "i < length rs"
    and "rc \<le> 1 \<or> rb \<le> max_bytes" "buf_ok out"
    and "read_round f (length (concat rs)) (base + int (length rs)) max_bytes (rec_pos rs i) (base + int i)
           rc rb out w = (r, out', w')"
  shows "(quiet w \<and> fh_valid f \<longrightarrow> (\<exists>x. r = Inr x) \<and> w' = w) \<and>
    (r = Inr None \<longrightarrow> out' = out \<and> (max_bytes \<le> rb \<or>
       0 < rc \<and> (max_bytes < rb + length (rs ! i) \<or> kRecoveryChunkBytes < length (rs ! i)))) \<and>
    (\<forall>x. r = Inr (Some x) \<longrightarrow> (\<exists>j. 0 < j \<and> i + j \<le> length rs \<and> x = (rec_pos (drop i rs) j, j) \<and>
       buf_ok out' \<and> Readable out' = Readable out @ concat (take j (drop i rs)) \<and>
       (rc + j \<le> 1 \<or> rb + rec_pos (drop i rs) j \<le> max_bytes)))"
proof (cases "max_bytes \<le> rb")
  case True
  with assms(6) show ?thesis by (auto simp: read_round_def Let_def)
next
  case False
  let ?limit = "length (concat rs)" and ?len = "length (rs ! i)"
  have framed: "framed (rs ! i)" using assms(2,3) by (simp add: list_all_length)
  have fit: "rec_pos rs i + ?len \<le> ?limit"
    using rec_pos_Suc [OF assms(3)] rec_pos_le [of rs "Suc i"] by simp
  have len25: "25 \<le> ?len" using framed by (simp add: framed_def)
  obtain rd w1 where read: "ReadExactAt 4 (rec_pos rs i) f w = (rd, w1)" by fastforce
  have flen: "?limit \<le> length (fh_content f)"
    using arg_cong [OF assms(1), of length] by (simp del: length_concat)
  show ?thesis
  proof (cases rd)
    case (Inl e)
    with assms(6) read False have "r = Inl e" by (simp add: read_round_def Let_def)
    moreover have "\<not> (quiet w \<and> fh_valid f)"
      using Inl read ReadExactAt_quiet [of w f "rec_pos rs i" 4] fit len25 flen by auto
    ultimately show ?thesis by blast
  next
    case (Inr lb)
    have lb: "lb = take 4 (concat (drop i rs))"
      using ReadExactAt_slice [of 4 "rec_pos rs i" f w lb w1] read Inr
        block_of_records [OF assms(1), of 4 i] fit len25 by simp
    have "concat (drop i rs) = rs ! i @ concat (drop (Suc i) rs)"
      using assms(3) by (simp flip: Cons_nth_drop_Suc)
    then have size: "unat (LoadLe32 lb) + 4 = ?len"
      unfolding lb by (simp only: framed_prefix [OF framed])
    have w1: "w1 = w" if "quiet w" "fh_valid f"
      using that read ReadExactAt_quiet [of w f "rec_pos rs i" 4] fit len25 flen by simp
    define want where "want = min kRecoveryChunkBytes (min (?limit - rec_pos rs i) (max_bytes - rb))"
    have eq: "(if want < ?len then if rc > 0 then (Inr None, out, w1)
         else read_chunk f (base + int (length rs)) max_bytes (rec_pos rs i) (base + int i) rc rb ?len ?len out w1
       else read_chunk f (base + int (length rs)) max_bytes (rec_pos rs i) (base + int i) rc rb want ?len out w1)
      = (r, out', w')"
      using assms(6) read Inr False size fit len25
      unfolding want_def by (simp add: read_round_def Let_def kRecordFixedPrefix_def split del: if_split)
    consider "want < ?len" "0 < rc" | "want < ?len" "rc = 0" | "?len \<le> want" by linarith
    then show ?thesis
    proof cases
      case 1
      then have "max_bytes < rb + ?len \<or> kRecoveryChunkBytes < ?len" using fit False by (auto simp: want_def)
      moreover have "r = Inr None" "out' = out" "w' = w1" using eq 1 by simp_all
      ultimately show ?thesis using 1 w1 by auto
    next
      case 2
      with eq have "read_chunk f (base + int (length rs)) max_bytes (rec_pos rs i) (base + int i) rc rb
          ?len ?len out w1 = (r, out', w')" by simp
      from read_chunk_exact [OF assms(1-3) _ fit _ assms(5) this] 2 w1 show ?thesis by auto
    next
      case 3
      have lim: "rec_pos rs i + want \<le> ?limit" "0 < rc \<longrightarrow> rb + ?len \<le> max_bytes"
        using 3 fit False by (auto simp: want_def)
      from eq 3 have "read_chunk f (base + int (length rs)) max_bytes (rec_pos rs i) (base + int i) rc rb
          want ?len out w1 = (r, out', w')" by simp
      from read_chunk_exact [OF assms(1-3) 3 lim assms(5) this] w1 show ?thesis by auto
    qed
  qed
qed


section \<open>The whole read\<close>

definition read_stops :: "bytes list \<Rightarrow> nat \<Rightarrow> nat \<Rightarrow> nat \<Rightarrow> bool" where
  "read_stops rs i rb max_bytes \<longleftrightarrow>
     i = length rs \<or> max_bytes < rb + length (rs ! i) \<or> kRecoveryChunkBytes < length (rs ! i)"

definition read_from ::
  "bytes list \<Rightarrow> offset \<Rightarrow> nat \<Rightarrow> nat \<Rightarrow> nat \<Rightarrow> nat \<Rightarrow> byte_buffer \<Rightarrow> offset \<times> nat \<times> nat \<Rightarrow> byte_buffer \<Rightarrow> bool" where
  "read_from rs base i rc rb max_bytes out x out' \<longleftrightarrow> (\<exists>j. i + j \<le> length rs \<and>
     x = (base + int (i + j), rc + j, rb + rec_pos (drop i rs) j) \<and>
     buf_ok out' \<and> Readable out' = Readable out @ concat (take j (drop i rs)) \<and>
     (rc + j \<le> 1 \<or> rb + rec_pos (drop i rs) j \<le> max_bytes) \<and>
     (rc = 0 \<and> i < length rs \<longrightarrow> 0 < j) \<and>
     read_stops rs (i + j) (rb + rec_pos (drop i rs) j) max_bytes)"

lemma read_from_extend:
  assumes "0 < j" "Readable out1 = Readable out @ concat (take j (drop i rs))"
    and "read_from rs base (i + j) (rc + j) (rb + rec_pos (drop i rs) j) max_bytes out1 x out'"
  shows "read_from rs base i rc rb max_bytes out x out'"
proof -
  have glue: "rec_pos (drop i rs) (j + k) = rec_pos (drop i rs) j + rec_pos (drop (i + j) rs) k"
    "take (j + k) (drop i rs) = take j (drop i rs) @ take k (drop (i + j) rs)" for k
    by (simp_all add: rec_pos_add take_add add.commute)
  from assms(3) obtain k where k: "i + j + k \<le> length rs"
     "x = (base + int (i + j + k), rc + j + k, rb + rec_pos (drop i rs) j + rec_pos (drop (i + j) rs) k)"
     "buf_ok out'" "Readable out' = Readable out1 @ concat (take k (drop (i + j) rs))"
     "rc + j + k \<le> 1 \<or> rb + rec_pos (drop i rs) j + rec_pos (drop (i + j) rs) k \<le> max_bytes"
     "read_stops rs (i + j + k) (rb + rec_pos (drop i rs) j + rec_pos (drop (i + j) rs) k) max_bytes"
    unfolding read_from_def by blast
  then show ?thesis
    unfolding read_from_def using assms(1,2) by (intro exI [of _ "j + k"]) (simp add: glue add.assoc)
qed

lemma read_from_stop:
  assumes "i < length rs" "framed (rs ! i)" "rc \<le> 1 \<or> rb \<le> max_bytes" "buf_ok out" "0 < rc"
    and "max_bytes \<le> rb \<or> max_bytes < rb + length (rs ! i) \<or> kRecoveryChunkBytes < length (rs ! i)"
  shows "read_from rs base i rc rb max_bytes out (base + int i, rc, rb) out"
proof -
  have "0 < length (rs ! i)" using assms(2) by (auto simp: framed_def)
  then have "read_stops rs i rb max_bytes" using assms(6) unfolding read_stops_def by linarith
  with assms show ?thesis unfolding read_from_def by (intro exI [of _ 0]) auto
qed

lemma read_loop_exact:
  assumes "read_loop f limit end_off max_bytes cursor off rc rb out w = (r, out', w')"
    and "take (length (concat rs)) (fh_content f) = concat rs" "list_all framed rs"
    and "limit = length (concat rs)" "end_off = base + int (length rs)"
    and "cursor = rec_pos rs i" "off = base + int i" "i \<le> length rs"
    and "rc \<le> 1 \<or> rb \<le> max_bytes" "0 < max_bytes" "rc = 0 \<longrightarrow> rb = 0" "buf_ok out"
  shows "(quiet w \<and> fh_valid f \<longrightarrow> (\<exists>x. r = Inr x) \<and> w' = w) \<and>
    (\<forall>x. r = Inr x \<longrightarrow> read_from rs base i rc rb max_bytes out x out')"
  using assms
proof (induction f limit end_off max_bytes cursor off rc rb out w arbitrary: i r out' w' rule: read_loop.induct)
  case (1 f limit end_off max_bytes cursor off rc rb out w)
  note prems = "1.prems"
  note unfold_loop = read_loop.simps [of f limit end_off max_bytes cursor off rc]
  show ?case
  proof (cases "i = length rs")
    case True
    then have "read_loop f limit end_off max_bytes cursor off rc rb out w = (Inr (off, rc, rb), out, w)"
      using prems(4-7) by (simp add: read_loop.simps [of f "length (concat rs)"])
    with prems(1,7,9,12) True show ?thesis by (auto simp: read_stops_def read_from_def)
  next
    case False
    with prems(8) have i: "i < length rs" by simp
    have go: "cursor < limit \<and> off < end_off"
      using rec_pos_strict [of i "length rs" rs] i prems(3-7) by simp
    obtain r1 out1 w1 where rnd:
      "read_round f limit end_off max_bytes cursor off rc rb out w = (r1, out1, w1)" using prod_cases3 by blast
    note step = read_round_exact [OF prems(2,3) i prems(9,12) rnd [unfolded prems(4-7)]]
    consider (err) e where "r1 = Inl e" | (stop) "r1 = Inr None" | (more) y where "r1 = Inr (Some y)"
      by (metis option.exhaust sum.exhaust)
    then show ?thesis
    proof cases
      case err
      then have "r = Inl e" using go rnd prems(1) by (simp add: unfold_loop)
      with step err show ?thesis by auto
    next
      case stop
      then have "r = Inr (off, rc, rb)" "out' = out1" "w' = w1" using go rnd prems(1) by (simp_all add: unfold_loop)
      moreover have "out1 = out" "0 < rc" using step stop prems(10,11) by auto
      moreover have "framed (rs ! i)" using prems(3) i by (simp add: list_all_length)
      ultimately show ?thesis using step stop prems(7,9,12) read_from_stop [OF i] by auto
    next
      case more
      with step obtain j where j: "0 < j" "i + j \<le> length rs" "y = (rec_pos (drop i rs) j, j)"
        "buf_ok out1" "Readable out1 = Readable out @ concat (take j (drop i rs))"
        "rc + j \<le> 1 \<or> rb + rec_pos (drop i rs) j \<le> max_bytes" by blast
      have rest: "read_loop f limit end_off max_bytes (cursor + rec_pos (drop i rs) j) (off + int j) (rc + j)
          (rb + rec_pos (drop i rs) j) out1 w1 = (r, out', w')"
        using go rnd more j(3) prems(1) by (simp add: unfold_loop)
      have IH: "(quiet w1 \<and> fh_valid f \<longrightarrow> (\<exists>x. r = Inr x) \<and> w' = w1) \<and>
        (\<forall>x. r = Inr x \<longrightarrow> read_from rs base (i + j) (rc + j) (rb + rec_pos (drop i rs) j) max_bytes out1 x out')"
        using "1.IH" [OF go rnd [symmetric] more HOL.refl j(3) [symmetric] HOL.refl rest prems(2-5)
          _ _ j(2,6) prems(10) _ j(4)] prems(6,7) j(1) by (simp add: rec_pos_add)
      then show ?thesis using step more read_from_extend [OF j(1,5)] by auto
    qed
  qed
qed

lemma Segment_Read_from:
  assumes inv: "seg_inv s rs" and k: "k < length rs" and max: "0 < max_bytes" and out: "buf_ok out"
    and run: "Segment_Read (sg_base_offset s + int k) max_bytes out s w = (r, out', w')"
  shows "(\<forall>x. r = Inr x \<longrightarrow> rd_base_offset x = sg_base_offset s + int k \<and>
      (\<exists>nx. read_from rs (sg_base_offset s) k 0 0 max_bytes out (nx, rd_record_count x, rd_bytes x) out' \<and>
         rd_reached_end x = (sg_next_offset s \<le> nx))) \<and>
    (quiet w \<and> list_all (\<lambda>x. length x \<le> kMaxRecordBytes) rs \<longrightarrow> (\<exists>x. r = Inr x) \<and> w' = w)"
proof -
  let ?base = "sg_base_offset s"
  have facts: "take (length (concat rs)) (fh_content (sg_file s)) = concat rs" "fh_valid (sg_file s)"
    "sg_end_position s = length (concat rs)" "sg_next_offset s = ?base + int (length rs)" "list_all framed rs"
    using inv chained_all_framed by (auto simp: seg_inv_def)
  obtain rp w1 where pos: "PositionFor (?base + int k) s w = (rp, w1)" by fastforce
  note at = PositionFor_exact [OF inv k pos]
  show ?thesis
  proof (cases rp)
    case (Inl e)
    then have "r = Inl e" using run pos k facts(4) by (simp add: Segment_Read_def Let_def)
    with at Inl show ?thesis by auto
  next
    case (Inr p)
    obtain rl outl wl where loop: "read_loop (sg_file s) (sg_end_position s) (sg_next_offset s) max_bytes
        (rec_pos rs k) (?base + int k) 0 0 out w1 = (rl, outl, wl)" using prod_cases3 by blast
    from Inr at have p: "p = rec_pos rs k" by simp
    note L = read_loop_exact [OF loop facts(1,5,3,4) HOL.refl HOL.refl _ _ max _ out]
    show ?thesis
    proof (cases rl)
      case (Inl e)
      then have "r = Inl e" using run pos k facts(4) Inr loop p by (simp add: Segment_Read_def Let_def)
      with at Inr L Inl facts(2) k show ?thesis by auto
    next
      case inr: (Inr y)
      obtain nx rc rb where y: "y = (nx, rc, rb)" using prod_cases3 by blast
      then have "r = Inr \<lparr>rd_base_offset = ?base + int k, rd_record_count = rc, rd_bytes = rb,
          rd_reached_end = (nx \<ge> sg_next_offset s)\<rparr>" "out' = outl" "w' = wl"
        using run pos k facts(4) Inr loop p inr by (simp_all add: Segment_Read_def Let_def)
      with L inr y k at facts(2) Inr show ?thesis by auto
    qed
  qed
qed



end
