(* ===== verification/PL_Partition_Log.thy ===== *)
theory PL_Partition_Log
  imports PL_Segment_Read
begin

text \<open>
  The log of one partition (\<open>src/src/storage/partition_log.cc\<close>): an ordered list of segments, of
  which the last one takes the appends.  Operations run one at a time; what a lock or an atomic
  protects is a plain field.  \<open>Recover\<close> need not return, so neither does loading; \<open>None\<close> stands
  for that.
\<close>

section \<open>State\<close>

definition kDiskCheckIntervalMs :: int where "kDiskCheckIntervalMs = 1000"

record flush_policy =
  fp_sync_on_append :: bool
  fp_interval_ms :: int
  fp_max_unflushed_bytes :: int
  fp_max_unflushed_records :: int

record log_options =
  lo_segment_bytes :: int
  lo_segment_ms :: int
  lo_index_interval_bytes :: int
  lo_retention_bytes :: int
  lo_retention_ms :: int
  lo_min_free_disk_bytes :: int
  lo_preallocate :: bool
  lo_write_mode :: write_mode
  lo_sync_mode :: sync_mode
  lo_flush :: flush_policy

record append_result =
  ar_base_offset :: offset
  ar_last_offset :: offset
  ar_record_count :: nat
  ar_bytes :: nat
  ar_append_time :: timestamp_ms
  ar_rolled_segment :: bool

record log_read_result =
  lr_base_offset :: offset
  lr_record_count :: nat
  lr_bytes :: nat
  lr_log_start_offset :: offset
  lr_log_end_offset :: offset

record log_stats =
  ls_log_start_offset :: offset
  ls_log_end_offset :: offset
  ls_flushed_offset :: offset
  ls_total_bytes :: nat
  ls_record_count :: nat
  ls_segment_count :: nat
  ls_flush_count :: nat
  ls_flush_nanos_total :: int
  ls_flush_nanos_max :: int
  ls_roll_count :: nat
  ls_deleted_segments :: nat

text \<open>
  \<open>pl_active\<close> is the pointer \<open>active_\<close> as an index into the segments: \<open>None\<close> is the null pointer,
  an index outside the list a pointer to a segment that was destroyed.  \<open>pl_dir\<close> are the files
  of the directory that belong to no open segment.
\<close>

record partition_log =
  pl_options :: log_options
  pl_segments :: "segment list"
  pl_active :: "nat option"
  pl_dir :: "offset \<Rightarrow> segment_files"
  pl_log_start_offset :: offset
  pl_log_end_offset :: offset
  pl_flushed_offset :: offset
  pl_unflushed_bytes :: int
  pl_unflushed_records :: int
  pl_last_flush_ms :: int
  pl_flush_count :: nat
  pl_flush_nanos_total :: int
  pl_flush_nanos_max :: int
  pl_roll_count :: nat
  pl_deleted_segments :: nat
  pl_disk_check_due_ms :: int
  pl_disk_full :: bool
  pl_closed :: bool

definition NewPartitionLog :: "log_options \<Rightarrow> (offset \<Rightarrow> segment_files) \<Rightarrow> os \<Rightarrow> partition_log \<times> os" where
  "NewPartitionLog options dir w =
     (case MonotonicNanos w of (now, w1) \<Rightarrow>
        (\<lparr>pl_options = options, pl_segments = [], pl_active = None, pl_dir = dir, pl_log_start_offset = 0,
          pl_log_end_offset = 0, pl_flushed_offset = 0, pl_unflushed_bytes = 0, pl_unflushed_records = 0,
          pl_last_flush_ms = now div 1000000, pl_flush_count = 0, pl_flush_nanos_total = 0,
          pl_flush_nanos_max = 0, pl_roll_count = 0, pl_deleted_segments = 0, pl_disk_check_due_ms = 0,
          pl_disk_full = False, pl_closed = False\<rparr>, w1))"

definition segment_options_of :: "log_options \<Rightarrow> segment_options" where
  "segment_options_of lo =
     \<lparr>so_max_bytes = lo_segment_bytes lo, so_index_interval_bytes = lo_index_interval_bytes lo,
      so_preallocate = lo_preallocate lo, so_write_mode = lo_write_mode lo, so_sync_mode = lo_sync_mode lo\<rparr>"

definition EmptyReport :: recovery_report where
  "EmptyReport = \<lparr>rr_next_offset = 0, rr_valid_bytes = 0, rr_truncated_bytes = 0, rr_preallocated_bytes = 0,
     rr_records_scanned = 0, rr_truncated = False, rr_reason = None\<rparr>"

section \<open>Loading\<close>

text \<open>The base offsets of the segments in a directory, in increasing order; other files are ignored.\<close>

definition base_offsets :: "string list \<Rightarrow> offset list" where
  "base_offsets names =
     sort (List.map_filter (\<lambda>name. ParseBaseOffset (take (length name - 4) name)) (ListFiles names ''.log''))"

definition combine_reports :: "recovery_report \<Rightarrow> recovery_report \<Rightarrow> recovery_report" where
  "combine_reports c r =
     \<lparr>rr_next_offset = rr_next_offset r, rr_valid_bytes = rr_valid_bytes c + rr_valid_bytes r,
      rr_truncated_bytes = rr_truncated_bytes c + (if rr_truncated r then rr_truncated_bytes r else 0),
      rr_preallocated_bytes = rr_preallocated_bytes c + rr_preallocated_bytes r,
      rr_records_scanned = rr_records_scanned c + rr_records_scanned r,
      rr_truncated = (rr_truncated c \<or> rr_truncated r),
      rr_reason = (if rr_truncated r then rr_reason r else rr_reason c)\<rparr>"

fun load_each ::
  "(offset \<Rightarrow> segment_files) \<Rightarrow> segment_options \<Rightarrow> offset list \<Rightarrow> recovery_report \<Rightarrow> segment list \<Rightarrow> os \<Rightarrow>
   ((recovery_report \<times> segment list) result \<times> os) option" where
  "load_each dir opts [] combined segs w = Some (Inr (combined, segs), w)"
| "load_each dir opts (base # bases) combined segs w =
     (case Segment_Open (dir base) base opts w of
        (Inl e, w1) \<Rightarrow> Some (Inl e, w1)
      | (Inr s, w1) \<Rightarrow>
          (case Recover False s w1 of
             None \<Rightarrow> None
           | Some (Inl e, s', w2) \<Rightarrow> Some (Inl e, w2)
           | Some (Inr report, s', w2) \<Rightarrow>
               load_each dir opts bases (combine_reports combined report) (segs @ [s']) w2))"

definition LoadSegments ::
  "string list \<Rightarrow> partition_log \<Rightarrow> os \<Rightarrow> (recovery_report result \<times> partition_log \<times> os) option" where
  "LoadSegments names log w =
     (let bases = base_offsets names; opts = segment_options_of (pl_options log) in
      if bases = []
      then case Segment_Open (pl_dir log 0) 0 opts w of
          (Inl e, w1) \<Rightarrow> Some (Inl e, log, w1)
        | (Inr s, w1) \<Rightarrow>
            Some (Inr EmptyReport,
                  log\<lparr>pl_segments := [s], pl_active := Some 0, pl_log_start_offset := 0,
                      pl_log_end_offset := 0, pl_flushed_offset := 0\<rparr>, w1)
      else case load_each (pl_dir log) opts bases EmptyReport [] w of
          None \<Rightarrow> None
        | Some (Inl e, w1) \<Rightarrow> Some (Inl e, log, w1)
        | Some (Inr (combined, segs), w1) \<Rightarrow>
            Some (Inr combined,
                  log\<lparr>pl_segments := segs, pl_active := Some (length segs - 1),
                      pl_log_start_offset := sg_base_offset (hd segs),
                      pl_log_end_offset := sg_next_offset (last segs),
                      pl_flushed_offset := sg_next_offset (last segs)\<rparr>, w1))"

definition PartitionLog_Open ::
  "log_options \<Rightarrow> string list \<Rightarrow> (offset \<Rightarrow> segment_files) \<Rightarrow> os \<Rightarrow>
   ((recovery_report \<times> partition_log) result \<times> os) option" where
  "PartitionLog_Open options names dir w =
     (case EnsureDirectory w of
        (Inl e, w1) \<Rightarrow> Some (Inl e, w1)
      | (Inr _, w1) \<Rightarrow>
          (case NewPartitionLog options dir w1 of (log, w2) \<Rightarrow>
             (case LoadSegments names log w2 of
                None \<Rightarrow> None
              | Some (Inl e, log', w3) \<Rightarrow> Some (Inl e, w3)
              | Some (Inr report, log', w3) \<Rightarrow> Some (Inr (report, log'), w3))))"

section \<open>Appending\<close>

definition CheckDiskSpace :: "partition_log \<Rightarrow> os \<Rightarrow> unit result \<times> partition_log \<times> os" where
  "CheckDiskSpace log w =
     (case MonotonicNanos w of (nanos, w1) \<Rightarrow>
        let now = nanos div 1000000 in
        if now < pl_disk_check_due_ms log
        then ((if pl_disk_full log then Inl kResourceExhausted else Inr ()), log, w1)
        else let log1 = log\<lparr>pl_disk_check_due_ms := now + kDiskCheckIntervalMs\<rparr> in
          case AvailableBytes w1 of
            (Inl e, w2) \<Rightarrow> (Inr (), log1\<lparr>pl_disk_full := False\<rparr>, w2)
          | (Inr available, w2) \<Rightarrow>
              let full = int available < lo_min_free_disk_bytes (pl_options log) in
              ((if full then Inl kResourceExhausted else Inr ()), log1\<lparr>pl_disk_full := full\<rparr>, w2))"

text \<open>What the directory holds under a base offset: the files of an open segment, or left-over ones.\<close>

definition dir_files :: "partition_log \<Rightarrow> offset \<Rightarrow> segment_files" where
  "dir_files log base =
     (case find (\<lambda>s. sg_base_offset s = base) (pl_segments log) of
        Some s \<Rightarrow> files_of s
      | None \<Rightarrow> pl_dir log base)"

definition RollSegment :: "partition_log \<Rightarrow> os \<Rightarrow> unit result \<times> partition_log \<times> os" where
  "RollSegment log w =
     (let next_base = (case pl_active log of
            Some i \<Rightarrow> sg_next_offset (pl_segments log ! i)
          | None \<Rightarrow> pl_log_end_offset log)
      in case Segment_Open (dir_files log next_base) next_base (segment_options_of (pl_options log)) w of
        (Inl e, w1) \<Rightarrow> (Inl e, log, w1)
      | (Inr s, w1) \<Rightarrow>
          (case (case pl_active log of
                   None \<Rightarrow> (Inr (), log, w1)
                 | Some i \<Rightarrow>
                     (case Segment_Sync (pl_segments log ! i) w1 of
                        (r, s', w2) \<Rightarrow> (r, log\<lparr>pl_segments := (pl_segments log)[i := s']\<rparr>, w2))) of
             (Inl e, log1, w2) \<Rightarrow> (Inl e, log1\<lparr>pl_dir := (pl_dir log1)(next_base := files_of s)\<rparr>, w2)
           | (Inr _, log1, w2) \<Rightarrow>
               (case SyncDirectory w2 of
                  (_, w3) \<Rightarrow>
                    (Inr (), log1\<lparr>pl_segments := pl_segments log1 @ [s],
                                   pl_active := Some (length (pl_segments log1)),
                                   pl_roll_count := pl_roll_count log1 + 1\<rparr>, w3))))"

definition MaybeRoll :: "nat \<Rightarrow> partition_log \<Rightarrow> os \<Rightarrow> unit result \<times> partition_log \<times> os" where
  "MaybeRoll incoming log w =
     (case pl_active log of
        None \<Rightarrow> (Inl kInternal, log, w)
      | Some i \<Rightarrow>
          let active = pl_segments log ! i; len = sg_end_position active;
              by_size = (lo_segment_bytes (pl_options log) > 0 \<and>
                         int (len + incoming) > lo_segment_bytes (pl_options log) \<and> len > 0);
              (by_age, w1) =
                (if lo_segment_ms (pl_options log) > 0 \<and> len > 0
                 then (case WallClockMillis w of (now, w') \<Rightarrow>
                         (now - sg_created_at_ms active \<ge> lo_segment_ms (pl_options log), w'))
                 else (False, w));
              by_limit = (len + incoming > 4294967295)
          in if \<not> by_size \<and> \<not> by_age \<and> \<not> by_limit then (Inr (), log, w1) else RollSegment log w1)"

text \<open>
  \<open>Flush\<close>: every segment with bytes that are not yet synced is synced, until one fails.
\<close>

fun sync_all :: "segment list \<Rightarrow> os \<Rightarrow> unit result \<times> segment list \<times> os" where
  "sync_all [] w = (Inr (), [], w)"
| "sync_all (s # ss) w =
     (if sg_synced_position s < sg_end_position s
      then case Segment_Sync s w of
          (Inl e, s', w1) \<Rightarrow> (Inl e, s' # ss, w1)
        | (Inr _, s', w1) \<Rightarrow> (case sync_all ss w1 of (r, ss', w2) \<Rightarrow> (r, s' # ss', w2))
      else (case sync_all ss w of (r, ss', w1) \<Rightarrow> (r, s # ss', w1)))"

definition Flush :: "partition_log \<Rightarrow> os \<Rightarrow> unit result \<times> partition_log \<times> os" where
  "Flush log w =
     (let bytes_covered = pl_unflushed_bytes log; records_covered = pl_unflushed_records log;
          target = pl_log_end_offset log
      in if target = pl_flushed_offset log then (Inr (), log, w)
         else case MonotonicNanos w of (started, w1) \<Rightarrow>
           (case sync_all (pl_segments log) w1 of
              (Inl e, segs, w2) \<Rightarrow> (Inl e, log\<lparr>pl_segments := segs\<rparr>, w2)
            | (Inr _, segs, w2) \<Rightarrow>
                (case MonotonicNanos w2 of (finished, w3) \<Rightarrow>
                 case MonotonicNanos w3 of (now, w4) \<Rightarrow>
                   let elapsed = finished - started in
                   (Inr (), log\<lparr>pl_segments := segs, pl_flushed_offset := target,
                                 pl_unflushed_bytes := pl_unflushed_bytes log - bytes_covered,
                                 pl_unflushed_records := pl_unflushed_records log - records_covered,
                                 pl_last_flush_ms := now div 1000000,
                                 pl_flush_count := pl_flush_count log + 1,
                                 pl_flush_nanos_total := pl_flush_nanos_total log + elapsed,
                                 pl_flush_nanos_max := max (pl_flush_nanos_max log) elapsed\<rparr>, w4))))"

definition FinalizeAppend :: "append_result \<Rightarrow> partition_log \<Rightarrow> os \<Rightarrow> unit result \<times> partition_log \<times> os" where
  "FinalizeAppend result log w =
     (let log1 = log\<lparr>pl_log_end_offset := ar_last_offset result + 1,
                      pl_unflushed_bytes := pl_unflushed_bytes log + int (ar_bytes result),
                      pl_unflushed_records := pl_unflushed_records log + int (ar_record_count result)\<rparr>
      in if fp_sync_on_append (lo_flush (pl_options log)) then Flush log1 w else (Inr (), log1, w))"

lemma length_RewriteRecordHeader:
  "25 \<le> length r \<Longrightarrow> length (RewriteRecordHeader r off ts) = length r"
  by (simp add: Rewrite_shape)

lemma length_stamp_one:
  assumes "ParseRecord records pos False = Inr (v, nxt)"
  shows "length (overwrite pos (RewriteRecordHeader (slice pos (nxt - pos) records) off ts) records) = length records"
proof -
  note f = ParseRecord_framed [OF assms]
  then have "length (RewriteRecordHeader (slice pos (nxt - pos) records) off ts) = nxt - pos"
    by (subst length_RewriteRecordHeader) (auto simp: framed_def)
  then show ?thesis using f(1,2) by simp
qed

text \<open>
  The single pass over a produce batch, which rewrites the caller's bytes in place: it returns
  the offset behind the last record, the greatest timestamp and the number of records, and the
  bytes as they are left, also when a record does not parse.
\<close>

function stamp_records ::
  "timestamp_ms \<Rightarrow> bytes \<Rightarrow> nat \<Rightarrow> offset \<Rightarrow> timestamp_ms \<Rightarrow> nat \<Rightarrow>
   (offset \<times> timestamp_ms \<times> nat) result \<times> bytes" where
  "stamp_records append_time records pos off max_timestamp seen =
     (if pos < length records
      then case ParseRecord records pos False of
          Inl e \<Rightarrow> (Inl e, records)
        | Inr (v, nxt) \<Rightarrow>
            let timestamp = (if rv_timestamp v > 0 then rv_timestamp v else append_time) in
            stamp_records append_time
              (overwrite pos (RewriteRecordHeader (slice pos (nxt - pos) records) off timestamp) records)
              nxt (off + 1) (max max_timestamp timestamp) (seen + 1)
      else (Inr (off, max_timestamp, seen), records))"
  by pat_completeness auto

termination
proof (relation "measure (\<lambda>(t, records, pos, off, m, seen). length records - pos)", goal_cases)
  case (2 append_time records pos off m seen b v nxt ts)
  then have "ParseRecord records pos False = Inr (v, nxt)" by simp
  note ParseRecord_framed(1,2) [OF this] length_stamp_one [OF this]
  then show ?case by auto
qed simp

declare stamp_records.simps [simp del]

definition append_result_of :: "offset \<Rightarrow> offset \<Rightarrow> nat \<Rightarrow> nat \<Rightarrow> timestamp_ms \<Rightarrow> append_result" where
  "append_result_of base off seen len append_time =
     \<lparr>ar_base_offset = base, ar_last_offset = off - 1, ar_record_count = seen, ar_bytes = len,
      ar_append_time = append_time, ar_rolled_segment = False\<rparr>"

definition AppendAssigningOffsets ::
  "bytes \<Rightarrow> nat \<Rightarrow> partition_log \<Rightarrow> os \<Rightarrow> append_result result \<times> bytes \<times> partition_log \<times> os" where
  "AppendAssigningOffsets records record_count log w =
     (if pl_closed log then (Inl kClosed, records, log, w)
      else if records = [] \<or> record_count = 0 then (Inl kInvalidArgument, records, log, w)
      else case CheckDiskSpace log w of
        (Inl e, log1, w1) \<Rightarrow> (Inl e, records, log1, w1)
      | (Inr _, log1, w1) \<Rightarrow>
      (case MaybeRoll (length records) log1 w1 of
        (Inl e, log2, w2) \<Rightarrow> (Inl e, records, log2, w2)
      | (Inr _, log2, w2) \<Rightarrow>
          let i = the (pl_active log2); active = pl_segments log2 ! i; base = sg_next_offset active in
          (case WallClockMillis w2 of (append_time, w3) \<Rightarrow>
          (case stamp_records append_time records 0 base (- 1) 0 of
            (Inl e, records') \<Rightarrow> (Inl e, records', log2, w3)
          | (Inr (off, max_timestamp, seen), records') \<Rightarrow>
              if seen \<noteq> record_count then (Inl kInvalidArgument, records', log2, w3)
              else (case AppendEncoded records' base (off - 1) seen max_timestamp active w3 of
                (Inl e, s, w4) \<Rightarrow> (Inl e, records', log2\<lparr>pl_segments := (pl_segments log2)[i := s]\<rparr>, w4)
              | (Inr _, s, w4) \<Rightarrow>
                  let result = append_result_of base off seen (length records) append_time in
                  (case FinalizeAppend result (log2\<lparr>pl_segments := (pl_segments log2)[i := s]\<rparr>) w4 of
                     (Inl e, log3, w5) \<Rightarrow> (Inl e, records', log3, w5)
                   | (Inr _, log3, w5) \<Rightarrow> (Inr result, records', log3, w5)))))))"

lemma Iterator_Next_Some:
  assumes "Iterator_Next it = (Some v, it')"
  shows "ri_status it = kOk \<and> ri_pos it < length (ri_data it) \<and>
    (\<exists>nxt. ParseRecord (ri_data it) (ri_pos it) (ri_verify_crc it) = Inr (v, nxt) \<and>
       it' = it\<lparr>ri_pos := nxt, ri_records_read := ri_records_read it + 1\<rparr>)"
  using assms by (auto simp: Iterator_Next_def split: if_splits sum.splits)

text \<open>
  The validation pass of the other two appends: the records of a batch must carry consecutive
  offsets.  It returns the offset behind the last record, the greatest timestamp, the number of
  records and the iterator's status.
\<close>

function check_offsets ::
  "record_iterator \<Rightarrow> offset \<Rightarrow> timestamp_ms \<Rightarrow> nat \<Rightarrow> (offset \<times> timestamp_ms \<times> nat) result" where
  "check_offsets it off max_timestamp seen =
     (case Iterator_Next it of
        (None, it') \<Rightarrow> (if ri_status it' \<noteq> kOk then Inl (ri_status it') else Inr (off, max_timestamp, seen))
      | (Some v, it') \<Rightarrow>
          if rv_offset v \<noteq> off then Inl kOutOfRange
          else check_offsets it' (off + 1) (max max_timestamp (rv_timestamp v)) (seen + 1))"
  by pat_completeness auto

termination
proof (relation "measure (\<lambda>(it, off, m, seen). length (ri_data it) - ri_pos it)", goal_cases)
  case (2 it off m seen x y v)
  then have "Iterator_Next it = (Some v, y)" by simp
  from Iterator_Next_Some [OF this] obtain nxt where
    "ri_pos it < length (ri_data it)" "ParseRecord (ri_data it) (ri_pos it) (ri_verify_crc it) = Inr (v, nxt)"
    "y = it\<lparr>ri_pos := nxt, ri_records_read := ri_records_read it + 1\<rparr>" by blast
  with ParseRecord_framed(1) [OF this(2)] show ?case by simp
qed simp

declare check_offsets.simps [simp del]

definition AppendWithOffsets ::
  "bytes \<Rightarrow> nat \<Rightarrow> partition_log \<Rightarrow> os \<Rightarrow> append_result result \<times> partition_log \<times> os" where
  "AppendWithOffsets records record_count log w =
     (if pl_closed log then (Inl kClosed, log, w)
      else if records = [] \<or> record_count = 0 then (Inl kInvalidArgument, log, w)
      else case CheckDiskSpace log w of
        (Inl e, log1, w1) \<Rightarrow> (Inl e, log1, w1)
      | (Inr _, log1, w1) \<Rightarrow>
          let expected = pl_log_end_offset log1 in
          (case check_offsets (RecordIterator records True) expected (- 1) 0 of
            Inl e \<Rightarrow> (Inl e, log1, w1)
          | Inr (off, max_timestamp, seen) \<Rightarrow>
              if seen \<noteq> record_count then (Inl kInvalidArgument, log1, w1)
              else (case MaybeRoll (length records) log1 w1 of
                (Inl e, log2, w2) \<Rightarrow> (Inl e, log2, w2)
              | (Inr _, log2, w2) \<Rightarrow>
                  let i = the (pl_active log2); active = pl_segments log2 ! i in
                  if sg_next_offset active \<noteq> expected then (Inl kInternal, log2, w2)
                  else (case AppendEncoded records expected (off - 1) seen max_timestamp active w2 of
                    (Inl e, s, w3) \<Rightarrow> (Inl e, log2\<lparr>pl_segments := (pl_segments log2)[i := s]\<rparr>, w3)
                  | (Inr _, s, w3) \<Rightarrow>
                      (case WallClockMillis w3 of (append_time, w4) \<Rightarrow>
                       let result = append_result_of expected off seen (length records) append_time in
                       (case FinalizeAppend result (log2\<lparr>pl_segments := (pl_segments log2)[i := s]\<rparr>) w4 of
                          (Inl e, log3, w5) \<Rightarrow> (Inl e, log3, w5)
                        | (Inr _, log3, w5) \<Rightarrow> (Inr result, log3, w5)))))))"

fun check_chunks ::
  "bytes list \<Rightarrow> offset \<Rightarrow> timestamp_ms \<Rightarrow> nat \<Rightarrow> (offset \<times> timestamp_ms \<times> nat) result" where
  "check_chunks [] off max_timestamp seen = Inr (off, max_timestamp, seen)"
| "check_chunks (c # cs) off max_timestamp seen =
     (case check_offsets (RecordIterator c False) off max_timestamp seen of
        Inl e \<Rightarrow> Inl e
      | Inr (off', max_timestamp', seen') \<Rightarrow> check_chunks cs off' max_timestamp' seen')"

definition AppendVectoredWithOffsets ::
  "bytes list \<Rightarrow> nat \<Rightarrow> partition_log \<Rightarrow> os \<Rightarrow> append_result result \<times> partition_log \<times> os" where
  "AppendVectoredWithOffsets chunks record_count log w =
     (let total_bytes = sum_list (map length chunks) in
      if pl_closed log then (Inl kClosed, log, w)
      else if total_bytes = 0 \<or> record_count = 0 then (Inl kInvalidArgument, log, w)
      else case CheckDiskSpace log w of
        (Inl e, log1, w1) \<Rightarrow> (Inl e, log1, w1)
      | (Inr _, log1, w1) \<Rightarrow>
      (case MaybeRoll total_bytes log1 w1 of
        (Inl e, log2, w2) \<Rightarrow> (Inl e, log2, w2)
      | (Inr _, log2, w2) \<Rightarrow>
          let i = the (pl_active log2); active = pl_segments log2 ! i; base = sg_next_offset active in
          (case check_chunks chunks base (- 1) 0 of
            Inl e \<Rightarrow> (Inl e, log2, w2)
          | Inr (off, max_timestamp, seen) \<Rightarrow>
              if seen \<noteq> record_count then (Inl kInvalidArgument, log2, w2)
              else (case AppendEncodedVectored chunks base (off - 1) seen max_timestamp active w2 of
                (Inl e, s, w3) \<Rightarrow> (Inl e, log2\<lparr>pl_segments := (pl_segments log2)[i := s]\<rparr>, w3)
              | (Inr _, s, w3) \<Rightarrow>
                  (case WallClockMillis w3 of (append_time, w4) \<Rightarrow>
                   let result = append_result_of base off seen total_bytes append_time in
                   (case FinalizeAppend result (log2\<lparr>pl_segments := (pl_segments log2)[i := s]\<rparr>) w4 of
                      (Inl e, log3, w5) \<Rightarrow> (Inl e, log3, w5)
                    | (Inr _, log3, w5) \<Rightarrow> (Inr result, log3, w5)))))))"

section \<open>Reading\<close>

text \<open>\<open>SegmentForOffsetLocked\<close>: the index of the last segment whose base is not above the offset.\<close>

definition SegmentForOffset :: "offset \<Rightarrow> segment list \<Rightarrow> nat option" where
  "SegmentForOffset off segs =
     (if segs = [] then None
      else let it = partition_index (\<lambda>s. \<not> off < sg_base_offset s) segs in
        if it = 0 then None else Some (it - 1))"

definition next_segment :: "nat \<Rightarrow> segment list \<Rightarrow> nat option" where
  "next_segment i segs = (if i + 1 < length segs then Some (i + 1) else None)"

text \<open>A segment that delivers records delivers bytes, so the loop below ends.\<close>

lemma accept_records_mono:
  "accept_records chunk off lim rc rb mb a n = (a', n') \<Longrightarrow> a \<le> a' \<and> n \<le> n' \<and> (n < n' \<longrightarrow> a < a')"
proof (induction chunk off lim rc rb mb a n rule: accept_records.induct)
  case (1 chunk off lim rc rb mb a n)
  show ?case
    using "1.prems" "1.IH"
    unfolding accept_records.simps [of chunk off lim rc rb mb a n]
    by (fastforce simp: Let_def split: if_splits option.splits)
qed

lemma read_chunk_mono:
  "read_chunk f lim mb cursor off rc rb want sz out w = (Inr (Some (a, n)), out', w') \<Longrightarrow> 0 < n \<longrightarrow> 0 < a"
  using accept_records_mono
  by (fastforce simp: read_chunk_def Let_def split: if_splits prod.splits sum.splits)

lemma read_loop_mono:
  "read_loop f limit lim mb cursor off rc rb out w = (Inr (o', rc', rb'), out', w') \<Longrightarrow>
   (0 < rc \<longrightarrow> 0 < rb) \<Longrightarrow> 0 < rc' \<longrightarrow> 0 < rb'"
proof (induction f limit lim mb cursor off rc rb out w rule: read_loop.induct)
  case (1 f limit lim mb cursor off rc rb out w)
  have pos: "0 < n \<longrightarrow> 0 < a" if "read_round f limit lim mb cursor off rc rb out w = (Inr (Some (a, n)), o1, w1)" for a n o1 w1
    using that by (auto simp: read_round_def Let_def dest: read_chunk_mono split: if_splits prod.splits sum.splits)
  show ?case
    using "1.prems" "1.IH" pos
    unfolding read_loop.simps [of f limit lim mb cursor off rc rb out w]
    by (fastforce split: if_splits prod.splits sum.splits option.splits)
qed

lemma Segment_Read_bytes:
  "Segment_Read from mb out s w = (Inr x, out', w') \<Longrightarrow> rd_record_count x \<noteq> 0 \<Longrightarrow> 0 < rd_bytes x"
  using read_loop_mono
  by (fastforce simp: Segment_Read_def Let_def split: if_splits prod.splits sum.splits)

function log_read_loop ::
  "segment list \<Rightarrow> offset \<Rightarrow> nat \<Rightarrow> nat option \<Rightarrow> offset \<Rightarrow> nat \<Rightarrow> nat \<Rightarrow> byte_buffer \<Rightarrow> os \<Rightarrow>
   (nat \<times> nat) result \<times> byte_buffer \<times> os" where
  "log_read_loop segs log_end max_bytes seg cursor rc rb out w =
     (case seg of
        None \<Rightarrow> (Inr (rc, rb), out, w)
      | Some i \<Rightarrow>
          if rb < max_bytes then
            (case Segment_Read cursor (max_bytes - rb) out (segs ! i) w of
               (Inl e, out', w') \<Rightarrow> (Inl e, out', w')
             | (Inr chunk, out', w') \<Rightarrow>
                 let rc' = rc + rd_record_count chunk; rb' = rb + rd_bytes chunk;
                     cursor' = cursor + int (rd_record_count chunk)
                 in if rd_record_count chunk = 0
                    then if rd_reached_end chunk \<and> next_segment i segs \<noteq> None
                         then log_read_loop segs log_end max_bytes (next_segment i segs) cursor' rc' rb' out' w'
                         else (Inr (rc', rb'), out', w')
                    else if cursor' \<ge> log_end then (Inr (rc', rb'), out', w')
                    else if cursor' \<ge> sg_next_offset (segs ! i)
                    then log_read_loop segs log_end max_bytes (next_segment i segs) cursor' rc' rb' out' w'
                    else log_read_loop segs log_end max_bytes (Some i) cursor' rc' rb' out' w')
          else (Inr (rc, rb), out, w))"
  by pat_completeness auto
termination
  by (relation "measures [\<lambda>(segs, le, mb, seg, c, rc, rb, out, w). (case seg of None \<Rightarrow> 0 | Some i \<Rightarrow> Suc (length segs - i)),
                          \<lambda>(segs, le, mb, seg, c, rc, rb, out, w). mb - rb]")
    (auto simp: next_segment_def dest!: Segment_Read_bytes [OF sym])

declare log_read_loop.simps [simp del]

definition Log_Read ::
  "offset \<Rightarrow> nat \<Rightarrow> byte_buffer \<Rightarrow> partition_log \<Rightarrow> os \<Rightarrow> log_read_result result \<times> byte_buffer \<times> os" where
  "Log_Read from max_bytes out log w =
     (let start = pl_log_start_offset log; log_end = pl_log_end_offset log;
          result = \<lparr>lr_base_offset = from, lr_record_count = 0, lr_bytes = 0,
                    lr_log_start_offset = start, lr_log_end_offset = log_end\<rparr>
      in if from < start then (Inl kOutOfRange, out, w)
         else if from > log_end then (Inl kOutOfRange, out, w)
         else if from = log_end then (Inr result, out, w)
         else (case SegmentForOffset from (pl_segments log) of
            None \<Rightarrow> (Inl kOutOfRange, out, w)
          | Some i \<Rightarrow>
              (case log_read_loop (pl_segments log) log_end max_bytes (Some i) from 0 0 out w of
                 (Inl e, out', w') \<Rightarrow> (Inl e, out', w')
               | (Inr (rc, rb), out', w') \<Rightarrow>
                   (Inr (result\<lparr>lr_record_count := rc, lr_bytes := rb\<rparr>), out', w'))))"

section \<open>Maintenance\<close>

definition NeedsFlush :: "int \<Rightarrow> partition_log \<Rightarrow> bool" where
  "NeedsFlush now_ms log =
     (let policy = lo_flush (pl_options log) in
      if fp_sync_on_append policy then False
      else if pl_unflushed_bytes log = 0 then False
      else if fp_max_unflushed_bytes policy > 0 \<and> pl_unflushed_bytes log \<ge> fp_max_unflushed_bytes policy
      then True
      else if fp_max_unflushed_records policy > 0 \<and>
              pl_unflushed_records log \<ge> fp_max_unflushed_records policy then True
      else if fp_interval_ms policy > 0 \<and> now_ms - pl_last_flush_ms log \<ge> fp_interval_ms policy then True
      else False)"

text \<open>Closing and deleting a segment that left the list; what cannot be removed stays in the directory.\<close>

definition drop_segment :: "segment \<Rightarrow> partition_log \<Rightarrow> os \<Rightarrow> unit result \<times> partition_log \<times> os" where
  "drop_segment s log w =
     (case Segment_Close s w of
        (Inl e, s', w1) \<Rightarrow> (Inl e, log\<lparr>pl_dir := (pl_dir log)(sg_base_offset s := files_of s')\<rparr>, w1)
      | (Inr _, s', w1) \<Rightarrow>
          (case Segment_Delete s' w1 of
             (Inl e, files, w2) \<Rightarrow> (Inl e, log\<lparr>pl_dir := (pl_dir log)(sg_base_offset s := files)\<rparr>, w2)
           | (Inr _, files, w2) \<Rightarrow> (Inr (), log\<lparr>pl_dir := (pl_dir log)(sg_base_offset s := files)\<rparr>, w2)))"

lemma drop_segment_segments: "drop_segment s log w = (r, log', w') \<Longrightarrow> pl_segments log' = pl_segments log"
  by (auto simp: drop_segment_def split: prod.splits sum.splits)

function drop_from :: "offset \<Rightarrow> partition_log \<Rightarrow> os \<Rightarrow> unit result \<times> partition_log \<times> os" where
  "drop_from off log w =
     (if length (pl_segments log) > 1 \<and> sg_base_offset (last (pl_segments log)) \<ge> off
      then case drop_segment (last (pl_segments log)) (log\<lparr>pl_segments := butlast (pl_segments log)\<rparr>) w of
          (Inl e, log1, w1) \<Rightarrow> (Inl e, log1, w1)
        | (Inr _, log1, w1) \<Rightarrow>
            drop_from off (log1\<lparr>pl_deleted_segments := pl_deleted_segments log1 + 1\<rparr>) w1
      else (Inr (), log, w))"
  by pat_completeness auto
termination
  by (relation "measure (\<lambda>(off, log, w). length (pl_segments log))")
    (auto dest!: drop_segment_segments [OF sym])

declare drop_from.simps [simp del]

definition TruncateTo :: "offset \<Rightarrow> partition_log \<Rightarrow> os \<Rightarrow> unit result \<times> partition_log \<times> os" where
  "TruncateTo off log w =
     (if off \<ge> pl_log_end_offset log then (Inr (), log, w)
      else if off < pl_log_start_offset log then (Inl kOutOfRange, log, w)
      else case drop_from off log w of
        (Inl e, log1, w1) \<Rightarrow> (Inl e, log1, w1)
      | (Inr _, log1, w1) \<Rightarrow>
          let i = length (pl_segments log1) - 1; log2 = log1\<lparr>pl_active := Some i\<rparr> in
          (case Segment_TruncateFrom off (pl_segments log2 ! i) w1 of
             (Inl e, s, w2) \<Rightarrow> (Inl e, log2\<lparr>pl_segments := (pl_segments log2)[i := s]\<rparr>, w2)
           | (Inr _, s, w2) \<Rightarrow>
               (Inr (), log2\<lparr>pl_segments := (pl_segments log2)[i := s], pl_log_end_offset := off,
                              pl_flushed_offset := min (pl_flushed_offset log2) off,
                              pl_unflushed_bytes := 0, pl_unflushed_records := 0\<rparr>, w2)))"

definition expired :: "int \<Rightarrow> partition_log \<Rightarrow> bool" where
  "expired now log =
     (let all_bytes = sum_list (map sg_end_position (pl_segments log)); oldest = hd (pl_segments log);
          too_old = (lo_retention_ms (pl_options log) > 0 \<and> sg_max_timestamp oldest > 0 \<and>
                     now - sg_max_timestamp oldest > lo_retention_ms (pl_options log));
          too_big = (lo_retention_bytes (pl_options log) > 0 \<and>
                     int all_bytes > lo_retention_bytes (pl_options log))
      in too_old \<or> too_big)"

text \<open>The pointer to the active segment is not touched when the first segment leaves the list.\<close>

definition forget_first :: "partition_log \<Rightarrow> partition_log" where
  "forget_first log =
     log\<lparr>pl_segments := tl (pl_segments log), pl_active := map_option (\<lambda>i. i - 1) (pl_active log)\<rparr>"

function retention_loop :: "int \<Rightarrow> nat \<Rightarrow> partition_log \<Rightarrow> os \<Rightarrow> nat result \<times> partition_log \<times> os" where
  "retention_loop now deleted log w =
     (if length (pl_segments log) > 1 \<and> expired now log
      then case drop_segment (hd (pl_segments log)) (forget_first log) w of
          (Inl e, log1, w1) \<Rightarrow> (Inl e, log1, w1)
        | (Inr _, log1, w1) \<Rightarrow>
            retention_loop now (deleted + 1)
              (log1\<lparr>pl_log_start_offset := sg_base_offset (hd (pl_segments log1)),
                    pl_deleted_segments := pl_deleted_segments log1 + 1\<rparr>) w1
      else (Inr deleted, log, w))"
  by pat_completeness auto
termination
  by (relation "measure (\<lambda>(now, deleted, log, w). length (pl_segments log))")
    (auto simp: forget_first_def dest!: drop_segment_segments [OF sym])

declare retention_loop.simps [simp del]

definition EnforceRetention :: "partition_log \<Rightarrow> os \<Rightarrow> nat result \<times> partition_log \<times> os" where
  "EnforceRetention log w =
     (if lo_retention_bytes (pl_options log) \<le> 0 \<and> lo_retention_ms (pl_options log) \<le> 0
      then (Inr 0, log, w)
      else case WallClockMillis w of (now, w1) \<Rightarrow> retention_loop now 0 log w1)"

fun first_offset_for :: "timestamp_ms \<Rightarrow> segment list \<Rightarrow> offset option" where
  "first_offset_for timestamp [] = None"
| "first_offset_for timestamp (s # ss) =
     (if sg_max_timestamp s \<ge> 0 \<and> sg_max_timestamp s < timestamp then first_offset_for timestamp ss
      else case Segment_OffsetForTimestamp timestamp s of
        Some off \<Rightarrow> Some off
      | None \<Rightarrow> first_offset_for timestamp ss)"

definition Log_OffsetForTimestamp :: "timestamp_ms \<Rightarrow> partition_log \<Rightarrow> offset" where
  "Log_OffsetForTimestamp timestamp log =
     (if timestamp = kEarliestOffset then pl_log_start_offset log
      else if timestamp = kLatestOffset then pl_log_end_offset log
      else case first_offset_for timestamp (pl_segments log) of
        Some off \<Rightarrow> off
      | None \<Rightarrow> pl_log_end_offset log)"

definition Log_GetStats :: "partition_log \<Rightarrow> log_stats" where
  "Log_GetStats log =
     \<lparr>ls_log_start_offset = pl_log_start_offset log, ls_log_end_offset = pl_log_end_offset log,
      ls_flushed_offset = pl_flushed_offset log,
      ls_total_bytes = sum_list (map sg_end_position (pl_segments log)),
      ls_record_count = sum_list (map sg_record_count (pl_segments log)),
      ls_segment_count = length (pl_segments log), ls_flush_count = pl_flush_count log,
      ls_flush_nanos_total = pl_flush_nanos_total log, ls_flush_nanos_max = pl_flush_nanos_max log,
      ls_roll_count = pl_roll_count log, ls_deleted_segments = pl_deleted_segments log\<rparr>"

fun close_all :: "unit result \<Rightarrow> segment list \<Rightarrow> os \<Rightarrow> unit result \<times> segment list \<times> os" where
  "close_all result [] w = (result, [], w)"
| "close_all result (s # ss) w =
     (case Segment_Close s w of (status, s', w1) \<Rightarrow>
      case close_all (if result = Inr () \<and> status \<noteq> Inr () then status else result) ss w1 of
        (result', ss', w2) \<Rightarrow> (result', s' # ss', w2))"

definition Log_Close :: "partition_log \<Rightarrow> os \<Rightarrow> unit result \<times> partition_log \<times> os" where
  "Log_Close log w =
     (if pl_closed log then (Inr (), log, w)
      else case close_all (Inr ()) (pl_segments log) w of
        (result, segs, w1) \<Rightarrow>
          (result, log\<lparr>pl_closed := True, pl_segments := segs, pl_active := None\<rparr>, w1))"

end
