(* ===== verification/PL_Replica.thy ===== *)
theory PL_Replica
  imports PL_Metadata PL_Partition_Log
begin

text \<open>
  One partition on one broker (\<open>src/src/broker/partition_replica.cc\<close>): the log with the progress of
  the followers, the high-water mark, and the produce requests that wait for durability.  A
  callback is known by a number; what an operation completes is returned as a list of calls in
  the order in which they are made.
\<close>

section \<open>State\<close>

record follower_state =
  fs_broker :: int
  fs_log_end_offset :: offset
  fs_flushed_offset :: offset
  fs_last_ack_ms :: int
  fs_in_sync :: bool
  fs_acks_received :: nat

record durability_waiter =
  dw_required_offset :: offset
  dw_mode :: ack_mode
  dw_deadline_ms :: int
  dw_on_complete :: nat
  dw_added_nanos :: int
  dw_local_flush_nanos :: int

record partition_replica =
  pr_topic_partition :: topic_partition
  pr_self :: int
  pr_log :: partition_log
  pr_assignment :: partition_assignment
  pr_followers :: "(int, follower_state) omap"
  pr_waiters :: "durability_waiter list"
  pr_pending_waiters :: nat
  pr_high_water_mark :: offset

record replica_stats =
  rs_log_start_offset :: offset
  rs_log_end_offset :: offset
  rs_high_water_mark :: offset
  rs_flushed_offset :: offset
  rs_total_bytes :: nat
  rs_segment_count :: nat
  rs_pending_waiters :: nat
  rs_max_follower_lag :: int
  rs_in_sync_replicas :: nat
  rs_leader :: bool

text \<open>A call of a waiter's callback: which, with what status, watermark and flush time.\<close>

datatype completion = Completion (cp_callback: nat) (cp_status: error_code) (cp_watermark: offset) (cp_flush_nanos: int)

definition NewFollower :: "int \<Rightarrow> follower_state" where
  "NewFollower broker =
     \<lparr>fs_broker = broker, fs_log_end_offset = 0, fs_flushed_offset = 0, fs_last_ack_ms = 0, fs_in_sync = True,
      fs_acks_received = 0\<rparr>"

fun add_followers :: "int \<Rightarrow> int list \<Rightarrow> (int, follower_state) omap \<Rightarrow> (int, follower_state) omap" where
  "add_followers self [] fs = fs"
| "add_followers self (r # rs) fs =
     (if r = self \<or> om_get r fs \<noteq> None then add_followers self rs fs
      else add_followers self rs (om_put r (NewFollower r) fs))"

definition is_leader :: "partition_replica \<Rightarrow> bool" where
  "is_leader pr \<longleftrightarrow> pa_leader (pr_assignment pr) = pr_self pr"

definition NewPartitionReplica ::
  "topic_partition \<Rightarrow> partition_assignment \<Rightarrow> int \<Rightarrow> partition_log \<Rightarrow> partition_replica" where
  "NewPartitionReplica tp a self log =
     (let fs = add_followers self (pa_replicas a) [] in
      \<lparr>pr_topic_partition = tp, pr_self = self, pr_log = log, pr_assignment = a, pr_followers = fs, pr_waiters = [],
       pr_pending_waiters = 0,
       pr_high_water_mark = (if pa_leader a = self \<and> fs = [] then pl_log_end_offset log else 0)\<rparr>)"

definition SetAssignment :: "partition_assignment \<Rightarrow> partition_replica \<Rightarrow> partition_replica" where
  "SetAssignment a pr =
     (let kept = filter (\<lambda>(b, _). HasReplica b a \<and> b \<noteq> pr_self pr) (pr_followers pr) in
      pr\<lparr>pr_assignment := a, pr_followers := add_followers (pr_self pr) (pa_replicas a) kept\<rparr>)"

section \<open>The high-water mark\<close>

definition in_sync_ends :: "(int, follower_state) omap \<Rightarrow> offset list" where
  "in_sync_ends fs = map (\<lambda>(_, f). fs_log_end_offset f) (filter (\<lambda>(_, f). fs_in_sync f) fs)"

definition RecomputeHighWaterMark :: "partition_replica \<Rightarrow> partition_replica" where
  "RecomputeHighWaterMark pr =
     (let leader_end = pl_log_end_offset (pr_log pr) in
      if \<not> is_leader pr then pr
      else let watermark = fold min (in_sync_ends (pr_followers pr)) leader_end in
        if watermark > pr_high_water_mark pr then pr\<lparr>pr_high_water_mark := watermark\<rparr> else pr)"

section \<open>Waiters\<close>

definition persisted_followers :: "offset \<Rightarrow> (int, follower_state) omap \<Rightarrow> int list" where
  "persisted_followers required fs =
     map fst (filter (\<lambda>(_, f). fs_in_sync f \<and> fs_flushed_offset f > required) fs)"

text \<open>Whether a waiter is satisfied; a quorum waiter is stamped when the leader's flush covers it.\<close>

definition waiter_satisfied ::
  "partition_replica \<Rightarrow> durability_waiter \<Rightarrow> os \<Rightarrow> bool \<times> durability_waiter \<times> os" where
  "waiter_satisfied pr wt w =
     (case dw_mode wt of
        AckNone \<Rightarrow> (True, wt, w)
      | AckLeader \<Rightarrow> (pl_log_end_offset (pr_log pr) > dw_required_offset wt, wt, w)
      | AckQuorum \<Rightarrow>
          let locally_flushed = pl_flushed_offset (pr_log pr) > dw_required_offset wt;
              (wt', w') = (if locally_flushed \<and> dw_local_flush_nanos wt = 0
                           then (case MonotonicNanos w of (now, w') \<Rightarrow> (wt\<lparr>dw_local_flush_nanos := now\<rparr>, w'))
                           else (wt, w));
              persisted = (if locally_flushed then 1 else 0) +
                          length (persisted_followers (dw_required_offset wt) (pr_followers pr))
          in (persisted \<ge> QuorumSize (pr_assignment pr), wt', w'))"

fun partition_waiters ::
  "partition_replica \<Rightarrow> durability_waiter list \<Rightarrow> os \<Rightarrow> durability_waiter list \<times> durability_waiter list \<times> os" where
  "partition_waiters pr [] w = ([], [], w)"
| "partition_waiters pr (wt # ws) w =
     (case waiter_satisfied pr wt w of (sat, wt', w1) \<Rightarrow>
      case partition_waiters pr ws w1 of (kept, out, w2) \<Rightarrow>
        if sat then (kept, wt' # out, w2) else (wt' # kept, out, w2))"

definition PublishWaiterCount :: "partition_replica \<Rightarrow> partition_replica" where
  "PublishWaiterCount pr = pr\<lparr>pr_pending_waiters := length (pr_waiters pr)\<rparr>"

definition ExtractSatisfied :: "partition_replica \<Rightarrow> os \<Rightarrow> durability_waiter list \<times> partition_replica \<times> os" where
  "ExtractSatisfied pr w =
     (if pr_waiters pr = [] then ([], PublishWaiterCount pr, w)
      else case partition_waiters pr (pr_waiters pr) w of (kept, out, w1) \<Rightarrow>
        (out, PublishWaiterCount (pr\<lparr>pr_waiters := kept\<rparr>), w1))"

definition complete :: "error_code \<Rightarrow> partition_replica \<Rightarrow> durability_waiter list \<Rightarrow> completion list" where
  "complete status pr ws =
     map (\<lambda>wt. Completion (dw_on_complete wt) status (pr_high_water_mark pr) (dw_local_flush_nanos wt)) ws"

definition OnLeaderAppend :: "partition_replica \<Rightarrow> os \<Rightarrow> completion list \<times> partition_replica \<times> os" where
  "OnLeaderAppend pr w =
     (case ExtractSatisfied (RecomputeHighWaterMark pr) w of (satisfied, pr', w') \<Rightarrow>
        (complete kOk pr' satisfied, pr', w'))"

definition OnFollowerProgress ::
  "int \<Rightarrow> offset \<Rightarrow> offset \<Rightarrow> int \<Rightarrow> partition_replica \<Rightarrow> os \<Rightarrow> offset \<times> completion list \<times> partition_replica \<times> os" where
  "OnFollowerProgress follower log_end flushed now_ms pr w =
     (case om_get follower (pr_followers pr) of
        None \<Rightarrow> (pr_high_water_mark pr, [], pr, w)
      | Some st \<Rightarrow>
          let st' = st\<lparr>fs_log_end_offset := max (fs_log_end_offset st) log_end,
                       fs_flushed_offset := max (fs_flushed_offset st) flushed, fs_last_ack_ms := now_ms,
                       fs_acks_received := fs_acks_received st + 1, fs_in_sync := True\<rparr>;
              pr1 = RecomputeHighWaterMark (pr\<lparr>pr_followers := om_put follower st' (pr_followers pr)\<rparr>)
          in (case ExtractSatisfied pr1 w of (satisfied, pr', w') \<Rightarrow>
                (pr_high_water_mark pr1, complete kOk pr' satisfied, pr', w')))"

definition MarkFollowerOutOfSync ::
  "int \<Rightarrow> partition_replica \<Rightarrow> os \<Rightarrow> completion list \<times> partition_replica \<times> os" where
  "MarkFollowerOutOfSync follower pr w =
     (case om_get follower (pr_followers pr) of
        None \<Rightarrow> ([], pr, w)
      | Some st \<Rightarrow>
          if \<not> fs_in_sync st then ([], pr, w)
          else let pr1 = RecomputeHighWaterMark
                           (pr\<lparr>pr_followers := om_put follower (st\<lparr>fs_in_sync := False\<rparr>) (pr_followers pr)\<rparr>)
               in (case ExtractSatisfied pr1 w of (satisfied, pr', w') \<Rightarrow> (complete kOk pr' satisfied, pr', w')))"

definition Followers :: "partition_replica \<Rightarrow> follower_state list" where
  "Followers pr = map snd (pr_followers pr)"

definition MaxFollowerLag :: "partition_replica \<Rightarrow> int" where
  "MaxFollowerLag pr =
     fold (\<lambda>(_, f) worst. max worst (pl_log_end_offset (pr_log pr) - fs_log_end_offset f)) (pr_followers pr) 0"

definition PersistedReplicaCount :: "offset \<Rightarrow> partition_replica \<Rightarrow> nat" where
  "PersistedReplicaCount off pr =
     (if pl_flushed_offset (pr_log pr) \<ge> off then 1 else 0) +
     length (filter (\<lambda>(_, f). fs_in_sync f \<and> fs_flushed_offset f \<ge> off) (pr_followers pr))"

definition AddWaiter :: "durability_waiter \<Rightarrow> partition_replica \<Rightarrow> os \<Rightarrow> completion list \<times> partition_replica \<times> os" where
  "AddWaiter wt pr w =
     (case ExtractSatisfied (pr\<lparr>pr_waiters := pr_waiters pr @ [wt]\<rparr>) w of (satisfied, pr', w') \<Rightarrow>
        (complete kOk pr' satisfied, pr', w'))"

definition CompleteSatisfiedWaiters :: "partition_replica \<Rightarrow> os \<Rightarrow> nat \<times> completion list \<times> partition_replica \<times> os" where
  "CompleteSatisfiedWaiters pr w =
     (case ExtractSatisfied (RecomputeHighWaterMark pr) w of (satisfied, pr', w') \<Rightarrow>
        (length satisfied, complete kOk pr' satisfied, pr', w'))"

definition HasPendingWaiters :: "partition_replica \<Rightarrow> bool" where
  "HasPendingWaiters pr \<longleftrightarrow> pr_pending_waiters pr \<noteq> 0"

definition ExpireWaiters :: "int \<Rightarrow> partition_replica \<Rightarrow> nat \<times> completion list \<times> partition_replica" where
  "ExpireWaiters now_ms pr =
     (let kept = filter (\<lambda>wt. dw_deadline_ms wt > now_ms) (pr_waiters pr);
          overdue = filter (\<lambda>wt. \<not> dw_deadline_ms wt > now_ms) (pr_waiters pr);
          pr' = PublishWaiterCount (pr\<lparr>pr_waiters := kept\<rparr>)
      in (length overdue, complete kTimeout pr' overdue, pr'))"

definition FailAllWaiters :: "error_code \<Rightarrow> partition_replica \<Rightarrow> nat \<times> completion list \<times> partition_replica" where
  "FailAllWaiters reason pr =
     (let pr' = PublishWaiterCount (pr\<lparr>pr_waiters := []\<rparr>)
      in (length (pr_waiters pr), complete reason pr' (pr_waiters pr), pr'))"

definition PendingWaiterCount :: "partition_replica \<Rightarrow> nat" where
  "PendingWaiterCount pr = length (pr_waiters pr)"

definition Replica_GetStats :: "partition_replica \<Rightarrow> replica_stats" where
  "Replica_GetStats pr =
     (let st = Log_GetStats (pr_log pr) in
      \<lparr>rs_log_start_offset = ls_log_start_offset st, rs_log_end_offset = ls_log_end_offset st,
       rs_high_water_mark = pr_high_water_mark pr, rs_flushed_offset = ls_flushed_offset st,
       rs_total_bytes = ls_total_bytes st, rs_segment_count = ls_segment_count st,
       rs_pending_waiters = length (pr_waiters pr), rs_max_follower_lag = MaxFollowerLag pr,
       rs_in_sync_replicas = 1 + length (filter (\<lambda>(_, f). fs_in_sync f) (pr_followers pr)),
       rs_leader = is_leader pr\<rparr>)"

end
