(* ===== verification/PL_Log_Batch.thy ===== *)
theory PL_Log_Batch
  imports PL_Partition_Log
begin

text \<open>
  The passes over record batches that precede an append to a partition log: what they accept is
  a run of framed records with consecutive offsets, and what the leader's pass leaves in the
  buffer are the same records, restamped and with good checksums.
\<close>

section \<open>Restamping one record\<close>

lemma drop_slice: "p \<le> q \<Longrightarrow> drop p xs = slice p (q - p) xs @ drop q xs"
  unfolding slice_def by (metis append_take_drop_id drop_drop le_add_diff_inverse2)

lemma restamp_props:
  assumes "framed r" "is_i64 off"
  shows "framed (RewriteRecordHeader r off ts)" "crc_good (RewriteRecordHeader r off ts)"
    "rec_offset (RewriteRecordHeader r off ts) = off"
    "length (RewriteRecordHeader r off ts) = length r" "drop 24 (RewriteRecordHeader r off ts) = drop 24 r"
proof -
  have 25: "25 \<le> length r" using assms(1) by (simp add: framed_def)
  note shape = Rewrite_shape [OF 25]
  show len: "length (RewriteRecordHeader r off ts) = length r"
    using 25 by (rule length_RewriteRecordHeader)
  have "LoadLe32 (RewriteRecordHeader r off ts) = LoadLe32 (take 4 r)"
    unfolding shape using 25 by (simp add: LoadLe_append)
  then show "framed (RewriteRecordHeader r off ts)"
    using assms(1) len by (simp add: framed_def LoadLe_take)
  show "crc_good (RewriteRecordHeader r off ts)"
    unfolding crc_good_def shape using 25 by (simp add: LoadLe_append)
  show "rec_offset (RewriteRecordHeader r off ts) = off"
    unfolding rec_offset_def shape using 25 assms(2) by (simp add: LoadLe_append)
  show "drop 24 (RewriteRecordHeader r off ts) = drop 24 r"
    unfolding shape using 25 by simp
qed

section \<open>The leader's pass\<close>

text \<open>
  \<open>restamped olds news\<close>: the records differ at most in checksum, offset and timestamp, and the
  new checksums are good.
\<close>

definition restamped :: "bytes list \<Rightarrow> bytes list \<Rightarrow> bool" where
  "restamped olds news \<longleftrightarrow>
     list_all2 (\<lambda>r r'. take 4 r' = take 4 r \<and> drop 24 r' = drop 24 r \<and> crc_good r') olds news"

lemma stamp_records_spec:
  assumes "stamp_records t records pos off m seen = (Inr (off', m', seen'), records')"
    and "pos \<le> length records" "0 \<le> off" "off + int (length records - pos) < 2 ^ 63"
  shows "\<exists>olds news. drop pos records = concat olds \<and> records' = take pos records @ concat news \<and>
    restamped olds news \<and> chained off news \<and> off' = off + int (length news) \<and> seen' = seen + length news"
  using assms
proof (induction t records pos off m seen rule: stamp_records.induct)
  case (1 t records pos off m seen)
  note prems = "1.prems"
  show ?case
  proof (cases "pos < length records")
    case False
    with prems have "records' = records" "off' = off" "seen' = seen" "drop pos records = []"
      by (auto simp: stamp_records.simps [of t records])
    with prems(2) show ?thesis by (intro exI [of _ "[]"]) (simp add: restamped_def)
  next
    case True
    then obtain v nxt where p: "ParseRecord records pos False = Inr (v, nxt)"
      using prems(1) by (auto simp: stamp_records.simps [of t records pos] split: sum.splits)
    define ts where "ts = (if rv_timestamp v > 0 then rv_timestamp v else t)"
    define r where "r = slice pos (nxt - pos) records"
    define r' where "r' = RewriteRecordHeader r off ts"
    define recs where "recs = overwrite pos r' records"
    note fr = ParseRecord_framed [OF p]
    have framed: "framed r" using fr(3) by (simp add: r_def)
    have i64: "is_i64 off" using prems(3,4) True by (simp add: is_i64_def)
    note rp = restamp_props [OF framed i64, of ts, folded r'_def]
    have len: "length r' = nxt - pos" "length recs = length records"
      using rp(4) fr(1,2) length_stamp_one [OF p, of off ts] by (simp_all add: r_def recs_def r'_def)
    have parts: "take nxt recs = take pos records @ r'" "drop nxt recs = drop nxt records"
      using len(1) fr(1,2) by (simp_all add: recs_def overwrite_def)
    have rest: "stamp_records t recs nxt (off + 1) (max m ts) (seen + 1) = (Inr (off', m', seen'), records')"
      using prems(1) True p by (simp add: stamp_records.simps [of t records pos] Let_def ts_def recs_def r'_def r_def)
    have "\<exists>olds news. drop nxt recs = concat olds \<and> records' = take nxt recs @ concat news \<and>
        restamped olds news \<and> chained (off + 1) news \<and> off' = off + 1 + int (length news) \<and>
        seen' = seen + 1 + length news"
      using "1.IH" [OF True p HOL.refl ts_def, folded r_def, folded r'_def, folded recs_def, OF rest]
        fr(1,2) prems(3,4) len(2) by simp
    then obtain olds news where IH: "drop nxt records = concat olds" "records' = (take pos records @ r') @ concat news"
        "restamped olds news" "chained (off + 1) news" "off' = off + 1 + int (length news)"
        "seen' = seen + 1 + length news" unfolding parts by blast
    have "drop pos records = r @ drop nxt records"
      unfolding r_def using fr(1) by (simp add: drop_slice)
    moreover have "take 4 r' = take 4 r"
      using framed unfolding r'_def by (subst Rewrite_shape) (auto simp: framed_def)
    ultimately show ?thesis
      using IH rp by (intro exI [of _ "r # olds"] exI [of _ "r' # news"]) (simp add: restamped_def)
  qed
qed

lemma stamp_length: "stamp_records t records pos off m seen = (q, records') \<Longrightarrow> length records' = length records"
proof (induction t records pos off m seen rule: stamp_records.induct)
  case (1 t records pos off m seen)
  then show ?case
    unfolding stamp_records.simps [of t records pos off m seen]
    by (auto simp: Let_def length_stamp_one split: if_splits sum.splits prod.splits)
qed

section \<open>The follower's pass\<close>

lemma ParseRecord_kOk: "ParseRecord data pos verify_crc \<noteq> Inl kOk"
  by (auto simp: ParseRecord_def parse_spans_def Let_def split: option.splits)

lemma check_offsets_spec:
  assumes "check_offsets it off m seen = Inr (off', m', seen')" "ri_status it = kOk" "ri_pos it \<le> length (ri_data it)"
  shows "\<exists>news. drop (ri_pos it) (ri_data it) = concat news \<and> chained off news \<and>
    (ri_verify_crc it \<longrightarrow> list_all crc_good news) \<and>
    off' = off + int (length news) \<and> seen' = seen + length news"
  using assms
proof (induction it off m seen rule: check_offsets.induct)
  case (1 it off m seen)
  note prems = "1.prems"
  obtain x it' where nx: "Iterator_Next it = (x, it')" by fastforce
  show ?case
  proof (cases x)
    case None
    then have "ri_status it' = kOk" "off' = off" "seen' = seen"
      using prems(1) nx by (auto simp: check_offsets.simps [of it] split: if_splits)
    then have "length (ri_data it) \<le> ri_pos it"
      using nx None prems(2) ParseRecord_kOk by (auto simp: Iterator_Next_def split: if_splits sum.splits prod.splits)
    with \<open>off' = off\<close> \<open>seen' = seen\<close> show ?thesis by (intro exI [of _ "[]"]) simp
  next
    case (Some v)
    with nx have nx': "Iterator_Next it = (Some v, it')" by simp
    from Iterator_Next_Some [OF nx'] obtain nxt where
      p: "ParseRecord (ri_data it) (ri_pos it) (ri_verify_crc it) = Inr (v, nxt)"
      and it': "it' = it\<lparr>ri_pos := nxt, ri_records_read := ri_records_read it + 1\<rparr>" by blast
    note fr = ParseRecord_framed [OF p]
    define r where "r = slice (ri_pos it) (nxt - ri_pos it) (ri_data it)"
    have off: "rv_offset v = off"
      and rest: "check_offsets it' (off + 1) (max m (rv_timestamp v)) (seen + 1) = Inr (off', m', seen')"
      using prems(1) nx' by (auto simp: check_offsets.simps [of it] split: if_splits)
    obtain news where IH: "drop nxt (ri_data it) = concat news" "chained (off + 1) news"
        "ri_verify_crc it \<longrightarrow> list_all crc_good news" "off' = off + 1 + int (length news)"
        "seen' = seen + 1 + length news"
      using "1.IH" [OF nx' [symmetric] HOL.refl _ rest] off it' fr(2) prems(2) by auto
    have "drop (ri_pos it) (ri_data it) = r @ concat news"
      unfolding r_def IH(1) [symmetric] using fr(1) by (simp add: drop_slice)
    then show ?thesis
      using IH fr(3-5) off by (intro exI [of _ "r # news"]) (simp add: r_def)
  qed
qed

lemma check_chunks_spec:
  assumes "check_chunks chunks off m seen = Inr (off', m', seen')"
  shows "\<exists>news. concat chunks = concat news \<and> chained off news \<and> off' = off + int (length news) \<and>
    seen' = seen + length news"
  using assms
proof (induction chunks off m seen rule: check_chunks.induct)
  case (1 off m seen)
  then show ?case by (intro exI [of _ "[]"]) simp
next
  case (2 c cs off m seen)
  then obtain o1 m1 s1 where c: "check_offsets (RecordIterator c False) off m seen = Inr (o1, m1, s1)"
    and cs: "check_chunks cs o1 m1 s1 = Inr (off', m', seen')" by (auto split: sum.splits)
  from check_offsets_spec [OF c] obtain n1 where n1: "c = concat n1" "chained off n1"
    "o1 = off + int (length n1)" "s1 = seen + length n1" by (auto simp: RecordIterator_def)
  from "2.IH" [OF c _ _ cs] obtain n2 where "concat cs = concat n2" "chained o1 n2"
    "off' = o1 + int (length n2)" "seen' = s1 + length n2" by auto
  with n1 show ?case by (intro exI [of _ "n1 @ n2"]) (simp add: chained_append)
qed

end
