(* ===== verification/PL_Log_Inv.thy ===== *)
theory PL_Log_Inv
  imports PL_Log_Batch
begin

text \<open>
  The invariant of a partition log: its segments hold runs of records that continue one another
  from the log start to the log end, the last one is active, and everything below the flushed
  offset is on disk.  Each operation is shown to keep it, whatever the kernel answers.
\<close>

section \<open>Lists of segments\<close>

fun segs_inv :: "offset \<Rightarrow> offset \<Rightarrow> segment list \<Rightarrow> bytes list list \<Rightarrow> bool" where
  "segs_inv flushed base [] [] = True"
| "segs_inv flushed base (s # ss) (rs # rss) =
     (seg_inv s rs \<and> sg_base_offset s = base \<and> rec_pos rs (nat (flushed - base)) \<le> sg_synced_position s \<and>
      segs_inv flushed (base + int (length rs)) ss rss)"
| "segs_inv flushed base _ _ = False"

lemma segs_inv_length: "segs_inv fl base ss rss \<Longrightarrow> length ss = length rss"
  by (induction fl base ss rss rule: segs_inv.induct) auto

lemma segs_inv_append:
  assumes "length ss = length rss"
  shows "segs_inv fl base (ss @ ts) (rss @ tss) \<longleftrightarrow>
    segs_inv fl base ss rss \<and> segs_inv fl (base + int (length (concat rss))) ts tss"
  using assms by (induction ss rss arbitrary: base rule: list_induct2) (auto simp: algebra_simps)

lemma segs_inv_snoc:
  "segs_inv fl base (ss @ [s]) rss' \<longleftrightarrow>
   (\<exists>rss rs. rss' = rss @ [rs] \<and> segs_inv fl base ss rss \<and> seg_inv s rs \<and>
      sg_base_offset s = base + int (length (concat rss)) \<and>
      rec_pos rs (nat (fl - sg_base_offset s)) \<le> sg_synced_position s)"
proof
  assume a: "segs_inv fl base (ss @ [s]) rss'"
  then have "length rss' = Suc (length ss)" using segs_inv_length by fastforce
  then obtain rss rs where r: "rss' = rss @ [rs]" "length ss = length rss"
    by (cases rss' rule: rev_cases) auto
  with a show "\<exists>rss rs. rss' = rss @ [rs] \<and> segs_inv fl base ss rss \<and> seg_inv s rs \<and>
      sg_base_offset s = base + int (length (concat rss)) \<and>
      rec_pos rs (nat (fl - sg_base_offset s)) \<le> sg_synced_position s"
    by (intro exI [of _ rss] exI [of _ rs]) (auto simp: segs_inv_append)
next
  assume "\<exists>rss rs. rss' = rss @ [rs] \<and> segs_inv fl base ss rss \<and> seg_inv s rs \<and>
      sg_base_offset s = base + int (length (concat rss)) \<and>
      rec_pos rs (nat (fl - sg_base_offset s)) \<le> sg_synced_position s"
  then show "segs_inv fl base (ss @ [s]) rss'"
    using segs_inv_length by (auto simp: segs_inv_append)
qed

section \<open>The log\<close>

text \<open>
  Left-over files under a base offset do no harm when their indexes are empty: a segment opened
  on them starts at position 0 and overwrites what the log file holds.
\<close>

definition blank :: "segment_files \<Rightarrow> bool" where
  "blank files \<longleftrightarrow> sf_index files \<in> {None, Some []} \<and> sf_tindex files \<in> {None, Some []}"

definition log_inv :: "partition_log \<Rightarrow> bytes list list \<Rightarrow> bool" where
  "log_inv log rss \<longleftrightarrow>
     segs_inv (pl_flushed_offset log) (pl_log_start_offset log) (pl_segments log) rss \<and>
     pl_segments log \<noteq> [] \<and> pl_active log = Some (length (pl_segments log) - 1) \<and>
     [] \<notin> set (butlast rss) \<and>
     0 \<le> pl_log_start_offset log \<and>
     pl_log_end_offset log = pl_log_start_offset log + int (length (concat rss)) \<and>
     pl_flushed_offset log \<le> pl_log_end_offset log \<and> \<not> pl_closed log"

definition clean_dir :: "partition_log \<Rightarrow> bool" where
  "clean_dir log \<longleftrightarrow> (\<forall>b \<ge> pl_log_start_offset log. blank (pl_dir log b))"

lemma log_inv_split:
  assumes "log_inv log rss"
  obtains ss s rss0 rs where "pl_segments log = ss @ [s]" "rss = rss0 @ [rs]" "length ss = length rss0"
    "segs_inv (pl_flushed_offset log) (pl_log_start_offset log) ss rss0" "seg_inv s rs"
    "sg_base_offset s = pl_log_start_offset log + int (length (concat rss0))"
    "rec_pos rs (nat (pl_flushed_offset log - sg_base_offset s)) \<le> sg_synced_position s"
    "sg_next_offset s = pl_log_end_offset log" "pl_active log = Some (length ss)" "[] \<notin> set rss0"
proof -
  from assms obtain ss s where ss: "pl_segments log = ss @ [s]"
    by (metis log_inv_def rev_exhaust)
  with assms obtain rss0 rs where r: "rss = rss0 @ [rs]" "seg_inv s rs"
    "segs_inv (pl_flushed_offset log) (pl_log_start_offset log) ss rss0"
    "sg_base_offset s = pl_log_start_offset log + int (length (concat rss0))"
    "rec_pos rs (nat (pl_flushed_offset log - sg_base_offset s)) \<le> sg_synced_position s"
    by (auto simp: log_inv_def segs_inv_snoc simp del: length_concat)
  show thesis
    by (rule that [OF ss r(1) segs_inv_length [OF r(3)] r(3,2,4,5)])
      (use assms r ss in \<open>auto simp: log_inv_def seg_inv_def\<close>)
qed

lemma log_inv_join:
  assumes "pl_segments log = ss @ [s]" "segs_inv (pl_flushed_offset log) (pl_log_start_offset log) ss rss0"
    and "seg_inv s rs" "sg_base_offset s = pl_log_start_offset log + int (length (concat rss0))"
    and "rec_pos rs (nat (pl_flushed_offset log - sg_base_offset s)) \<le> sg_synced_position s"
    and "pl_log_end_offset log = sg_next_offset s" "pl_active log = Some (length ss)" "[] \<notin> set rss0"
    and "pl_flushed_offset log \<le> pl_log_end_offset log" "\<not> pl_closed log" "0 \<le> pl_log_start_offset log"
  shows "log_inv log (rss0 @ [rs])"
  using assms by (auto simp: log_inv_def segs_inv_snoc seg_inv_def)

section \<open>What the segment operations leave alone\<close>

lemma AppendEncoded_synced:
  "AppendEncoded d b l n m s w = (r, s', w') \<Longrightarrow> sg_synced_position s' = sg_synced_position s"
  by (auto simp: AppendEncoded_def FinishAppend_def index_append_def Let_def split: if_splits prod.splits sum.splits)

lemma AppendEncodedVectored_synced:
  "AppendEncodedVectored d b l n m s w = (r, s', w') \<Longrightarrow> sg_synced_position s' = sg_synced_position s"
  by (auto simp: AppendEncodedVectored_def FinishAppend_def index_append_def Let_def
      split: if_splits prod.splits sum.splits)

lemma Segment_Sync_synced:
  assumes "seg_inv s rs" "Segment_Sync s w = (r, s', w')"
  shows "sg_synced_position s \<le> sg_synced_position s'"
proof -
  have "sg_synced_position s \<le> sg_end_position s"
    using assms(1) boundary_le by (auto simp: seg_inv_def simp del: length_concat)
  with assms(2) show ?thesis
    by (auto simp: Segment_Sync_def Let_def split: if_splits prod.splits sum.splits)
qed

lemma OffsetIndex_Open_blank:
  assumes "OffsetIndex_Open existing base ix0 w = (Inr (), ix, w')" "existing \<in> {None, Some []}"
  shows "oi_entries ix = [] \<and> fh_content (oi_file ix) = [] \<and> oi_ok ix \<and> oi_base_offset ix = base"
proof -
  have "oi_entries ix = [] \<and> fh_content (oi_file ix) = []"
    using assms
    by (auto simp: OffsetIndex_Open_def OffsetIndex_load_def Let_def
        dest!: File_Open_Inr File_Size_Inr split: prod.splits sum.splits if_splits)
  with OffsetIndex_Open_ok [OF assms(1)] show ?thesis by simp
qed

lemma TimeIndex_Open_blank:
  assumes "TimeIndex_Open existing base ix0 w = (Inr (), ix, w')" "existing \<in> {None, Some []}"
  shows "ti_entries ix = [] \<and> fh_content (ti_file ix) = [] \<and> ti_ok ix \<and> ti_base_offset ix = base"
proof -
  have "ti_entries ix = [] \<and> fh_content (ti_file ix) = []"
    using assms
    by (auto simp: TimeIndex_Open_def TimeIndex_load_def Let_def
        dest!: File_Open_Inr File_Size_Inr split: prod.splits sum.splits if_splits)
  with TimeIndex_Open_ok [OF assms(1)] show ?thesis by simp
qed

lemma Segment_Open_blank:
  assumes "Segment_Open files base options w = (Inr s, w')" "blank files"
  shows "seg_inv s [] \<and> sg_base_offset s = base \<and> sg_next_offset s = base \<and> blank (files_of s)"
proof -
  have ix: "oi_entries ix = [] \<and> fh_content (oi_file ix) = [] \<and> oi_ok ix \<and> oi_base_offset ix = base"
    if "OffsetIndex_Open (sf_index files) base ix0 v = (Inr (), ix, v')" for ix0 v ix v'
    using that OffsetIndex_Open_blank assms(2) by (simp add: blank_def)
  have tx: "ti_entries tx = [] \<and> fh_content (ti_file tx) = [] \<and> ti_ok tx \<and> ti_base_offset tx = base"
    if "TimeIndex_Open (sf_tindex files) base tx0 v = (Inr (), tx, v')" for tx0 v tx v'
    using that TimeIndex_Open_blank assms(2) by (simp add: blank_def)
  show ?thesis
    using assms(1)
    by (auto simp: Segment_Open_def NewSegment_def Let_def seg_inv_def boundary_def index_points_def blank_def
        files_of_def dest!: File_Open_Inr ix tx Segment_preallocate_frame split: prod.splits sum.splits)
qed

section \<open>Flushing\<close>

lemma sync_all_inv:
  assumes "segs_inv fl base ss rss" "sync_all ss w = (r, ss', w')"
  shows "segs_inv fl base ss' rss \<and> (r = Inr () \<longrightarrow> (\<forall>fl'. segs_inv fl' base ss' rss))"
  using assms
proof (induction ss arbitrary: base rss w r ss' w')
  case Nil
  then show ?case by (cases rss) auto
next
  case (Cons s ss)
  from Cons.prems(1) obtain rs rss0 where rss: "rss = rs # rss0" by (cases rss) auto
  with Cons.prems(1) have inv: "seg_inv s rs" "sg_base_offset s = base"
    "rec_pos rs (nat (fl - base)) \<le> sg_synced_position s" "segs_inv fl (base + int (length rs)) ss rss0" by auto
  show ?case
  proof (cases "sg_synced_position s < sg_end_position s")
    case False
    obtain r1 ss1 w1 where rec: "sync_all ss w = (r1, ss1, w1)" using prod_cases3 by blast
    have "length (concat rs) \<le> sg_synced_position s" using False inv(1) by (simp add: seg_inv_def)
    then have "rec_pos rs k \<le> sg_synced_position s" for k using rec_pos_le [of rs k] by linarith
    with Cons.IH [OF inv(4) rec] Cons.prems(2) False rec rss inv show ?thesis by auto
  next
    case True
    obtain r0 s0 w0 where sy: "Segment_Sync s w = (r0, s0, w0)" using prod_cases3 by blast
    note s0 = Segment_Sync_inv [OF inv(1) sy] Segment_Sync_synced [OF inv(1) sy]
    show ?thesis
    proof (cases r0)
      case (Inl e)
      with Cons.prems(2) True sy have "ss' = s0 # ss" "r = Inl e" by auto
      with s0 inv rss show ?thesis by auto
    next
      case (Inr u)
      obtain r1 ss1 w1 where rec: "sync_all ss w0 = (r1, ss1, w1)" using prod_cases3 by blast
      have "length (concat rs) = sg_synced_position s0" using s0 Inr by (simp add: seg_inv_def)
      then have "rec_pos rs k \<le> sg_synced_position s0" for k using rec_pos_le [of rs k] by linarith
      with Cons.IH [OF inv(4) rec] Cons.prems(2) True sy Inr rec rss inv s0 show ?thesis by auto
    qed
  qed
qed

lemma Flush_inv:
  assumes inv: "log_inv log rss" and run: "Flush log w = (r, log', w')"
  shows "log_inv log' rss \<and> (r = Inr () \<longrightarrow> pl_flushed_offset log' = pl_log_end_offset log) \<and>
    pl_log_start_offset log' = pl_log_start_offset log \<and> pl_log_end_offset log' = pl_log_end_offset log \<and>
    pl_dir log' = pl_dir log \<and> pl_options log' = pl_options log"
proof (cases "pl_log_end_offset log = pl_flushed_offset log")
  case True
  with inv run show ?thesis by (simp add: Flush_def)
next
  case False
  obtain t w1 where t: "MonotonicNanos w = (t, w1)" by fastforce
  obtain r1 ss w2 where sy: "sync_all (pl_segments log) w1 = (r1, ss, w2)" using prod_cases3 by blast
  have segs: "segs_inv (pl_flushed_offset log) (pl_log_start_offset log) (pl_segments log) rss"
    using inv by (simp add: log_inv_def)
  note sa = sync_all_inv [OF segs sy]
  have len: "length ss = length (pl_segments log)"
    using sa segs segs_inv_length by metis
  then have ne: "ss \<noteq> []" using inv by (auto simp: log_inv_def)
  show ?thesis
    using run False t sy inv sa len ne
    by (auto simp: Flush_def log_inv_def Let_def split: sum.splits prod.splits)
qed

section \<open>Rolling\<close>

lemma CheckDiskSpace_frame:
  assumes "CheckDiskSpace log w = (r, log', w')"
  shows "\<exists>due full. log' = log\<lparr>pl_disk_check_due_ms := due, pl_disk_full := full\<rparr>"
proof -
  have "\<exists>due full. log = log\<lparr>pl_disk_check_due_ms := due, pl_disk_full := full\<rparr>"
    by (intro exI [of _ "pl_disk_check_due_ms log"] exI [of _ "pl_disk_full log"]) simp
  then show ?thesis
    using assms by (auto simp: CheckDiskSpace_def Let_def split: prod.splits if_splits sum.splits)
qed

lemma log_inv_disk [simp]:
  "log_inv (log\<lparr>pl_disk_check_due_ms := due, pl_disk_full := full\<rparr>) rss = log_inv log rss"
  by (simp add: log_inv_def)

lemma segs_inv_base_less:
  "segs_inv fl base ss rss \<Longrightarrow> [] \<notin> set rss \<Longrightarrow> s \<in> set ss \<Longrightarrow>
   sg_base_offset s < base + int (length (concat rss))"
proof (induction fl base ss rss rule: segs_inv.induct)
  case (2 fl base s1 ss rs rss)
  show ?case
  proof (cases "s = s1")
    case True
    have "0 < int (length rs)" using "2.prems"(2) by auto
    then have "0 < int (length rs) + int (length (concat rss))" by linarith
    with True "2.prems"(1) show ?thesis by simp
  next
    case False
    with 2 have "sg_base_offset s < base + int (length rs) + int (length (concat rss))" by auto
    then show ?thesis by simp
  qed
qed auto

text \<open>The next segment of a log whose active segment is not empty starts out on blank files.\<close>

lemma next_files_blank:
  assumes inv: "log_inv log rss" and clean: "clean_dir log" and ne: "last rss \<noteq> []"
  shows "blank (dir_files log (pl_log_end_offset log))"
proof -
  have "rss \<noteq> []" using inv by (auto simp: log_inv_def dest: segs_inv_length)
  with inv ne have "[] \<notin> set rss" by (metis append_butlast_last_id Un_iff empty_iff insert_iff list.set log_inv_def set_append)
  with inv segs_inv_base_less have "\<forall>s \<in> set (pl_segments log). sg_base_offset s < pl_log_end_offset log"
    by (metis log_inv_def)
  then have "find (\<lambda>s. sg_base_offset s = pl_log_end_offset log) (pl_segments log) = None"
    by (auto simp: find_None_iff)
  moreover have "pl_log_start_offset log \<le> pl_log_end_offset log" using inv by (simp add: log_inv_def)
  ultimately show ?thesis using clean by (simp add: dir_files_def clean_dir_def)
qed

text \<open>
  A roll ends with a new empty segment, or fails and leaves the log as it was, apart from
  progress in syncing the old segment and blank files of the new one.
\<close>

lemma RollSegment_inv:
  assumes inv: "log_inv log rss" and clean: "clean_dir log" and ne: "last rss \<noteq> []"
    and run: "RollSegment log w = (r, log', w')"
  shows "log_inv log' (if r = Inr () then rss @ [[]] else rss) \<and> clean_dir log' \<and>
    pl_log_start_offset log' = pl_log_start_offset log \<and> pl_log_end_offset log' = pl_log_end_offset log \<and>
    pl_flushed_offset log' = pl_flushed_offset log \<and> pl_options log' = pl_options log"
proof -
  let ?nb = "pl_log_end_offset log"
  from inv obtain ss s rss0 rs where sp: "pl_segments log = ss @ [s]" "rss = rss0 @ [rs]" "length ss = length rss0"
    "segs_inv (pl_flushed_offset log) (pl_log_start_offset log) ss rss0" "seg_inv s rs"
    "sg_base_offset s = pl_log_start_offset log + int (length (concat rss0))"
    "rec_pos rs (nat (pl_flushed_offset log - sg_base_offset s)) \<le> sg_synced_position s"
    "sg_next_offset s = ?nb" "pl_active log = Some (length ss)" "[] \<notin> set rss0"
    by (rule log_inv_split)
  have fl: "pl_flushed_offset log \<le> ?nb" "0 \<le> pl_log_start_offset log" "\<not> pl_closed log"
    using inv by (simp_all add: log_inv_def)
  obtain ro w1 where op: "Segment_Open (dir_files log ?nb) ?nb (segment_options_of (pl_options log)) w = (ro, w1)"
    by fastforce
  obtain rs1 s1 w2 where sy: "Segment_Sync s w1 = (rs1, s1, w2)" using prod_cases3 by blast
  note s1 = Segment_Sync_inv [OF sp(5) sy] Segment_Sync_synced [OF sp(5) sy]
  have nxt1: "sg_next_offset s1 = ?nb" using s1 sp(5,8) by (simp add: seg_inv_def)
  have same: "log_inv (log\<lparr>pl_segments := ss @ [s1], pl_dir := d\<rparr>) rss" for d
    unfolding sp(2) by (rule log_inv_join [where ss = ss and s = s1]) (use sp s1 nxt1 fl in simp_all)
  show ?thesis
  proof (cases ro)
    case (Inl e)
    with run op sp(1,8,9) have "r = Inl e" "log' = log" by (simp_all add: RollSegment_def Let_def nth_append)
    with inv clean show ?thesis by simp
  next
    case (Inr t)
    note t = Segment_Open_blank [OF op [unfolded Inr] next_files_blank [OF inv clean ne]]
    show ?thesis
    proof (cases rs1)
      case (Inl e)
      with run op sp(1,8,9) \<open>ro = Inr t\<close> sy
      have "r = Inl e" "log' = log\<lparr>pl_segments := ss @ [s1], pl_dir := (pl_dir log)(?nb := files_of t)\<rparr>"
        by (simp_all add: RollSegment_def Let_def nth_append)
      with same [of "(pl_dir log)(?nb := files_of t)"] t clean show ?thesis by (simp add: clean_dir_def)
    next
      case inr: (Inr u)
      with run op sp(1,8,9) Inr sy
      have l: "r = Inr ()" "log' = log\<lparr>pl_segments := (ss @ [s1]) @ [t], pl_active := Some (Suc (length ss)),
          pl_roll_count := pl_roll_count log + 1\<rparr>"
        by (auto simp: RollSegment_def Let_def nth_append split: prod.splits)
      have "log_inv log' (rss @ [[]])"
      proof (rule log_inv_join [where ss = "ss @ [s1]" and s = t])
        show "pl_segments log' = (ss @ [s1]) @ [t]" "seg_inv t []" using l t by simp_all
        show "segs_inv (pl_flushed_offset log') (pl_log_start_offset log') (ss @ [s1]) rss"
          using sp s1 by (simp add: l segs_inv_snoc)
        show "sg_base_offset t = pl_log_start_offset log' + int (length (concat rss))"
          using t inv by (simp add: l log_inv_def)
        show "[] \<notin> set rss" using sp(2,10) ne by auto
      qed (use l t fl in simp_all)
      with l clean show ?thesis by (simp add: clean_dir_def)
    qed
  qed
qed

lemma MaybeRoll_inv:
  assumes inv: "log_inv log rss" and clean: "clean_dir log" and small: "incoming \<le> 4294967295"
    and run: "MaybeRoll incoming log w = (r, log', w')"
  shows "\<exists>rss'. log_inv log' rss' \<and> concat rss' = concat rss \<and> clean_dir log' \<and>
    pl_log_start_offset log' = pl_log_start_offset log \<and> pl_log_end_offset log' = pl_log_end_offset log \<and>
    pl_flushed_offset log' = pl_flushed_offset log \<and> pl_options log' = pl_options log"
proof -
  from inv obtain ss s rss0 rs where sp: "pl_segments log = ss @ [s]" "rss = rss0 @ [rs]" "seg_inv s rs"
    "pl_active log = Some (length ss)" by (rule log_inv_split)
  have pos: "rs \<noteq> []" if "0 < sg_end_position s" using that sp(3) by (auto simp: seg_inv_def)
  have cases: "(r = Inr () \<and> log' = log) \<or> (rs \<noteq> [] \<and> (\<exists>v. RollSegment log v = (r, log', w')))"
    using run sp(1,4) small pos
    by (auto simp: MaybeRoll_def Let_def nth_append split: if_splits prod.splits)
  then show ?thesis
  proof
    assume "r = Inr () \<and> log' = log"
    with inv clean show ?thesis by auto
  next
    assume "rs \<noteq> [] \<and> (\<exists>v. RollSegment log v = (r, log', w'))"
    then obtain v where ne: "last rss \<noteq> []" and roll: "RollSegment log v = (r, log', w')" using sp(2) by auto
    from RollSegment_inv [OF inv clean ne roll] show ?thesis
      by (intro exI [of _ "if r = Inr () then rss @ [[]] else rss"]) auto
  qed
qed

section \<open>Appending\<close>

lemma segment_replaced:
  assumes inv: "log_inv log rss" and s': "seg_inv s' (last rss)"
    and "sg_base_offset s' = sg_base_offset (last (pl_segments log))"
    and "sg_synced_position (last (pl_segments log)) \<le> sg_synced_position s'"
  shows "log_inv (log\<lparr>pl_segments := (pl_segments log)[the (pl_active log) := s']\<rparr>) rss"
proof -
  from inv obtain ss s rss0 rs where sp: "pl_segments log = ss @ [s]" "rss = rss0 @ [rs]" "length ss = length rss0"
    "segs_inv (pl_flushed_offset log) (pl_log_start_offset log) ss rss0" "seg_inv s rs"
    "sg_base_offset s = pl_log_start_offset log + int (length (concat rss0))"
    "rec_pos rs (nat (pl_flushed_offset log - sg_base_offset s)) \<le> sg_synced_position s"
    "sg_next_offset s = pl_log_end_offset log" "pl_active log = Some (length ss)" "[] \<notin> set rss0"
    by (rule log_inv_split)
  have s'_eqs: "sg_base_offset s' = sg_base_offset s" "sg_next_offset s' = sg_next_offset s" "seg_inv s' rs"
    "rec_pos rs (nat (pl_flushed_offset log - sg_base_offset s)) \<le> sg_synced_position s'"
    using assms(2-4) sp(1,2,5,7) by (auto simp: seg_inv_def)
  have "pl_flushed_offset log \<le> pl_log_end_offset log" "\<not> pl_closed log" "0 \<le> pl_log_start_offset log"
    using inv by (simp_all add: log_inv_def)
  then show ?thesis
    unfolding sp(2) by (intro log_inv_join [where ss = ss and s = s']) (use s'_eqs sp(1,2,4-10) in simp_all)
qed

lemma FinalizeAppend_inv:
  assumes inv: "log_inv log rss" and news: "news \<noteq> []" "seg_inv s' (last rss @ news)"
    and s': "sg_base_offset s' = sg_base_offset (last (pl_segments log))"
      "sg_synced_position s' = sg_synced_position (last (pl_segments log))"
    and res: "ar_last_offset res = pl_log_end_offset log + int (length news) - 1"
    and run: "FinalizeAppend res (log\<lparr>pl_segments := (pl_segments log)[the (pl_active log) := s']\<rparr>) w = (r, log', w')"
  shows "log_inv log' (butlast rss @ [last rss @ news]) \<and>
    pl_log_start_offset log' = pl_log_start_offset log \<and>
    pl_log_end_offset log' = pl_log_end_offset log + int (length news) \<and>
    pl_dir log' = pl_dir log \<and> pl_options log' = pl_options log \<and>
    (if fp_sync_on_append (lo_flush (pl_options log))
     then r = Inr () \<longrightarrow> pl_flushed_offset log' = pl_log_end_offset log' else r = Inr ())"
proof -
  from inv obtain ss s rss0 rs where sp: "pl_segments log = ss @ [s]" "rss = rss0 @ [rs]" "length ss = length rss0"
    "segs_inv (pl_flushed_offset log) (pl_log_start_offset log) ss rss0" "seg_inv s rs"
    "sg_base_offset s = pl_log_start_offset log + int (length (concat rss0))"
    "rec_pos rs (nat (pl_flushed_offset log - sg_base_offset s)) \<le> sg_synced_position s"
    "sg_next_offset s = pl_log_end_offset log" "pl_active log = Some (length ss)" "[] \<notin> set rss0"
    by (rule log_inv_split)
  define log1 where "log1 = log\<lparr>pl_segments := ss @ [s'], pl_log_end_offset := ar_last_offset res + 1,
      pl_unflushed_bytes := pl_unflushed_bytes log + int (ar_bytes res),
      pl_unflushed_records := pl_unflushed_records log + int (ar_record_count res)\<rparr>"
  have fl: "pl_flushed_offset log \<le> pl_log_end_offset log" "\<not> pl_closed log" "0 \<le> pl_log_start_offset log"
    using inv by (simp_all add: log_inv_def)
  have nat: "nat (pl_flushed_offset log - sg_base_offset s) \<le> length rs"
    using fl sp(5,6,8) by (auto simp: seg_inv_def)
  have "log_inv log1 (rss0 @ [rs @ news])"
    by (rule log_inv_join [where ss = ss and s = s'])
      (use news s' res sp fl nat in \<open>auto simp: log1_def seg_inv_def rec_pos_append\<close>)
  moreover have run1: "(if fp_sync_on_append (lo_flush (pl_options log)) then Flush log1 w else (Inr (), log1, w)) = (r, log', w')"
    unfolding log1_def using run sp(1,9) by (simp add: FinalizeAppend_def Let_def split del: if_split)
  ultimately show ?thesis
    using Flush_inv [of log1 "rss0 @ [rs @ news]" w r log' w'] sp(2) res
    by (auto simp: log1_def split: if_splits)
qed

text \<open>
  The outcome of an append: the log holds what it held, plus new records.  It is a whole batch
  when the append succeeds; when it fails, nothing was added, or the batch was added and could
  not be flushed.
\<close>

definition appended ::
  "bytes list \<Rightarrow> partition_log \<Rightarrow> append_result result \<Rightarrow> partition_log \<Rightarrow> bytes list list \<Rightarrow> bytes list list \<Rightarrow> bool" where
  "appended news log r log' rss rss' \<longleftrightarrow>
     log_inv log' rss' \<and> (clean_dir log \<longrightarrow> clean_dir log') \<and> pl_log_start_offset log' = pl_log_start_offset log \<and>
     pl_options log' = pl_options log \<and>
     (case r of
        Inr x \<Rightarrow> concat rss' = concat rss @ news \<and> news \<noteq> [] \<and> ar_base_offset x = pl_log_end_offset log \<and>
          ar_last_offset x + 1 = pl_log_end_offset log' \<and> ar_record_count x = length news \<and>
          ar_bytes x = length (concat news) \<and>
          (fp_sync_on_append (lo_flush (pl_options log)) \<longrightarrow> pl_flushed_offset log' = pl_log_end_offset log')
      | Inl e \<Rightarrow> concat rss' = concat rss \<or>
          fp_sync_on_append (lo_flush (pl_options log)) \<and> concat rss' = concat rss @ news)"

text \<open>How all three appends end, given the outcome of writing to the active segment.\<close>

definition append_outcome ::
  "partition_log \<Rightarrow> bytes list \<Rightarrow> timestamp_ms \<Rightarrow> segment \<Rightarrow> unit result \<Rightarrow> os \<Rightarrow> append_result result \<Rightarrow>
   partition_log \<Rightarrow> bool" where
  "append_outcome log news t s rw w r log' \<longleftrightarrow>
     (case rw of
        Inl e \<Rightarrow> (r, log') = (Inl e, log\<lparr>pl_segments := (pl_segments log)[the (pl_active log) := s]\<rparr>)
      | Inr _ \<Rightarrow>
          (case FinalizeAppend (append_result_of (pl_log_end_offset log)
                  (pl_log_end_offset log + int (length news)) (length news) (length (concat news)) t)
                (log\<lparr>pl_segments := (pl_segments log)[the (pl_active log) := s]\<rparr>) w of
             (Inl e, log2, w2) \<Rightarrow> (r, log') = (Inl e, log2)
           | (Inr _, log2, w2) \<Rightarrow>
               (r, log') = (Inr (append_result_of (pl_log_end_offset log)
                  (pl_log_end_offset log + int (length news)) (length news) (length (concat news)) t), log2)))"

lemma append_tail:
  assumes inv: "log_inv log rss" and news: "news \<noteq> []"
    and s: "seg_inv s (if rw = Inr () then last rss @ news else last rss)"
      "sg_base_offset s = sg_base_offset (last (pl_segments log))"
      "sg_synced_position s = sg_synced_position (last (pl_segments log))"
    and run0: "append_outcome log news t s rw w r log'"
  shows "\<exists>rss'. appended news log r log' rss rss'"
proof -
  define log1 where log1: "log1 = log\<lparr>pl_segments := (pl_segments log)[the (pl_active log) := s]\<rparr>"
  define res where res: "res = append_result_of (pl_log_end_offset log) (pl_log_end_offset log + int (length news))
        (length news) (length (concat news)) t"
  note run = run0 [unfolded append_outcome_def, folded res log1]
  show ?thesis
  proof (cases rw)
    case (Inl e)
    with run have "r = Inl e" "log' = log1" by auto
    moreover have "log_inv log1 rss" unfolding log1 using Inl s by (intro segment_replaced [OF inv]) auto
    ultimately show ?thesis by (auto simp: appended_def log1 clean_dir_def)
  next
    case (Inr u)
    obtain r2 log2 w2 where fin: "FinalizeAppend res log1 w = (r2, log2, w2)" using prod_cases3 by blast
    have ne: "rss \<noteq> []" using inv by (auto simp: log_inv_def dest: segs_inv_length)
    have F: "log_inv log2 (butlast rss @ [last rss @ news]) \<and>
      pl_log_start_offset log2 = pl_log_start_offset log \<and>
      pl_log_end_offset log2 = pl_log_end_offset log + int (length news) \<and>
      pl_dir log2 = pl_dir log \<and> pl_options log2 = pl_options log \<and>
      (if fp_sync_on_append (lo_flush (pl_options log))
       then r2 = Inr () \<longrightarrow> pl_flushed_offset log2 = pl_log_end_offset log2 else r2 = Inr ())"
      by (rule FinalizeAppend_inv [OF inv news _ s(2,3) _ fin [unfolded log1]])
        (use Inr s(1) res in \<open>simp_all add: append_result_of_def\<close>)
    have cc: "concat (butlast rss @ [last rss @ news]) = concat rss @ news"
    proof -
      have "concat rss @ news = concat (butlast rss @ [last rss]) @ news" using ne by simp
      then show ?thesis by simp
    qed
    have "log' = log2" "r = (case r2 of Inl e \<Rightarrow> Inl e | Inr _ \<Rightarrow> Inr res)"
      using run Inr fin by (auto split: sum.splits)
    with F cc news res show ?thesis
      unfolding appended_def
      by (intro exI [of _ "butlast rss @ [last rss @ news]"])
        (auto simp: clean_dir_def append_result_of_def split: sum.splits if_splits simp del: length_concat concat_append)
  qed
qed

end
