(* ===== verification/PL_Log_Append.thy ===== *)
theory PL_Log_Append
  imports PL_Log_Inv
begin

text \<open>
  The three ways of appending to a partition log, against the invariant: the leader's, which
  assigns offsets in place, the follower's, and the vectored one.
\<close>

text \<open>Two states of a log that hold the same records, one of them with room made for a batch.\<close>

definition same_records :: "partition_log \<Rightarrow> bytes list list \<Rightarrow> partition_log \<Rightarrow> bytes list list \<Rightarrow> bool" where
  "same_records log rss log2 rss2 \<longleftrightarrow>
     log_inv log2 rss2 \<and> concat rss2 = concat rss \<and> (clean_dir log \<longrightarrow> clean_dir log2) \<and>
     pl_log_start_offset log2 = pl_log_start_offset log \<and> pl_log_end_offset log2 = pl_log_end_offset log \<and>
     pl_options log2 = pl_options log"

lemma appended_none: "same_records log rss log2 rss2 \<Longrightarrow> appended news log (Inl e) log2 rss rss2"
  by (simp add: same_records_def appended_def)

lemma appended_after:
  "same_records log rss log2 rss2 \<Longrightarrow> appended news log2 r log' rss2 rss' \<Longrightarrow> appended news log r log' rss rss'"
  by (auto simp: same_records_def appended_def split: sum.splits)

lemma same_records_refl: "log_inv log rss \<Longrightarrow> same_records log rss log rss"
  by (simp add: same_records_def)

lemma CheckDiskSpace_same:
  assumes "log_inv log rss" "CheckDiskSpace log w = (r, log1, w1)"
  shows "same_records log rss log1 rss"
  using assms CheckDiskSpace_frame [OF assms(2)] by (auto simp: same_records_def clean_dir_def)

lemma MaybeRoll_same:
  assumes "same_records log rss log1 rss1" "clean_dir log" "incoming \<le> 4294967295"
    and "MaybeRoll incoming log1 w = (r, log2, w2)"
  shows "\<exists>rss2. same_records log rss log2 rss2"
  using MaybeRoll_inv [of log1 rss1 incoming w r log2 w2] assms unfolding same_records_def by metis

lemma active_is_last:
  assumes "log_inv log rss"
  shows "pl_segments log ! the (pl_active log) = last (pl_segments log)"
    "sg_next_offset (last (pl_segments log)) = pl_log_end_offset log" "seg_inv (last (pl_segments log)) (last rss)"
  using assms by (auto elim!: log_inv_split simp: nth_append)

section \<open>The leader's append\<close>

lemma AppendAssigningOffsets_appended:
  assumes inv: "log_inv log rss" and clean: "clean_dir log" and small: "length records \<le> 4294967295"
    and room: "pl_log_end_offset log + int (length records) < 2 ^ 63"
    and run: "AppendAssigningOffsets records n log w = (r, records', log', w')"
  shows "\<exists>news rss'. appended news log r log' rss rss' \<and>
    (\<forall>x. r = Inr x \<longrightarrow> records' = concat news \<and> chained (pl_log_end_offset log) news \<and> length news = n \<and>
       (\<exists>olds. records = concat olds \<and> restamped olds news))"
proof (cases "pl_closed log \<or> records = [] \<or> n = 0")
  case True
  then obtain e where "r = Inl e" "log' = log" using run by (auto simp: AppendAssigningOffsets_def split: if_splits)
  then show ?thesis using appended_none [OF same_records_refl [OF inv]] by blast
next
  case go: False
  obtain r1 log1 w1 where cd: "CheckDiskSpace log w = (r1, log1, w1)" using prod_cases3 by blast
  note same1 = CheckDiskSpace_same [OF inv cd]
  obtain r2 log2 w2 where mr: "MaybeRoll (length records) log1 w1 = (r2, log2, w2)" using prod_cases3 by blast
  obtain rss2 where same2: "same_records log rss log2 rss2"
    using MaybeRoll_same [OF same1 clean small mr] by blast
  then have inv2: "log_inv log2 rss2" and end2: "pl_log_end_offset log2 = pl_log_end_offset log"
    by (simp_all add: same_records_def)
  note act = active_is_last [OF inv2]
  obtain t w3 where t: "WallClockMillis w2 = (t, w3)" by fastforce
  obtain q recs where st: "stamp_records t records 0 (pl_log_end_offset log) (- 1) 0 = (q, recs)" by fastforce
  show ?thesis
  proof (cases "\<exists>e. r = Inl e \<and> (log' = log1 \<or> log' = log2)")
    case True
    then show ?thesis using appended_none [OF same1] appended_none [OF same2] by blast
  next
    case False
    then obtain off m seen where ok: "r1 = Inr ()" "r2 = Inr ()" "q = Inr (off, m, seen)" "seen = n"
      using run go cd mr act t st end2
      by (auto simp: AppendAssigningOffsets_def Let_def split: sum.splits if_splits prod.splits)
    have start: "0 \<le> pl_log_start_offset log" and "pl_log_start_offset log \<le> pl_log_end_offset log"
      using inv by (auto simp: log_inv_def)
    then have "0 \<le> pl_log_end_offset log" by simp
    with stamp_records_spec [OF st [unfolded ok(3)]] room obtain olds news where
      b: "records = concat olds" "recs = concat news" "restamped olds news" "chained (pl_log_end_offset log) news"
        "off = pl_log_end_offset log + int (length news)" "seen = length news" by auto
    have news: "news \<noteq> []" using b(6) ok(4) go by auto
    have len: "length records = length (concat news)"
    proof -
      have "length recs = length records" using stamp_length [OF st] .
      then show ?thesis using b(2) by simp
    qed
    obtain ra s w4 where ae: "AppendEncoded recs (pl_log_end_offset log) (off - 1) seen m (last (pl_segments log2)) w3
        = (ra, s, w4)" using prod_cases3 by blast
    have si: "seg_inv s (if ra = Inr () then last rss2 @ news else last rss2) \<and>
        sg_base_offset s = sg_base_offset (last (pl_segments log2))"
      using AppendEncoded_inv [OF act(3), of news n m w3 ra s w4] act(2) b news ae ok(4) end2 by simp
    have "\<exists>rss'. appended news log2 r log' rss2 rss'"
    proof (rule append_tail [OF inv2 news, where s = s and rw = ra and t = t and w = w4])
      show "append_outcome log2 news t s ra w4 r log'"
        unfolding append_outcome_def
        using run go cd mr act t st end2 ok ae b(5,6) len
        by (auto simp: AppendAssigningOffsets_def Let_def split: sum.splits prod.splits)
    qed (use si AppendEncoded_synced [OF ae] in auto)
    then obtain rss' where app: "appended news log r log' rss rss'" using appended_after [OF same2] by blast
    have "records' = recs"
      using run go cd mr act t st end2 ok ae
      by (auto simp: AppendAssigningOffsets_def Let_def split: sum.splits prod.splits)
    with app b ok(4) show ?thesis by (intro exI [of _ news] exI [of _ rss']) auto
  qed
qed

section \<open>The follower's append\<close>

lemma AppendWithOffsets_appended:
  assumes inv: "log_inv log rss" and clean: "clean_dir log" and small: "length records \<le> 4294967295"
    and run: "AppendWithOffsets records n log w = (r, log', w')"
  shows "\<exists>news rss'. appended news log r log' rss rss' \<and>
    (\<forall>x. r = Inr x \<longrightarrow> records = concat news \<and> chained (pl_log_end_offset log) news \<and>
       list_all crc_good news \<and> length news = n)"
proof (cases "pl_closed log \<or> records = [] \<or> n = 0")
  case True
  then obtain e where "r = Inl e" "log' = log" using run by (auto simp: AppendWithOffsets_def split: if_splits)
  then show ?thesis using appended_none [OF same_records_refl [OF inv]] by blast
next
  case go: False
  obtain r1 log1 w1 where cd: "CheckDiskSpace log w = (r1, log1, w1)" using prod_cases3 by blast
  note same1 = CheckDiskSpace_same [OF inv cd]
  then have end1: "pl_log_end_offset log1 = pl_log_end_offset log" by (simp add: same_records_def)
  obtain r2 log2 w2 where mr: "MaybeRoll (length records) log1 w1 = (r2, log2, w2)" using prod_cases3 by blast
  obtain rss2 where same2: "same_records log rss log2 rss2"
    using MaybeRoll_same [OF same1 clean small mr] by blast
  then have inv2: "log_inv log2 rss2" and end2: "pl_log_end_offset log2 = pl_log_end_offset log"
    by (simp_all add: same_records_def)
  note act = active_is_last [OF inv2]
  let ?q = "check_offsets (RecordIterator records True) (pl_log_end_offset log) (- 1) 0"
  show ?thesis
  proof (cases "\<exists>e. r = Inl e \<and> (log' = log1 \<or> log' = log2)")
    case True
    then show ?thesis using appended_none [OF same1] appended_none [OF same2] by blast
  next
    case False
    then obtain off m where ok: "r1 = Inr ()" "r2 = Inr ()" "?q = Inr (off, m, n)"
      using run go cd mr act end1 end2
      by (auto simp: AppendWithOffsets_def Let_def split: sum.splits if_splits prod.splits)
    from check_offsets_spec [OF ok(3)] obtain news where
      b: "records = concat news" "chained (pl_log_end_offset log) news" "list_all crc_good news"
        "off = pl_log_end_offset log + int (length news)" "n = length news" by (auto simp: RecordIterator_def)
    have news: "news \<noteq> []" using b(5) go by auto
    obtain ra s w3 where ae: "AppendEncoded records (pl_log_end_offset log) (off - 1) n m (last (pl_segments log2)) w2
        = (ra, s, w3)" using prod_cases3 by blast
    have si: "seg_inv s (if ra = Inr () then last rss2 @ news else last rss2) \<and>
        sg_base_offset s = sg_base_offset (last (pl_segments log2))"
      using AppendEncoded_inv [OF act(3), of news n m w2 ra s w3] act(2) b news ae end2 by simp
    obtain t w4 where t: "WallClockMillis w3 = (t, w4)" by fastforce
    have "\<exists>rss'. appended news log2 r log' rss2 rss'"
    proof (rule append_tail [OF inv2 news, where s = s and rw = ra and t = t and w = w4])
      show "append_outcome log2 news t s ra w4 r log'"
        unfolding append_outcome_def
        using run go cd mr act t end1 end2 ok ae b(4,5) arg_cong [OF b(1), of length]
        by (auto simp: AppendWithOffsets_def Let_def split: sum.splits prod.splits)
    qed (use si AppendEncoded_synced [OF ae] in auto)
    then obtain rss' where app: "appended news log r log' rss rss'" using appended_after [OF same2] by blast
    with b show ?thesis by (intro exI [of _ news] exI [of _ rss']) auto
  qed
qed

lemma AppendVectoredWithOffsets_appended:
  assumes inv: "log_inv log rss" and clean: "clean_dir log" and small: "length (concat chunks) \<le> 4294967295"
    and run: "AppendVectoredWithOffsets chunks n log w = (r, log', w')"
  shows "\<exists>news rss'. appended news log r log' rss rss' \<and>
    (\<forall>x. r = Inr x \<longrightarrow> concat chunks = concat news \<and> chained (pl_log_end_offset log) news \<and> length news = n)"
proof (cases "pl_closed log \<or> concat chunks = [] \<or> n = 0")
  case True
  then obtain e where "r = Inl e" "log' = log"
    using run by (auto simp: AppendVectoredWithOffsets_def Let_def sum_list_eq_0_iff split: if_splits)
  then show ?thesis using appended_none [OF same_records_refl [OF inv]] by blast
next
  case go: False
  obtain total where sum: "sum_list (map length chunks) = total" by blast
  then have tot: "total = length (concat chunks)" by (simp only: length_concat)
  then have n0: "total \<noteq> 0" using go by (simp del: length_concat)
  obtain r1 log1 w1 where cd: "CheckDiskSpace log w = (r1, log1, w1)" using prod_cases3 by blast
  note same1 = CheckDiskSpace_same [OF inv cd]
  obtain r2 log2 w2 where mr: "MaybeRoll total log1 w1 = (r2, log2, w2)" using prod_cases3 by blast
  obtain rss2 where same2: "same_records log rss log2 rss2"
    using MaybeRoll_same [OF same1 clean small [folded tot] mr] by blast
  then have inv2: "log_inv log2 rss2" and end2: "pl_log_end_offset log2 = pl_log_end_offset log"
    by (simp_all add: same_records_def)
  note act = active_is_last [OF inv2]
  let ?q = "check_chunks chunks (pl_log_end_offset log) (- 1) 0"
  show ?thesis
  proof (cases "\<exists>e. r = Inl e \<and> (log' = log1 \<or> log' = log2)")
    case True
    then show ?thesis using appended_none [OF same1] appended_none [OF same2] by blast
  next
    case False
    then obtain off m where ok: "r1 = Inr ()" "r2 = Inr ()" "?q = Inr (off, m, n)"
      using run go sum n0 cd mr act end2
      by (auto simp: AppendVectoredWithOffsets_def Let_def split: sum.splits if_splits prod.splits)
    from check_chunks_spec [OF ok(3)] obtain news where
      b: "concat chunks = concat news" "chained (pl_log_end_offset log) news"
        "off = pl_log_end_offset log + int (length news)" "n = length news" by auto
    have news: "news \<noteq> []" using b(4) go by auto
    obtain ra s w3 where ae: "AppendEncodedVectored chunks (pl_log_end_offset log) (off - 1) n m
        (last (pl_segments log2)) w2 = (ra, s, w3)" using prod_cases3 by blast
    have si: "seg_inv s (if ra = Inr () then last rss2 @ news else last rss2) \<and>
        sg_base_offset s = sg_base_offset (last (pl_segments log2))"
      using AppendEncodedVectored_inv [OF act(3), of news chunks n m w2 ra s w3] act(2) b news ae end2 by simp
    obtain t w4 where t: "WallClockMillis w3 = (t, w4)" by fastforce
    have "\<exists>rss'. appended news log2 r log' rss2 rss'"
    proof (rule append_tail [OF inv2 news, where s = s and rw = ra and t = t and w = w4])
      show "append_outcome log2 news t s ra w4 r log'"
        unfolding append_outcome_def tot [unfolded b(1), symmetric] using run go sum n0 cd mr act t end2 ok ae b(3,4)
        by (auto simp: AppendVectoredWithOffsets_def Let_def split: sum.splits prod.splits)
    qed (use si AppendEncodedVectored_synced [OF ae] in auto)
    then obtain rss' where app: "appended news log r log' rss rss'" using appended_after [OF same2] by blast
    with b show ?thesis by (intro exI [of _ news] exI [of _ rss']) auto
  qed
qed

end
