(* ===== verification/PL_Log_Read.thy ===== *)
theory PL_Log_Read
  imports PL_Log_Append
begin

text \<open>
  Reading a partition log across its segments: exactly the records from an offset on, until the
  byte budget is reached or the log ends.
\<close>

section \<open>Where an offset lies\<close>

lemma segs_inv_nth:
  assumes "segs_inv fl base ss rss" "i < length ss"
  shows "seg_inv (ss ! i) (rss ! i)" "sg_base_offset (ss ! i) = base + int (length (concat (take i rss)))"
    "rec_pos (rss ! i) (nat (fl - sg_base_offset (ss ! i))) \<le> sg_synced_position (ss ! i)"
proof -
  have len: "length ss = length rss" using assms(1) by (rule segs_inv_length)
  have parts: "ss = take i ss @ ss ! i # drop (Suc i) ss" "rss = take i rss @ rss ! i # drop (Suc i) rss"
    using assms(2) len by (simp_all add: id_take_nth_drop)
  have "segs_inv fl base (take i ss @ ss ! i # drop (Suc i) ss) (take i rss @ rss ! i # drop (Suc i) rss)"
    using assms(1) parts by simp
  then have "segs_inv fl (base + int (length (concat (take i rss)))) (ss ! i # drop (Suc i) ss) (rss ! i # drop (Suc i) rss)"
    using len by (subst (asm) segs_inv_append) simp_all
  then show "seg_inv (ss ! i) (rss ! i)" "sg_base_offset (ss ! i) = base + int (length (concat (take i rss)))"
    "rec_pos (rss ! i) (nat (fl - sg_base_offset (ss ! i))) \<le> sg_synced_position (ss ! i)"
    by simp_all
qed

lemma flat_drop:
  assumes "i < length rss" "j \<le> length (rss ! i)"
  shows "drop (length (concat (take i rss)) + j) (concat rss) = drop j (rss ! i) @ concat (drop (Suc i) rss)"
proof -
  have "concat rss = concat (take i rss) @ rss ! i @ concat (drop (Suc i) rss)"
    using assms(1) by (metis concat.simps(2) concat_append id_take_nth_drop)
  then show ?thesis using assms(2) by simp
qed

lemma concat_take_Suc: "i < length rss \<Longrightarrow> length (concat (take (Suc i) rss)) = length (concat (take i rss)) + length (rss ! i)"
  by (simp add: take_Suc_conv_app_nth)

lemma SegmentForOffset_found:
  assumes "segs_inv fl base ss rss" "k < length (concat rss)"
  shows "\<exists>i j. SegmentForOffset (base + int k) ss = Some i \<and> i < length ss \<and>
    k = length (concat (take i rss)) + j \<and> j < length (rss ! i)"
proof -
  let ?P = "\<lambda>s. \<not> base + int k < sg_base_offset s"
  define it where "it = partition_index ?P ss"
  have len: "length ss = length rss" using assms(1) by (rule segs_inv_length)
  have ne: "ss \<noteq> []" using assms(2) len by auto
  then have "?P (ss ! 0)" using segs_inv_nth(2) [OF assms(1), of 0] by simp
  then have pos: "0 < it" using ne by (cases ss) (simp_all add: it_def partition_index_def)
  have le: "it \<le> length ss" unfolding it_def by (rule partition_index_le)
  define i where "i = it - 1"
  have i: "i < length ss" "Suc i = it" using pos le by (simp_all add: i_def)
  have "?P (ss ! i)" using partition_index_before [of i ?P ss] i by (simp add: it_def)
  then have low: "length (concat (take i rss)) \<le> k" using segs_inv_nth(2) [OF assms(1) i(1)] by simp
  have "k < length (concat (take (Suc i) rss))"
  proof (cases "it < length ss")
    case True
    then have "\<not> ?P (ss ! it)" using partition_index_at [of ?P ss] by (simp add: it_def)
    then show ?thesis using segs_inv_nth(2) [OF assms(1) True] i(2) by simp
  next
    case False
    then show ?thesis using assms(2) le i(2) len by simp
  qed
  then have "k - length (concat (take i rss)) < length (rss ! i)"
    using concat_take_Suc [of i rss] i(1) len low by simp
  then show ?thesis
    using low i ne pos by (intro exI [of _ i] exI [of _ "k - length (concat (take i rss))"])
      (simp add: SegmentForOffset_def Let_def it_def [symmetric] i_def)
qed

section \<open>The loop over the segments\<close>

lemma Segment_Read_run:
  assumes "seg_inv s rs" "j < length rs" "0 < mb" "buf_ok out"
    and "Segment_Read (sg_base_offset s + int j) mb out s w = (Inr x, out', w')"
  shows "\<exists>n. 0 < n \<and> j + n \<le> length rs \<and> rd_record_count x = n \<and>
    rd_bytes x = length (concat (take n (drop j rs))) \<and> buf_ok out' \<and>
    Readable out' = Readable out @ concat (take n (drop j rs)) \<and>
    (n = 1 \<or> length (concat (take n (drop j rs))) \<le> mb)"
proof -
  from Segment_Read_from [OF assms] obtain nx where
    "read_from rs (sg_base_offset s) j 0 0 mb out (nx, rd_record_count x, rd_bytes x) out'" by blast
  then obtain n where "j + n \<le> length rs" "rd_record_count x = n" "rd_bytes x = rec_pos (drop j rs) n" "buf_ok out'"
    "Readable out' = Readable out @ concat (take n (drop j rs))" "n \<le> 1 \<or> rec_pos (drop j rs) n \<le> mb" "0 < n"
    using assms(2) by (auto simp: read_from_def)
  then show ?thesis unfolding rec_pos_def by (intro exI [of _ n]) (auto simp del: length_concat)
qed

text \<open>
  Delivery of a run of the records \<open>us\<close> behind what was delivered before: it stops at the first
  record with which the budget is reached, or at the end.
\<close>

definition delivers ::
  "bytes list \<Rightarrow> nat \<Rightarrow> nat \<Rightarrow> nat \<Rightarrow> byte_buffer \<Rightarrow> nat \<times> nat \<Rightarrow> byte_buffer \<Rightarrow> bool" where
  "delivers us max_bytes rc rb out x out' \<longleftrightarrow>
     (\<exists>n \<le> length us. x = (rc + n, rb + length (concat (take n us))) \<and> buf_ok out' \<and>
        Readable out' = Readable out @ concat (take n us) \<and>
        (n = length us \<or> max_bytes \<le> rb + length (concat (take n us))) \<and>
        (0 < n \<longrightarrow> rb + length (concat (take (n - 1) us)) < max_bytes))"

lemma concat_take_strict:
  assumes "n < length us" "us ! n \<noteq> []"
  shows "length (concat (take n us)) < length (concat (take (Suc n) us))"
  using assms by (simp add: take_Suc_conv_app_nth)

lemma delivers_one:
  assumes "list_all (\<lambda>u. u \<noteq> []) us" "0 < n" "n \<le> length us" "rb < max_bytes" "buf_ok out'"
    and "n = 1 \<or> length (concat (take n us)) \<le> max_bytes - rb"
    and "Readable out' = Readable out @ concat (take n us)"
    and "n = length us \<or> max_bytes \<le> rb + length (concat (take n us))"
  shows "delivers us max_bytes rc rb out (rc + n, rb + length (concat (take n us))) out'"
proof -
  have "length (concat (take (n - 1) us)) < length (concat (take n us))"
    using concat_take_strict [of "n - 1" us] assms(1-3) by (simp add: list_all_length)
  then have "rb + length (concat (take (n - 1) us)) < max_bytes"
    using assms(4,6) by (auto simp del: length_concat)
  with assms show ?thesis unfolding delivers_def by (intro exI [of _ n]) simp
qed

lemma delivers_more:
  assumes "list_all (\<lambda>u. u \<noteq> []) us" "0 < n" "n \<le> length us" "rb < max_bytes"
    and "n = 1 \<or> length (concat (take n us)) \<le> max_bytes - rb"
    and "Readable out1 = Readable out @ concat (take n us)"
    and "delivers (drop n us) max_bytes (rc + n) (rb + length (concat (take n us))) out1 x out'"
  shows "delivers us max_bytes rc rb out x out'"
proof -
  obtain m where m: "m \<le> length us - n" "x = (rc + n + m, rb + length (concat (take n us)) + length (concat (take m (drop n us))))"
    "buf_ok out'" "Readable out' = Readable out1 @ concat (take m (drop n us))"
    "m = length us - n \<or> max_bytes \<le> rb + length (concat (take n us)) + length (concat (take m (drop n us)))"
    "0 < m \<longrightarrow> rb + length (concat (take n us)) + length (concat (take (m - 1) (drop n us))) < max_bytes"
    using assms(7) by (auto simp: delivers_def)
  have glue: "concat (take (n + i) us) = concat (take n us) @ concat (take i (drop n us))" for i
    by (simp add: take_add)
  show ?thesis
  proof (cases "m = 0")
    case True
    then have "n = length us \<or> max_bytes \<le> rb + length (concat (take n us))" using m(5) assms(3) by auto
    from delivers_one [OF assms(1-4) m(3) assms(5) _ this, of out rc] show ?thesis
      using m True assms(6) by simp
  next
    case False
    then have "concat (take (n + m - 1) us) = concat (take n us) @ concat (take (m - 1) (drop n us))"
      using glue [of "m - 1"] by simp
    then have last: "rb + length (concat (take (n + m - 1) us)) < max_bytes"
      using m(6) False by (simp only: length_append add.assoc)
    have whole: "n + m = length us \<or> max_bytes \<le> rb + length (concat (take (n + m) us))"
      using m(5) assms(3) by (auto simp: glue simp del: length_concat)
    show ?thesis
      unfolding delivers_def
      by (intro exI [of _ "n + m"] conjI impI last whole)
        (use m(1-4) assms(3,6) in \<open>simp_all add: glue del: length_concat\<close>)
  qed
qed

lemma framed_nonempty: "framed u \<Longrightarrow> u \<noteq> []"
  by (auto simp: framed_def)

lemma segs_inv_framed: "segs_inv fl base ss rss \<Longrightarrow> list_all framed (concat rss)"
  by (induction fl base ss rss rule: segs_inv.induct) (auto simp: seg_inv_def chained_all_framed)

text \<open>Behind the last record of a segment, either the log ends or the next segment begins with a record.\<close>

lemma next_segment_record:
  assumes "i < length rss" "length (concat (take (Suc i) rss)) < length (concat rss)" "[] \<notin> set (butlast rss)"
  shows "Suc i < length rss \<and> rss ! Suc i \<noteq> []"
proof -
  have lt: "Suc i < length rss"
    using assms(1,2) by (cases "Suc i = length rss") auto
  moreover have "rss ! Suc i \<noteq> []"
  proof (cases "Suc (Suc i) = length rss")
    case True
    have "concat (take (Suc (Suc i)) rss) = concat (take (Suc i) rss) @ rss ! Suc i"
      using lt by (simp add: take_Suc_conv_app_nth [of "Suc i"])
    with True assms(2) show ?thesis by auto
  next
    case False
    with lt have "Suc i < length (butlast rss)" by simp
    then have "rss ! Suc i \<in> set (butlast rss)" by (metis nth_butlast nth_mem)
    with assms(3) show ?thesis by metis
  qed
  ultimately show ?thesis ..
qed

lemma log_read_loop_exact:
  assumes "log_read_loop ss log_end max_bytes seg cursor rc rb out w = (r, out', w')"
    and "segs_inv fl base ss rss" "log_end = base + int (length (concat rss))" "seg = Some i" "i < length ss"
    and "cursor = base + int (length (concat (take i rss)) + j)" "j < length (rss ! i)"
    and "[] \<notin> set (butlast rss)" "buf_ok out"
  shows "(quiet w \<and> list_all (\<lambda>x. length x \<le> kMaxRecordBytes) (concat rss) \<longrightarrow> (\<exists>x. r = Inr x) \<and> w' = w) \<and>
    (\<forall>x. r = Inr x \<longrightarrow> delivers (drop (length (concat (take i rss)) + j) (concat rss)) max_bytes rc rb out x out')"
  using assms
proof (induction ss log_end max_bytes seg cursor rc rb out w arbitrary: i j r out' w' rule: log_read_loop.induct)
  case (1 ss log_end max_bytes seg cursor rc rb out w)
  note prems = "1.prems"
  let ?k = "length (concat (take i rss)) + j"
  note loop = log_read_loop.simps [of ss log_end max_bytes "Some i" cursor rc]
  have len: "length ss = length rss" using prems(2) by (rule segs_inv_length)
  note seg = segs_inv_nth [OF prems(2,5)]
  show ?case
  proof (cases "rb < max_bytes")
    case False
    with prems(1,4,9) have "r = Inr (rc, rb)" "out' = out" "w' = w" by (auto simp: loop)
    with False prems(9) show ?thesis by (auto simp: delivers_def intro: exI [of _ 0])
  next
    case True
    define us where "us = drop ?k (concat rss)"
    have us: "us = drop j (rss ! i) @ concat (drop (Suc i) rss)"
      unfolding us_def using prems(5,7) len by (intro flat_drop) simp_all
    have all: "list_all (\<lambda>u. u \<noteq> []) us"
      using segs_inv_framed [OF prems(2)] framed_nonempty unfolding us_def list_all_iff by (meson in_set_dropD)
    obtain rr o1 w1 where rd: "Segment_Read cursor (max_bytes - rb) out (ss ! i) w = (rr, o1, w1)"
      using prod_cases3 by blast
    have cur: "cursor = sg_base_offset (ss ! i) + int j" using seg(2) prems(6) by simp
    have small: "list_all (\<lambda>x. length x \<le> kMaxRecordBytes) (concat rss) \<Longrightarrow>
        list_all (\<lambda>x. length x \<le> kMaxRecordBytes) (rss ! i)"
      using prems(5) len by (auto simp: list_all_iff)
    have qt: "(\<exists>x. rr = Inr x) \<and> w1 = w" if "quiet w" "list_all (\<lambda>x. length x \<le> kMaxRecordBytes) (concat rss)"
      using Segment_Read_from [OF seg(1) prems(7) _ prems(9) rd [unfolded cur]] True that small by simp
    show ?thesis
    proof (cases rr)
      case (Inl e)
      with prems(1,4) True rd have "r = Inl e" by (simp add: loop)
      with qt Inl show ?thesis by auto
    next
      case (Inr x)
      obtain n where n: "0 < n" "j + n \<le> length (rss ! i)" "rd_record_count x = n"
          "rd_bytes x = length (concat (take n us))" "buf_ok o1"
          "Readable o1 = Readable out @ concat (take n us)"
          "n = 1 \<or> length (concat (take n us)) \<le> max_bytes - rb"
        using Segment_Read_run [OF seg(1) prems(7) _ prems(9) rd [unfolded cur Inr]] True
        by (auto simp: us)
      have nus: "n \<le> length us" using n(2) by (simp add: us)
      have dropn: "drop n us = drop (?k + n) (concat rss)" by (simp add: us_def add.commute)
      have nxt: "sg_next_offset (ss ! i) = sg_base_offset (ss ! i) + int (length (rss ! i))"
        using seg(1) by (simp add: seg_inv_def)
      let ?c = "cursor + int n" and ?rb = "rb + length (concat (take n us))"
      note more = delivers_more [OF all n(1) nus True n(7,6), of rc _ out', unfolded dropn]
      consider (finish) "log_end \<le> ?c" | (next_seg) "\<not> log_end \<le> ?c" "sg_next_offset (ss ! i) \<le> ?c"
        | (same) "\<not> log_end \<le> ?c" "\<not> sg_next_offset (ss ! i) \<le> ?c" by blast
      then show ?thesis
      proof cases
        case finish
        then have "n = length us" using nus prems(3,6) by (simp add: us_def)
        moreover have "r = Inr (rc + n, ?rb)" "out' = o1" "w' = w1"
          using prems(1,4) True rd Inr n(1,3,4) finish by (simp_all add: loop Let_def)
        ultimately show ?thesis
          using delivers_one [OF all n(1) nus True n(5,7,6), of rc] qt by (simp add: us_def)
      next
        case next_seg
        have jn: "j + n = length (rss ! i)" using next_seg(2) n(2) nxt cur by simp
        then have at: "length (concat (take (Suc i) rss)) + 0 = ?k + n"
          using concat_take_Suc [of i rss] prems(5) len by simp
        have "length (concat (take (Suc i) rss)) < length (concat rss)"
          using at next_seg(1) prems(3,6) by simp
        from next_segment_record [OF _ this prems(8)] prems(5) len
        have ns: "next_segment i ss = Some (Suc i)" "Suc i < length ss" "0 < length (rss ! Suc i)"
          by (auto simp: next_segment_def)
        have rest: "log_read_loop ss log_end max_bytes (next_segment i ss) ?c (rc + n) ?rb o1 w1 = (r, out', w')"
          using prems(1,4) True rd Inr n(1,3,4) next_seg by (simp add: loop Let_def)
        note IH = "1.IH"(2) [OF prems(4) True rd [symmetric] Inr HOL.refl HOL.refl HOL.refl HOL.refl,
            unfolded n(3,4), OF _ next_seg rest prems(2,3) ns(1,2) _ ns(3) prems(8) n(5)]
        show ?thesis using IH n(1) at prems(6) more qt unfolding us_def [symmetric] by auto
      next
        case same
        have jn: "j + n < length (rss ! i)" using same(2) n(2) nxt cur by simp
        have rest: "log_read_loop ss log_end max_bytes (Some i) ?c (rc + n) ?rb o1 w1 = (r, out', w')"
          using prems(1,4) True rd Inr n(1,3,4) same by (simp add: loop Let_def)
        note IH = "1.IH"(3) [OF prems(4) True rd [symmetric] Inr HOL.refl HOL.refl HOL.refl HOL.refl,
            unfolded n(3,4), OF _ same rest prems(2,3) HOL.refl prems(5) _ jn prems(8) n(5)]
        show ?thesis using IH n(1) prems(6) more qt unfolding us_def [symmetric] by (auto simp: add.assoc)
      qed
    qed
  qed
qed

section \<open>The whole read\<close>

lemma Log_Read_delivers:
  assumes inv: "log_inv log rss" and k: "k < length (concat rss)" and out: "buf_ok out"
    and run: "Log_Read (pl_log_start_offset log + int k) max_bytes out log w = (r, out', w')"
  shows "(quiet w \<and> list_all (\<lambda>x. length x \<le> kMaxRecordBytes) (concat rss) \<longrightarrow> (\<exists>x. r = Inr x) \<and> w' = w) \<and>
    (\<forall>x. r = Inr x \<longrightarrow>
       delivers (drop k (concat rss)) max_bytes 0 0 out (lr_record_count x, lr_bytes x) out' \<and>
       lr_base_offset x = pl_log_start_offset log + int k \<and>
       lr_log_start_offset x = pl_log_start_offset log \<and> lr_log_end_offset x = pl_log_end_offset log)"
proof -
  have segs: "segs_inv (pl_flushed_offset log) (pl_log_start_offset log) (pl_segments log) rss"
    and le: "pl_log_end_offset log = pl_log_start_offset log + int (length (concat rss))"
    and ne: "[] \<notin> set (butlast rss)" using inv by (simp_all add: log_inv_def)
  from SegmentForOffset_found [OF segs k] obtain i j where
    i: "SegmentForOffset (pl_log_start_offset log + int k) (pl_segments log) = Some i" "i < length (pl_segments log)"
    and kj: "k = length (concat (take i rss)) + j" "j < length (rss ! i)" by blast
  obtain rl ol wl where loop: "log_read_loop (pl_segments log) (pl_log_end_offset log) max_bytes (Some i)
      (pl_log_start_offset log + int k) 0 0 out w = (rl, ol, wl)" using prod_cases3 by blast
  note L = log_read_loop_exact [OF loop segs le HOL.refl i(2) _ kj(2) ne out, folded kj(1), simplified]
  have eqs: "out' = ol" "w' = wl" "r = (case rl of Inl e \<Rightarrow> Inl e | Inr (rc, rb) \<Rightarrow>
      Inr \<lparr>lr_base_offset = pl_log_start_offset log + int k, lr_record_count = rc, lr_bytes = rb,
           lr_log_start_offset = pl_log_start_offset log, lr_log_end_offset = pl_log_end_offset log\<rparr>)"
    using run k le i(1) loop by (auto simp: Log_Read_def Let_def split: sum.splits prod.splits)
  then show ?thesis using L by (auto split: sum.splits)
qed

end
