(* ===== verification/PL_Log_Maint.thy ===== *)
theory PL_Log_Maint
  imports PL_Log_Read
begin

text \<open>
  Maintenance of a partition log against its invariant: truncation, retention, and what a flush
  makes durable.
\<close>

section \<open>Truncation\<close>

lemma segs_inv_mono: "fl' \<le> fl \<Longrightarrow> segs_inv fl base ss rss \<Longrightarrow> segs_inv fl' base ss rss"
proof (induction fl base ss rss rule: segs_inv.induct)
  case (2 fl base s ss rs rss)
  moreover have "rec_pos rs (nat (fl' - base)) \<le> rec_pos rs (nat (fl - base))"
    using 2 by (intro rec_pos_mono) simp
  ultimately show ?case by auto
qed auto

lemma segs_inv_take:
  assumes "segs_inv fl base ss rss"
  shows "segs_inv fl base (take m ss) (take m rss)"
proof -
  have len: "length ss = length rss" using assms by (rule segs_inv_length)
  have "segs_inv fl base (take m ss @ drop m ss) (take m rss @ drop m rss)" using assms by simp
  then show ?thesis using len by (subst (asm) segs_inv_append) simp_all
qed

lemma segs_inv_drop:
  assumes "segs_inv fl base ss rss"
  shows "segs_inv fl (base + int (length (concat (take m rss)))) (drop m ss) (drop m rss)"
proof -
  have len: "length ss = length rss" using assms by (rule segs_inv_length)
  have "segs_inv fl base (take m ss @ drop m ss) (take m rss @ drop m rss)" using assms by simp
  then show ?thesis using len by (subst (asm) segs_inv_append) simp_all
qed

lemma Segment_TruncateFrom_synced:
  assumes inv: "seg_inv s rs" and k: "k \<le> length rs"
    and run: "Segment_TruncateFrom (sg_base_offset s + int k) s w = (Inr (), s', w')"
  shows "min (sg_synced_position s) (rec_pos rs k) \<le> sg_synced_position s'"
proof (cases "k = length rs")
  case True
  then have "sg_next_offset s \<le> sg_base_offset s + int k" using inv by (simp add: seg_inv_def)
  with run have "s' = s" by (simp add: Segment_TruncateFrom_def)
  then show ?thesis by simp
next
  case False
  then have lt: "k < length rs" and nxt: "\<not> sg_next_offset s \<le> sg_base_offset s + int k"
    using k inv by (simp_all add: seg_inv_def)
  show ?thesis
  proof (cases "k = 0")
    case True
    then show ?thesis by simp
  next
    case False
    obtain q w1 where pos: "PositionFor (sg_base_offset s + int k) s w = (q, w1)" by fastforce
    with PositionFor_exact [OF inv lt pos] have "q = Inr p \<Longrightarrow> p = rec_pos rs k" for p by simp
    with run False nxt pos show ?thesis
      by (auto simp: Segment_TruncateFrom_def split: prod.splits sum.splits)
  qed
qed

text \<open>The fields of a log that dropping a segment from its end leaves alone.\<close>

lemma drop_segment_files:
  assumes "drop_segment s log w = (r, log', w')"
  shows "\<exists>files. log' = log\<lparr>pl_dir := (pl_dir log)(sg_base_offset s := files)\<rparr>"
  using assms by (auto simp: drop_segment_def split: prod.splits sum.splits)

lemma drop_segment_frame:
  assumes "drop_segment s log w = (r, log', w')"
  shows "\<exists>d. log' = log\<lparr>pl_dir := d\<rparr>"
  using drop_segment_files [OF assms] by blast

lemma drop_from_spec:
  assumes "drop_from off log w = (Inr (), log', w')" "pl_segments log \<noteq> []"
  shows "\<exists>m d n. 0 < m \<and> m \<le> length (pl_segments log) \<and>
    log' = log\<lparr>pl_segments := take m (pl_segments log), pl_dir := d, pl_deleted_segments := n\<rparr> \<and>
    (m = length (pl_segments log) \<or> off \<le> sg_base_offset (pl_segments log ! m)) \<and>
    (m = 1 \<or> sg_base_offset (pl_segments log ! (m - 1)) < off)"
  using assms
proof (induction off log w rule: drop_from.induct)
  case (1 off log w)
  let ?ss = "pl_segments log"
  show ?case
  proof (cases "length ?ss > 1 \<and> sg_base_offset (last ?ss) \<ge> off")
    case False
    with "1.prems"(1) have "log' = log" by (simp only: drop_from.simps [of off log] if_False prod.inject)
    moreover have "length ?ss = 1 \<or> sg_base_offset (?ss ! (length ?ss - 1)) < off"
      using False "1.prems"(2) by (cases ?ss rule: rev_cases) auto
    ultimately show ?thesis
      using "1.prems"(2) by (intro exI [of _ "length ?ss"] exI [of _ "pl_dir log"] exI [of _ "pl_deleted_segments log"]) simp
  next
    case True
    obtain r1 log1 w1 where ds: "drop_segment (last ?ss) (log\<lparr>pl_segments := butlast ?ss\<rparr>) w = (r1, log1, w1)"
      using prod_cases3 by blast
    from drop_segment_frame [OF ds] obtain d where log1: "log1 = log\<lparr>pl_segments := butlast ?ss, pl_dir := d\<rparr>" by auto
    have r1: "r1 = Inr ()"
      and rest: "drop_from off (log1\<lparr>pl_deleted_segments := pl_deleted_segments log1 + 1\<rparr>) w1 = (Inr (), log', w')"
      using "1.prems"(1) True ds by (auto simp: drop_from.simps [of off log] split: sum.splits)
    have "butlast ?ss \<noteq> []" using True by (cases ?ss rule: rev_cases) auto
    from "1.IH" [OF True ds [symmetric] r1 HOL.refl rest] this log1 obtain m d n where
      m: "0 < m" "m \<le> length (butlast ?ss)"
        "log' = log1\<lparr>pl_segments := take m (butlast ?ss), pl_dir := d, pl_deleted_segments := n\<rparr>"
        "m = length (butlast ?ss) \<or> off \<le> sg_base_offset (butlast ?ss ! m)"
        "m = 1 \<or> sg_base_offset (butlast ?ss ! (m - 1)) < off"
      by auto
    have nthm: "butlast ?ss ! i = ?ss ! i" if "i < length ?ss - 1" for i using that by (simp add: nth_butlast)
    have "off \<le> sg_base_offset (?ss ! m)"
    proof (cases "m = length (butlast ?ss)")
      case True
      then have "?ss ! m = last ?ss" using \<open>butlast ?ss \<noteq> []\<close> by (metis butlast.simps(1) last_conv_nth length_butlast)
      then show ?thesis using \<open>length ?ss > 1 \<and> sg_base_offset (last ?ss) \<ge> off\<close> by simp
    next
      case False
      then show ?thesis using m(2,4) nthm [of m] by auto
    qed
    moreover have "take m (butlast ?ss) = take m ?ss" using m(2) by (simp add: butlast_conv_take)
    moreover have "m = 1 \<or> sg_base_offset (?ss ! (m - 1)) < off" using m(1,2,5) nthm [of "m - 1"] by auto
    ultimately show ?thesis
      using m(1-3) log1 by (intro exI [of _ m] exI [of _ d] exI [of _ n]) auto
  qed
qed

text \<open>A successful truncation inside the log: the segments that start at the offset or above it are gone
(the first segment always stays) and the last one left is cut.\<close>

lemma TruncateTo_run:
  assumes ne: "pl_segments log \<noteq> []" and off: "pl_log_start_offset log \<le> off" "off < pl_log_end_offset log"
    and run: "TruncateTo off log w = (Inr (), log', w')"
  obtains i s' w1 d n where "i < length (pl_segments log)"
    "Suc i = length (pl_segments log) \<or> off \<le> sg_base_offset (pl_segments log ! Suc i)"
    "i = 0 \<or> sg_base_offset (pl_segments log ! i) < off"
    "Segment_TruncateFrom off (pl_segments log ! i) w1 = (Inr (), s', w')"
    "log' = log\<lparr>pl_segments := take i (pl_segments log) @ [s'], pl_dir := d, pl_active := Some i,
        pl_log_end_offset := off, pl_flushed_offset := min (pl_flushed_offset log) off, pl_unflushed_bytes := 0,
        pl_unflushed_records := 0, pl_deleted_segments := n\<rparr>"
proof -
  let ?ss = "pl_segments log"
  obtain rd log1 w1 where df0: "drop_from off log w = (rd, log1, w1)" using prod_cases3 by blast
  have df: "drop_from off log w = (Inr (), log1, w1)"
  proof (cases rd)
    case (Inl e)
    then have "TruncateTo off log w = (Inl e, log1, w1)" using off df0 by (simp add: TruncateTo_def)
    with run show ?thesis by simp
  qed (use df0 in simp)
  from drop_from_spec [OF df ne] obtain m d n where m: "0 < m" "m \<le> length ?ss"
    and log1: "log1 = log\<lparr>pl_segments := take m ?ss, pl_dir := d, pl_deleted_segments := n\<rparr>"
    and hi: "m = length ?ss \<or> off \<le> sg_base_offset (?ss ! m)"
    and lo: "m = 1 \<or> sg_base_offset (?ss ! (m - 1)) < off"
    by (elim exE conjE) (rule that)
  define i where "i = m - 1"
  have i: "i < length ?ss" "m = Suc i" using m by (simp_all add: i_def)
  obtain rt s' w2 where tr: "Segment_TruncateFrom off (?ss ! i) w1 = (rt, s', w2)" using prod_cases3 by blast
  have seg: "length (pl_segments log1) - 1 = i" "pl_segments log1 ! i = ?ss ! i" "pl_segments log1 = take m ?ss"
    "pl_flushed_offset log1 = pl_flushed_offset log" using m i by (simp_all add: log1)
  show thesis
  proof (cases rt)
    case (Inl e)
    then obtain l where "TruncateTo off log w = (Inl e, l, w2)" using off df tr seg by (simp add: TruncateTo_def Let_def)
    with run show thesis by simp
  next
    case (Inr u)
    then have "TruncateTo off log w = (Inr (), log1\<lparr>pl_active := Some i, pl_segments := (take m ?ss)[i := s'],
        pl_log_end_offset := off, pl_flushed_offset := min (pl_flushed_offset log) off, pl_unflushed_bytes := 0,
        pl_unflushed_records := 0\<rparr>, w2)" using off df tr seg by (simp add: TruncateTo_def Let_def)
    moreover have "(take m ?ss)[i := s'] = take i ?ss @ [s']"
      using i by (simp add: take_Suc_conv_app_nth list_update_append)
    ultimately have "log' = log\<lparr>pl_segments := take i ?ss @ [s'], pl_dir := d, pl_active := Some i,
        pl_log_end_offset := off, pl_flushed_offset := min (pl_flushed_offset log) off, pl_unflushed_bytes := 0,
        pl_unflushed_records := 0, pl_deleted_segments := n\<rparr>" "w2 = w'"
      using run by (simp_all add: log1)
    then show thesis using tr Inr hi lo i by (intro that [of i w1 s']) simp_all
  qed
qed

lemma TruncateTo_inv:
  assumes inv: "log_inv log rss" and off: "pl_log_start_offset log \<le> off" "off < pl_log_end_offset log"
    and run: "TruncateTo off log w = (Inr (), log', w')"
  shows "\<exists>rss'. log_inv log' rss' \<and> concat rss' = take (nat (off - pl_log_start_offset log)) (concat rss) \<and>
    pl_log_start_offset log' = pl_log_start_offset log \<and> pl_log_end_offset log' = off"
proof -
  let ?ss = "pl_segments log" and ?st = "pl_log_start_offset log" and ?fl = "pl_flushed_offset log"
  have segs: "segs_inv ?fl ?st ?ss rss" and ne: "?ss \<noteq> []" and st: "0 \<le> ?st"
    and le: "pl_log_end_offset log = ?st + int (length (concat rss))" and bl: "[] \<notin> set (butlast rss)"
    and op: "\<not> pl_closed log" using inv by (simp_all add: log_inv_def)
  note len = segs_inv_length [OF segs]
  obtain i s' w1 d n where i: "i < length ?ss"
    and hi: "Suc i = length ?ss \<or> off \<le> sg_base_offset (?ss ! Suc i)"
    and lo: "i = 0 \<or> sg_base_offset (?ss ! i) < off"
    and tr: "Segment_TruncateFrom off (?ss ! i) w1 = (Inr (), s', w')"
    and log': "log' = log\<lparr>pl_segments := take i ?ss @ [s'], pl_dir := d, pl_active := Some i,
        pl_log_end_offset := off, pl_flushed_offset := min ?fl off, pl_unflushed_bytes := 0,
        pl_unflushed_records := 0, pl_deleted_segments := n\<rparr>"
    using TruncateTo_run [OF ne off run] .
  note si = segs_inv_nth [OF segs i]
  let ?s = "?ss ! i" and ?rs = "rss ! i"
  have upto: "off \<le> ?st + int (length (concat (take (Suc i) rss)))"
    using hi off(2) le segs_inv_nth(2) [OF segs, of "Suc i"] i len by (cases "Suc i = length ?ss") auto
  have base: "sg_base_offset ?s \<le> off" using lo off(1) si(2) by (cases "i = 0") auto
  define k where "k = nat (off - sg_base_offset ?s)"
  have k: "off = sg_base_offset ?s + int k" using base by (simp add: k_def)
  have kl: "k \<le> length ?rs" using upto k si(2) i concat_take_Suc [of i rss] len by simp
  note s' = Segment_TruncateFrom_inv [OF si(1) kl tr [unfolded k]]
    and sy = Segment_TruncateFrom_synced [OF si(1) kl tr [unfolded k]]
  have "log_inv log' (take i rss @ [take k ?rs])"
  proof (rule log_inv_join [where ss = "take i ?ss" and s = s'])
    show "segs_inv (pl_flushed_offset log') (pl_log_start_offset log') (take i ?ss) (take i rss)"
      using segs_inv_mono [OF _ segs_inv_take [OF segs], of "min ?fl off"] by (simp add: log')
    show "sg_base_offset s' = pl_log_start_offset log' + int (length (concat (take i rss)))"
      using s' si(2) by (simp add: log')
    show "pl_log_end_offset log' = sg_next_offset s'" using s' kl k by (simp add: log' seg_inv_def)
    show "[] \<notin> set (take i rss)"
    proof -
      have "take i rss = take i (butlast rss)" using i len by (simp add: butlast_conv_take)
      with bl show ?thesis by (metis in_set_takeD)
    qed
    have "rec_pos (take k ?rs) (nat (min ?fl off - sg_base_offset ?s)) = rec_pos ?rs (nat (min ?fl off - sg_base_offset ?s))"
      using k by (intro rec_pos_take) simp
    also have "\<dots> \<le> min (sg_synced_position ?s) (rec_pos ?rs k)"
    proof (rule min.boundedI)
      have "nat (min ?fl off - sg_base_offset ?s) \<le> nat (?fl - sg_base_offset ?s)" by (intro nat_mono) simp
      with si(3) show "rec_pos ?rs (nat (min ?fl off - sg_base_offset ?s)) \<le> sg_synced_position ?s"
        using rec_pos_mono order_trans by blast
      have "nat (min ?fl off - sg_base_offset ?s) \<le> k" using k by linarith
      then show "rec_pos ?rs (nat (min ?fl off - sg_base_offset ?s)) \<le> rec_pos ?rs k" by (rule rec_pos_mono)
    qed
    also have "\<dots> \<le> sg_synced_position s'" by (rule sy)
    finally show "rec_pos (take k ?rs) (nat (pl_flushed_offset log' - sg_base_offset s')) \<le> sg_synced_position s'"
      using s' by (simp add: log')
  qed (use s' st op i in \<open>simp_all add: log'\<close>)
  moreover have "concat (take i rss @ [take k ?rs]) = take (nat (off - ?st)) (concat rss)"
  proof -
    have "nat (off - ?st) = length (concat (take i rss)) + k" using k si(2) by simp
    moreover have "concat rss = concat (take i rss) @ ?rs @ concat (drop (Suc i) rss)"
      using i len by (metis concat.simps(2) concat_append id_take_nth_drop)
    ultimately show ?thesis using kl by simp
  qed
  ultimately show ?thesis by (auto simp: log')
qed

text \<open>
  When a segment to be dropped cannot be closed, truncation gives up with the active pointer on
  the segment that was just taken from the list and destroyed.
\<close>

lemma TruncateTo_failure_dangles:
  assumes "log_inv log rss" "1 < length (pl_segments log)" "pl_log_start_offset log \<le> off" "off < pl_log_end_offset log"
    and "off \<le> sg_base_offset (last (pl_segments log))" "Segment_Close (last (pl_segments log)) w = (Inl e, s, w1)"
  shows "\<exists>log'. TruncateTo off log w = (Inl e, log', w1) \<and> pl_active log' = Some (length (pl_segments log'))"
proof -
  let ?ss = "pl_segments log"
  have act: "pl_active log = Some (length ?ss - 1)" using assms(1) by (simp add: log_inv_def)
  define log' where "log' = log\<lparr>pl_segments := butlast ?ss,
    pl_dir := (pl_dir log)(sg_base_offset (last ?ss) := files_of s)\<rparr>"
  have "drop_segment (last ?ss) (log\<lparr>pl_segments := butlast ?ss\<rparr>) w = (Inl e, log', w1)"
    using assms(6) by (simp add: drop_segment_def log'_def)
  then have "drop_from off log w = (Inl e, log', w1)" using assms(2,5) by (simp add: drop_from.simps [of off log])
  then have "TruncateTo off log w = (Inl e, log', w1)" using assms(3,4) by (simp add: TruncateTo_def)
  then show ?thesis using act by (intro exI [of _ log']) (simp add: log'_def)
qed

text \<open>A segment whose files were not all removed may report success and leave its index behind.\<close>

lemma Segment_Delete_leaves_files:
  assumes "os_replies w = Errno 13 # Errno 13 # rs" "rs = [] \<or> hd rs = Full"
  shows "\<exists>files w'. Segment_Delete s w = (Inr (), files, w') \<and> sf_log files = sf_log (files_of s) \<and>
    sf_index files = sf_index (files_of s)"
  using assms by (cases rs) (auto simp: Segment_Delete_def next_reply_def reply_error_def Let_def)

section \<open>Retention\<close>

text \<open>The oldest segment leaves the log: the log starts where the second segment does.\<close>

lemma forget_first_inv:
  assumes inv: "log_inv log rss" and two: "1 < length (pl_segments log)"
    and log1: "log1 = (forget_first log)\<lparr>pl_dir := (pl_dir log)(sg_base_offset (hd (pl_segments log)) := files)\<rparr>"
  shows "log_inv (log1\<lparr>pl_log_start_offset := sg_base_offset (hd (pl_segments log1)), pl_deleted_segments := n\<rparr>) (tl rss)"
    and "sg_base_offset (hd (pl_segments log1)) = pl_log_start_offset log + int (length (hd rss))"
    and "rss \<noteq> []"
    and "clean_dir log \<Longrightarrow>
      clean_dir (log1\<lparr>pl_log_start_offset := sg_base_offset (hd (pl_segments log1)), pl_deleted_segments := n\<rparr>)"
proof -
  have segs: "segs_inv (pl_flushed_offset log) (pl_log_start_offset log) (pl_segments log) rss"
    using inv by (simp add: log_inv_def)
  obtain s1 s2 ss where ss: "pl_segments log = s1 # s2 # ss"
    using two by (cases "pl_segments log"; cases "tl (pl_segments log)") auto
  with segs_inv_length [OF segs] obtain rs1 rs2 rss' where rss: "rss = rs1 # rs2 # rss'"
    by (cases rss; cases "tl rss") auto
  show first: "rss \<noteq> []" "sg_base_offset (hd (pl_segments log1)) = pl_log_start_offset log + int (length (hd rss))"
    using segs ss rss by (simp_all add: log1 forget_first_def)
  have "hd rss \<noteq> []" "sg_base_offset (hd (pl_segments log)) = pl_log_start_offset log"
    using inv ss rss by (auto simp: log_inv_def)
  then have "pl_log_start_offset log < sg_base_offset (hd (pl_segments log1))" using first(2) by simp
  then show "clean_dir log \<Longrightarrow>
      clean_dir (log1\<lparr>pl_log_start_offset := sg_base_offset (hd (pl_segments log1)), pl_deleted_segments := n\<rparr>)"
    using \<open>sg_base_offset (hd (pl_segments log)) = pl_log_start_offset log\<close>
    by (simp add: clean_dir_def log1 forget_first_def)
  from first show "log_inv (log1\<lparr>pl_log_start_offset := sg_base_offset (hd (pl_segments log1)), pl_deleted_segments := n\<rparr>) (tl rss)"
    using inv ss rss by (auto simp: log_inv_def log1 forget_first_def)
qed

lemma retention_loop_inv:
  assumes "log_inv log rss" "retention_loop now deleted log w = (Inr n, log', w')"
  shows "\<exists>m < length rss. n = deleted + m \<and> log_inv log' (drop m rss) \<and>
    pl_log_start_offset log' = pl_log_start_offset log + int (length (concat (take m rss))) \<and>
    pl_log_end_offset log' = pl_log_end_offset log \<and> pl_options log' = pl_options log \<and>
    (clean_dir log \<longrightarrow> clean_dir log') \<and> \<not> (1 < length (pl_segments log') \<and> expired now log')"
  using assms
proof (induction now deleted log w arbitrary: rss rule: retention_loop.induct)
  case (1 now deleted log w)
  let ?ss = "pl_segments log"
  have pos: "0 < length rss" "length ?ss = length rss"
    using "1.prems"(1) by (auto simp: log_inv_def dest: segs_inv_length)
  show ?case
  proof (cases "1 < length ?ss \<and> expired now log")
    case False
    with "1.prems"(2) have "n = deleted" "log' = log"
      by (simp_all only: retention_loop.simps [of now deleted log] if_False prod.inject sum.inject)
    with "1.prems"(1) pos False show ?thesis by (intro exI [of _ 0]) simp
  next
    case True
    obtain rd log1 w1 where ds: "drop_segment (hd ?ss) (forget_first log) w = (rd, log1, w1)" using prod_cases3 by blast
    from drop_segment_files [OF ds] obtain files where
      log1: "log1 = (forget_first log)\<lparr>pl_dir := (pl_dir log)(sg_base_offset (hd ?ss) := files)\<rparr>"
      by (auto simp: forget_first_def)
    let ?log2 = "log1\<lparr>pl_log_start_offset := sg_base_offset (hd (pl_segments log1)),
      pl_deleted_segments := pl_deleted_segments log1 + 1\<rparr>"
    have rd: "rd = Inr ()" and rest: "retention_loop now (deleted + 1) ?log2 w1 = (Inr n, log', w')"
      using "1.prems"(2) True ds by (auto simp: retention_loop.simps [of now deleted log] split: sum.splits)
    note inv2 = forget_first_inv [OF "1.prems"(1) conjunct1 [OF True] log1]
    from "1.IH" [OF True ds [symmetric] rd HOL.refl inv2(1) rest] obtain m where
      m: "m < length (tl rss)" "n = deleted + 1 + m" "log_inv log' (drop m (tl rss))"
        "pl_log_start_offset log' = sg_base_offset (hd (pl_segments log1)) + int (length (concat (take m (tl rss))))"
        "pl_log_end_offset log' = pl_log_end_offset log" "pl_options log' = pl_options log"
        "clean_dir log \<longrightarrow> clean_dir log'" "\<not> (1 < length (pl_segments log') \<and> expired now log')"
      using inv2(4) by (auto simp: log1 forget_first_def simp del: length_concat)
    from inv2(3) obtain r rs where "rss = r # rs" by (cases rss) auto
    with m inv2(2) show ?thesis by (intro exI [of _ "Suc m"]) (simp del: length_concat)
  qed
qed

lemma EnforceRetention_inv:
  assumes "log_inv log rss" "EnforceRetention log w = (Inr m, log', w')"
  shows "m < length rss \<and> log_inv log' (drop m rss) \<and>
    pl_log_start_offset log' = pl_log_start_offset log + int (length (concat (take m rss))) \<and>
    pl_log_end_offset log' = pl_log_end_offset log \<and> pl_options log' = pl_options log \<and>
    (clean_dir log \<longrightarrow> clean_dir log')"
proof (cases "lo_retention_bytes (pl_options log) \<le> 0 \<and> lo_retention_ms (pl_options log) \<le> 0")
  case True
  then show ?thesis using assms segs_inv_length by (fastforce simp: EnforceRetention_def log_inv_def)
next
  case False
  then obtain now w1 where "retention_loop now 0 log w1 = (Inr m, log', w')"
    using assms(2) by (auto simp: EnforceRetention_def split: prod.splits)
  from retention_loop_inv [OF assms(1) this] show ?thesis by auto
qed

end
