(* ===== verification/PL_Log_Live.thy ===== *)
theory PL_Log_Live
  imports PL_Log_Maint PL_Log_Read
begin

text \<open>
  What a partition log does when the kernel reports no fault and the disk has room: every
  operation succeeds.  A new directory opens as an empty log.
\<close>

section \<open>A kernel without faults\<close>

definition roomy :: "partition_log \<Rightarrow> os \<Rightarrow> bool" where
  "roomy log w \<longleftrightarrow> quiet w \<and> \<not> pl_disk_full log \<and>
     (\<forall>n. lo_min_free_disk_bytes (pl_options log) \<le> int (wrap64 (fst (os_free w n) * snd (os_free w n))))"

lemma quiet_tick [simp]: "quiet (w\<lparr>os_tick := n\<rparr>) = quiet w"
  by (simp add: quiet_def)

lemma Preallocate_quiet:
  "quiet w \<Longrightarrow> fh_valid h \<Longrightarrow> \<exists>h'. Preallocate want h w = (Inr (), h', w)"
  by (simp add: Preallocate_def sys_call_quiet reply_error_def)

lemma File_Size_quiet: "quiet w \<Longrightarrow> fh_valid h \<Longrightarrow> File_Size h w = (Inr (length (fh_content h)), w)"
  by (simp add: File_Size_def sys_call_quiet reply_error_def)

lemma OffsetIndex_Open_quiet:
  "quiet w \<Longrightarrow> existing \<in> {None, Some []} \<Longrightarrow> \<exists>ix. OffsetIndex_Open existing base ix0 w = (Inr (), ix, w)"
  by (auto simp: OffsetIndex_Open_def OffsetIndex_load_def File_Open_quiet File_Size_quiet Let_def)

lemma TimeIndex_Open_quiet:
  "quiet w \<Longrightarrow> existing \<in> {None, Some []} \<Longrightarrow> \<exists>ix. TimeIndex_Open existing base ix0 w = (Inr (), ix, w)"
  by (auto simp: TimeIndex_Open_def TimeIndex_load_def File_Open_quiet File_Size_quiet Let_def)

lemma Segment_preallocate_quiet:
  "quiet w \<Longrightarrow> fh_valid (sg_file s) \<Longrightarrow> \<exists>s'. Segment_preallocate existed s w = (s', w)"
  using Preallocate_quiet [of w "sg_file s" "to_u64 (so_max_bytes (sg_options s))"]
  by (auto simp: Segment_preallocate_def)

lemma Segment_Open_quiet:
  assumes "quiet w" "blank files"
  shows "\<exists>s. Segment_Open files base options w = (Inr s, w\<lparr>os_tick := Suc (os_tick w)\<rparr>)"
proof -
  obtain f where f: "File_Open (sf_log files) w = (Inr f, w)" "fh_valid f"
    using assms(1) by (simp add: File_Open_quiet Let_def)
  obtain ix where ix: "OffsetIndex_Open (sf_index files) base (sg_index (NewSegment base options)) w = (Inr (), ix, w)"
    using OffsetIndex_Open_quiet [OF assms(1), of "sf_index files"] assms(2) by (auto simp: blank_def)
  obtain tx where tx: "TimeIndex_Open (sf_tindex files) base (sg_time_index (NewSegment base options)) w = (Inr (), tx, w)"
    using TimeIndex_Open_quiet [OF assms(1), of "sf_tindex files"] assms(2) by (auto simp: blank_def)
  let ?s = "(NewSegment base options)\<lparr>sg_file := f, sg_index := ix, sg_time_index := tx,
    sg_preallocated_to := length (fh_content f)\<rparr>"
  obtain s' where "Segment_preallocate (sf_log files \<noteq> None) ?s w = (s', w)"
    using Segment_preallocate_quiet [OF assms(1), of ?s "sf_log files \<noteq> None"] f(2) by auto
  with f ix tx assms(1) show ?thesis
    by (simp add: Segment_Open_def Let_def File_Size_quiet WallClockMillis_def)
qed

lemma File_Sync_quiet:
  "quiet w \<Longrightarrow> fh_valid h \<Longrightarrow> File_Sync mode h w = (Inr (), h\<lparr>fh_durable := fh_content h\<rparr>, w)"
  by (simp add: File_Sync_def retry_sys_quiet)

lemma Segment_Sync_quiet:
  assumes "quiet w" "fh_valid (sg_file s)"
  shows "\<exists>s'. Segment_Sync s w = (Inr (), s', w) \<and> fh_valid (sg_file s')"
proof -
  obtain ix where ix: "OffsetIndex_Sync (sg_index s) w = (Inr (), ix, w)"
    using assms(1) that by (cases "fh_valid (oi_file (sg_index s))") (auto simp: OffsetIndex_Sync_def File_SyncData_def File_Sync_quiet)
  obtain tx where tx: "TimeIndex_Sync (sg_time_index s) w = (Inr (), tx, w)"
    using assms(1) that by (cases "fh_valid (ti_file (sg_time_index s))") (auto simp: TimeIndex_Sync_def File_SyncData_def File_Sync_quiet)
  show ?thesis
    by (cases "sg_end_position s = sg_synced_position s")
      (simp_all add: Segment_Sync_def Let_def File_Sync_quiet [OF assms] ix tx assms(2))
qed

lemma sync_all_quiet:
  "quiet w \<Longrightarrow> list_all (\<lambda>s. fh_valid (sg_file s)) ss \<Longrightarrow> \<exists>ss'. sync_all ss w = (Inr (), ss', w)"
proof (induction ss)
  case (Cons s ss)
  then obtain ss' where "sync_all ss w = (Inr (), ss', w)" by auto
  moreover obtain s' where "Segment_Sync s w = (Inr (), s', w)"
    using Segment_Sync_quiet [OF Cons.prems(1), of s] Cons.prems(2) by auto
  ultimately show ?case by simp
qed simp

lemma WriteAllAt_still:
  assumes "quiet w" "WriteAllAt d pos h w = (r, h', w')"
  shows "w' = w"
proof (cases "fh_valid h")
  case True
  then show ?thesis using assms WriteAllAt_loop_quiet [of w h d pos] by (auto simp: WriteAllAt_def)
next
  case False
  then show ?thesis
    using assms by (auto simp: WriteAllAt_def WriteAllAt_loop.simps [of d] sys_call_def reply_error_def EINTR_def
        EBADF_def split: if_splits)
qed

lemma index_writes_quiet:
  assumes "quiet w"
  shows "\<exists>r ix'. OffsetIndex_Append off pos ix w = (r, ix', w)" "\<exists>r tx'. TimeIndex_Append m off tx w = (r, tx', w)"
proof -
  have "\<exists>r f. WriteAllAt d p h w = (r, f, w)" for d p h
    using WriteAllAt_still [OF assms] by (metis prod_cases3)
  then show "\<exists>r ix'. OffsetIndex_Append off pos ix w = (r, ix', w)" "\<exists>r tx'. TimeIndex_Append m off tx w = (r, tx', w)"
    unfolding OffsetIndex_Append_def TimeIndex_Append_def Let_def by (auto split: prod.splits sum.splits) (metis prod.inject)+
qed

lemma index_append_quiet:
  assumes "quiet w"
  shows "\<exists>s'. index_append start base m s w = (s', w) \<and> sg_file s' = sg_file s"
proof -
  obtain r ix where ix: "OffsetIndex_Append base start (sg_index s) w = (r, ix, w)" using index_writes_quiet(1) [OF assms] by blast
  obtain r2 tx where tx: "TimeIndex_Append m base (sg_time_index s) w = (r2, tx, w)"
    using index_writes_quiet(2) [OF assms] by blast
  show ?thesis by (cases r) (simp_all add: index_append_def ix tx)
qed

lemma AppendEncoded_success:
  assumes "seg_inv s rs" "quiet w"
  shows "\<exists>s'. AppendEncoded d base lst n m s w = (Inr (), s', w) \<and> fh_valid (sg_file s')"
proof -
  have v: "fh_valid (sg_file s)" "sg_end_position s \<le> length (fh_content (sg_file s))"
    using assms(1) seg_inv_content_length by (auto simp: seg_inv_def)
  let ?s1 = "if sg_end_position s + length d > sg_preallocated_to s
    then s\<lparr>sg_preallocated_to := sg_end_position s + length d\<rparr> else s"
  let ?f = "(sg_file s)\<lparr>fh_content := pwrite_bytes (sg_end_position s) d (fh_content (sg_file s))\<rparr>"
  obtain s' where "index_append (sg_end_position s) base m (?s1\<lparr>sg_file := ?f\<rparr>) w = (s', w)" "sg_file s' = ?f"
    using index_append_quiet [OF assms(2), of "sg_end_position s" base m "?s1\<lparr>sg_file := ?f\<rparr>"] by auto
  then show ?thesis
    using v assms(2) by (cases "d = []") (auto simp: AppendEncoded_def Let_def WriteAllAt_quiet FinishAppend_def)
qed

section \<open>Operations of a log\<close>

lemma roomy_frame:
  "roomy log w \<Longrightarrow> pl_options log' = pl_options log \<Longrightarrow> pl_disk_full log' = pl_disk_full log \<Longrightarrow>
   quiet w' \<Longrightarrow> os_free w' = os_free w \<Longrightarrow> roomy log' w'"
  by (simp add: roomy_def)

lemma CheckDiskSpace_quiet:
  assumes "roomy log w"
  shows "\<exists>log1 w1. CheckDiskSpace log w = (Inr (), log1, w1) \<and> roomy log1 w1"
proof -
  obtain a b where ab: "os_free w (Suc (os_tick w)) = (a, b)" by fastforce
  have "lo_min_free_disk_bytes (pl_options log) \<le> int (wrap64 (fst (a, b) * snd (a, b)))"
    using assms unfolding roomy_def ab [symmetric] by blast
  with assms ab show ?thesis
    by (simp add: CheckDiskSpace_def MonotonicNanos_def AvailableBytes_def next_reply_def quiet_def roomy_def
        reply_error_def Let_def not_less)
qed

lemma RollSegment_quiet:
  assumes "roomy log w" "log_inv log rss" "clean_dir log" "last rss \<noteq> []"
  shows "\<exists>log1 w1. RollSegment log w = (Inr (), log1, w1) \<and> roomy log1 w1"
proof -
  note act = active_is_last [OF assms(2)]
  obtain i where i: "pl_active log = Some i" using assms(2) by (auto simp: log_inv_def)
  have q: "quiet w" using assms(1) by (simp add: roomy_def)
  obtain s w1 where s: "Segment_Open (dir_files log (pl_log_end_offset log)) (pl_log_end_offset log)
      (segment_options_of (pl_options log)) w = (Inr s, w1)" "quiet w1" "os_free w1 = os_free w"
    using Segment_Open_quiet [OF q next_files_blank [OF assms(2-4)]] q by fastforce
  obtain s' where "Segment_Sync (pl_segments log ! i) w1 = (Inr (), s', w1)"
    using Segment_Sync_quiet [OF s(2)] act i by (auto simp: seg_inv_def)
  then show ?thesis
    using s act i assms(1)
    by (auto simp: RollSegment_def Let_def SyncDirectory_def retry_sys_quiet ClosedFile_def roomy_def)
qed

lemma MaybeRoll_quiet:
  assumes "roomy log w" "log_inv log rss" "clean_dir log" "incoming \<le> 4294967295"
  shows "\<exists>log1 w1. MaybeRoll incoming log w = (Inr (), log1, w1) \<and> roomy log1 w1"
proof -
  obtain i where i: "pl_active log = Some i" using assms(2) by (auto simp: log_inv_def)
  note act = active_is_last [OF assms(2)]
  have empty: "last rss = [] \<Longrightarrow> sg_end_position (pl_segments log ! i) = 0"
    using act i by (simp add: seg_inv_def)
  obtain t where w1: "roomy log w" "roomy log (w\<lparr>os_tick := t\<rparr>)" "snd (WallClockMillis w) = w\<lparr>os_tick := t\<rparr>"
    using assms(1) by (simp add: roomy_def WallClockMillis_def)
  show ?thesis
  proof (cases "MaybeRoll incoming log w \<in> {(Inr (), log, w), (Inr (), log, w\<lparr>os_tick := t\<rparr>)}")
    case False
    then have "last rss \<noteq> []"
      and "MaybeRoll incoming log w \<in> {RollSegment log w, RollSegment log (w\<lparr>os_tick := t\<rparr>)}"
      using i empty assms(4) w1(3) by (auto simp: MaybeRoll_def Let_def split: if_splits prod.splits)
    then show ?thesis using RollSegment_quiet [OF _ assms(2,3)] w1(1,2) by auto
  qed (use w1 in auto)
qed

lemma Flush_quiet:
  assumes "roomy log w" "list_all (\<lambda>s. fh_valid (sg_file s)) (pl_segments log)"
  shows "\<exists>log1 w1. Flush log w = (Inr (), log1, w1) \<and> roomy log1 w1"
proof -
  have q: "quiet (w\<lparr>os_tick := Suc (os_tick w)\<rparr>)" using assms(1) by (simp add: roomy_def)
  obtain ss where "sync_all (pl_segments log) (w\<lparr>os_tick := Suc (os_tick w)\<rparr>) =
      (Inr (), ss, w\<lparr>os_tick := Suc (os_tick w)\<rparr>)"
    using sync_all_quiet [OF q assms(2)] by blast
  then show ?thesis
    using assms(1) by (auto simp: Flush_def Let_def MonotonicNanos_def roomy_def)
qed

lemma FinalizeAppend_quiet:
  assumes "roomy log w" "list_all (\<lambda>s. fh_valid (sg_file s)) (pl_segments log)"
  shows "\<exists>log1 w1. FinalizeAppend x log w = (Inr (), log1, w1) \<and> roomy log1 w1"
proof -
  let ?log1 = "log\<lparr>pl_log_end_offset := ar_last_offset x + 1,
    pl_unflushed_bytes := pl_unflushed_bytes log + int (ar_bytes x),
    pl_unflushed_records := pl_unflushed_records log + int (ar_record_count x)\<rparr>"
  have "roomy ?log1 w" using assms(1) by (simp add: roomy_def)
  moreover from Flush_quiet [OF this] assms(2) obtain l v where "Flush ?log1 w = (Inr (), l, v)" "roomy l v" by auto
  ultimately show ?thesis by (simp add: FinalizeAppend_def Let_def)
qed

text \<open>The leader's pass accepts every batch of records as the encoder writes them.\<close>

lemma stamp_records_plain:
  assumes "drop pos records = concat (map plain_wire ps)" "list_all plain_ok ps" "length records < 2 ^ 64"
    "pos \<le> length records"
  shows "\<exists>off' m' records'. stamp_records t records pos off m seen = (Inr (off', m', seen + length ps), records')"
  using assms
proof (induction ps arbitrary: records pos off m seen)
  case Nil
  then show ?case by (simp add: stamp_records.simps [of t records])
next
  case (Cons p ps)
  from Cons.prems(1) have d: "drop pos records = plain_wire p @ concat (map plain_wire ps)" by simp
  obtain v where p: "ParseRecord records pos False = Inr (v, pos + length (plain_wire p))"
    using ParseRecord_plain [OF d _ Cons.prems(3)] Cons.prems(2) by auto
  define nxt where "nxt = pos + length (plain_wire p)"
  note p = p [folded nxt_def] note fr = ParseRecord_framed [OF p]
  define ts where "ts = (if rv_timestamp v > 0 then rv_timestamp v else t)"
  define recs where "recs = overwrite pos (RewriteRecordHeader (slice pos (nxt - pos) records) off ts) records"
  have len: "length recs = length records" unfolding recs_def by (rule length_stamp_one [OF p])
  have "length (RewriteRecordHeader (slice pos (nxt - pos) records) off ts) = nxt - pos"
    using fr(1-3) by (subst length_RewriteRecordHeader) (auto simp: framed_def)
  then have "drop nxt recs = drop nxt records" using fr(1,2) by (simp add: recs_def overwrite_def)
  also have "\<dots> = concat (map plain_wire ps)"
    using arg_cong [OF d, of "drop (length (plain_wire p))"] by (simp add: nxt_def add.commute)
  finally obtain off' m' records' where
    "stamp_records t recs nxt (off + 1) (max m ts) (seen + 1) = (Inr (off', m', seen + 1 + length ps), records')"
    using Cons.IH [of nxt recs "off + 1" "max m ts" "seen + 1"] Cons.prems len fr(2) by auto
  then show ?case
    using p fr(1,2) by (simp add: stamp_records.simps [of t records] Let_def ts_def recs_def)
qed

lemma segs_inv_valid: "segs_inv fl base ss rss \<Longrightarrow> list_all (\<lambda>s. fh_valid (sg_file s)) ss"
  by (induction fl base ss rss rule: segs_inv.induct) (auto simp: seg_inv_def)

lemma AppendAssigningOffsets_success:
  assumes inv: "log_inv log rss" and clean: "clean_dir log" and room: "roomy log w"
    and ps: "ps \<noteq> []" "list_all plain_ok ps" "length (concat (map plain_wire ps)) \<le> 4294967295"
  shows "\<exists>x recs log' w'. AppendAssigningOffsets (concat (map plain_wire ps)) (length ps) log w = (Inr x, recs, log', w') \<and>
    roomy log' w'"
proof -
  let ?recs = "concat (map plain_wire ps)"
  have ne: "?recs \<noteq> []" using ps(1,2) plain_wire_framed [of "hd ps"] by (cases ps) (auto simp: framed_def)
  have op: "\<not> pl_closed log" using inv by (simp add: log_inv_def)
  obtain log1 w1 where cd: "CheckDiskSpace log w = (Inr (), log1, w1)" and room1: "roomy log1 w1"
    using CheckDiskSpace_quiet [OF room] by blast
  note same1 = CheckDiskSpace_same [OF inv cd]
  then have inv1: "log_inv log1 rss" and clean1: "clean_dir log1" using clean by (simp_all add: same_records_def)
  obtain log2 w2 where mr: "MaybeRoll (length ?recs) log1 w1 = (Inr (), log2, w2)" and room2: "roomy log2 w2"
    using MaybeRoll_quiet [OF room1 inv1 clean1 ps(3)] by blast
  obtain rss2 where inv2: "log_inv log2 rss2"
    using MaybeRoll_inv [OF inv1 clean1 ps(3) mr] by blast
  note act = active_is_last [OF inv2]
  let ?w3 = "w2\<lparr>os_tick := Suc (os_tick w2)\<rparr>" and ?t = "os_wall w2 (os_tick w2)"
  obtain off m recs where st: "stamp_records ?t ?recs 0 (pl_log_end_offset log2) (- 1) 0 = (Inr (off, m, length ps), recs)"
    using stamp_records_plain [of 0 ?recs ps ?t "pl_log_end_offset log2" "- 1" 0] ps(2,3) by auto
  have q3: "quiet ?w3" using room2 by (simp add: roomy_def)
  obtain s where ae: "AppendEncoded recs (pl_log_end_offset log2) (off - 1) (length ps) m (last (pl_segments log2)) ?w3
      = (Inr (), s, ?w3)" "fh_valid (sg_file s)" using AppendEncoded_success [OF act(3) q3] by blast
  let ?log3 = "log2\<lparr>pl_segments := (pl_segments log2)[the (pl_active log2) := s]\<rparr>"
  have "segs_inv (pl_flushed_offset log2) (pl_log_start_offset log2) (pl_segments log2) rss2"
    using inv2 by (simp add: log_inv_def)
  from segs_inv_valid [OF this] have valid: "list_all (\<lambda>s. fh_valid (sg_file s)) (pl_segments ?log3)"
    using ae(2) by (auto simp: list_all_iff dest!: set_update_subset_insert [THEN subsetD])
  have room3: "roomy ?log3 ?w3" using room2 by (simp add: roomy_def)
  let ?res = "append_result_of (pl_log_end_offset log2) off (length ps) (length ?recs) ?t"
  obtain log4 w4 where fin: "FinalizeAppend ?res ?log3 ?w3 = (Inr (), log4, w4)" "roomy log4 w4"
    using FinalizeAppend_quiet [OF room3 valid] by blast
  have "AppendAssigningOffsets ?recs (length ps) log w = (Inr ?res, recs, log4, w4)"
    using op ne ps(1) cd mr act st ae(1) fin(1) by (simp add: AppendAssigningOffsets_def Let_def WallClockMillis_def)
  with fin(2) show ?thesis by blast
qed

text \<open>Segments that are cut off leave nothing behind.\<close>

lemma retry_sys_still: "quiet w \<Longrightarrow> retry_sys h w = (r, w') \<Longrightarrow> w' = w"
  by (auto simp: retry_sys.simps [of h w] sys_call_def quiet_def next_reply_def reply_error_def EINTR_def EBADF_def
      split: if_splits)

lemma Segment_Close_still:
  assumes "quiet w" "Segment_Close s w = (r, s', w')"
  shows "w' = w"
proof -
  have sync: "v = w" if "File_Sync mode h w = (q, h', v)" for mode h q h' v
    using that retry_sys_still [OF assms(1)] by (auto simp: File_Sync_def split: prod.splits sum.splits)
  have trunc: "v = w" if "File_Truncate n h w = (q, h', v)" for n h q h' v
    using that retry_sys_still [OF assms(1)] by (auto simp: File_Truncate_def split: prod.splits sum.splits)
  have "v = w" if "Segment_Sync s w = (q, s1, v)" for q s1 v
    using that sync
    by (auto simp: Segment_Sync_def OffsetIndex_Sync_def TimeIndex_Sync_def File_SyncData_def Let_def
        split: prod.splits sum.splits if_splits) metis+
  with trunc assms(2) show ?thesis by (auto simp: Segment_Close_def split: prod.splits if_splits)
qed

lemma drop_segment_quiet:
  assumes "quiet w" "drop_segment s log w = (Inr (), log', w')"
  shows "w' = w \<and> log' = log\<lparr>pl_dir := (pl_dir log)(sg_base_offset s := NoFiles)\<rparr>"
proof -
  obtain r s' w1 where "Segment_Close s w = (r, s', w1)" using prod_cases3 by blast
  moreover from this have "w1 = w" by (rule Segment_Close_still [OF assms(1)])
  ultimately show ?thesis
    using assms
    by (cases r) (auto simp: drop_segment_def Segment_Delete_def next_reply_def quiet_def reply_error_def NoFiles_def)
qed

lemma drop_from_quiet:
  assumes "quiet w" "drop_from off log w = (Inr (), log', w')" "blank (pl_dir log b)"
  shows "blank (pl_dir log' b)"
  using assms
proof (induction off log w rule: drop_from.induct)
  case (1 off log w)
  let ?ss = "pl_segments log"
  show ?case
  proof (cases "length ?ss > 1 \<and> sg_base_offset (last ?ss) \<ge> off")
    case False
    with "1.prems" show ?thesis by (simp only: drop_from.simps [of off log] if_False prod.inject)
  next
    case True
    obtain rd log1 w1 where ds: "drop_segment (last ?ss) (log\<lparr>pl_segments := butlast ?ss\<rparr>) w = (rd, log1, w1)"
      using prod_cases3 by blast
    have rd: "rd = Inr ()"
      and rest: "drop_from off (log1\<lparr>pl_deleted_segments := pl_deleted_segments log1 + 1\<rparr>) w1 = (Inr (), log', w')"
      using "1.prems"(2) True ds by (auto simp: drop_from.simps [of off log] split: sum.splits)
    note q = drop_segment_quiet [OF "1.prems"(1) ds [unfolded rd]]
    then have "blank (pl_dir log1 b)" using "1.prems"(3) by (auto simp: blank_def NoFiles_def)
    then show ?thesis using "1.IH" [OF True ds [symmetric] rd HOL.refl _ rest] q "1.prems"(1) by simp
  qed
qed

lemma TruncateTo_clean:
  assumes "quiet w" "TruncateTo off log w = (Inr (), log', w')" "clean_dir log"
    "pl_log_start_offset log' = pl_log_start_offset log"
  shows "clean_dir log'"
proof (cases "off < pl_log_end_offset log \<and> pl_log_start_offset log \<le> off")
  case True
  obtain rd log1 w1 where df: "drop_from off log w = (rd, log1, w1)" using prod_cases3 by blast
  with True assms(2) have "rd = Inr ()" "pl_dir log' = pl_dir log1"
    by (auto simp: TruncateTo_def Let_def split: sum.splits prod.splits)
  with drop_from_quiet [OF assms(1)] df assms(3,4) show ?thesis by (auto simp: clean_dir_def)
qed (use assms in \<open>auto simp: TruncateTo_def split: if_splits\<close>)

text \<open>Truncation and retention.\<close>

lemma File_Truncate_quiet: "quiet w \<Longrightarrow> fh_valid h \<Longrightarrow> \<exists>h'. File_Truncate n h w = (Inr (), h', w)"
  by (simp add: File_Truncate_def retry_sys_quiet)

lemma Segment_Close_quiet:
  assumes "quiet w" "fh_valid (sg_file s)"
  shows "\<exists>s'. Segment_Close s w = (Inr (), s', w)"
proof -
  obtain s1 where s1: "Segment_Sync s w = (Inr (), s1, w)" "fh_valid (sg_file s1)"
    using Segment_Sync_quiet [OF assms] by blast
  from File_Truncate_quiet [OF assms(1) this(2)] obtain f where
    "File_Truncate (sg_end_position s1) (sg_file s1) w = (Inr (), f, w)" by blast
  with s1(1) assms(2) show ?thesis by (simp add: Segment_Close_def)
qed

lemma drop_segment_success:
  assumes "quiet w" "fh_valid (sg_file s)"
  shows "drop_segment s log w = (Inr (), log\<lparr>pl_dir := (pl_dir log)(sg_base_offset s := NoFiles)\<rparr>, w)"
proof -
  obtain s' where "Segment_Close s w = (Inr (), s', w)" using Segment_Close_quiet [OF assms] by blast
  with assms(1) show ?thesis
    by (simp add: drop_segment_def Segment_Delete_def next_reply_def quiet_def reply_error_def NoFiles_def)
qed

lemma drop_from_success:
  "quiet w \<Longrightarrow> list_all (\<lambda>s. fh_valid (sg_file s)) (pl_segments log) \<Longrightarrow> \<exists>log'. drop_from off log w = (Inr (), log', w)"
proof (induction off log w rule: drop_from.induct)
  case (1 off log w)
  let ?ss = "pl_segments log"
  show ?case
  proof (cases "length ?ss > 1 \<and> sg_base_offset (last ?ss) \<ge> off")
    case False
    then have "drop_from off log w = (Inr (), log, w)" by (simp only: drop_from.simps [of off log] if_False)
    then show ?thesis by blast
  next
    case True
    then have ne: "?ss \<noteq> []" by auto
    then have v: "fh_valid (sg_file (last ?ss))" "list_all (\<lambda>s. fh_valid (sg_file s)) (butlast ?ss)"
      using "1.prems"(2) by (auto simp: list_all_iff dest: in_set_butlastD)
    note ds = drop_segment_success [OF "1.prems"(1) v(1), of "log\<lparr>pl_segments := butlast ?ss\<rparr>"]
    from "1.IH" [OF True ds [symmetric] HOL.refl HOL.refl "1.prems"(1)] v(2) True ds show ?thesis
      by (simp add: drop_from.simps [of off log])
  qed
qed

lemma retention_loop_success:
  "quiet w \<Longrightarrow> list_all (\<lambda>s. fh_valid (sg_file s)) (pl_segments log) \<Longrightarrow>
   \<exists>n log'. retention_loop now deleted log w = (Inr n, log', w)"
proof (induction now deleted log w rule: retention_loop.induct)
  case (1 now deleted log w)
  let ?ss = "pl_segments log"
  show ?case
  proof (cases "1 < length ?ss \<and> expired now log")
    case False
    then have "retention_loop now deleted log w = (Inr deleted, log, w)"
      by (simp only: retention_loop.simps [of now deleted log] if_False)
    then show ?thesis by blast
  next
    case True
    then obtain s ss where "?ss = s # ss" by (cases ?ss) auto
    then have v: "fh_valid (sg_file (hd ?ss))" "list_all (\<lambda>s. fh_valid (sg_file s)) (tl ?ss)"
      using "1.prems"(2) by auto
    note ds = drop_segment_success [OF "1.prems"(1) v(1), of "forget_first log"]
    from "1.IH" [OF True ds [symmetric] HOL.refl HOL.refl "1.prems"(1)] v(2) True ds show ?thesis
      by (simp add: retention_loop.simps [of now deleted log] forget_first_def)
  qed
qed

lemma index_cuts_quiet:
  "quiet w \<Longrightarrow> fh_valid (oi_file ix) \<Longrightarrow> \<exists>ix'. OffsetIndex_TruncateFrom off ix w = (Inr (), ix', w)"
  "quiet w \<Longrightarrow> fh_valid (ti_file tx) \<Longrightarrow> \<exists>tx'. TimeIndex_TruncateFrom off tx w = (Inr (), tx', w)"
  by (simp_all add: OffsetIndex_TruncateFrom_def TimeIndex_TruncateFrom_def Let_def File_Truncate_def retry_sys_quiet)

lemma Segment_TruncateFrom_quiet:
  assumes inv: "seg_inv s rs" and q: "quiet w" and small: "list_all (\<lambda>x. length x \<le> kMaxRecordBytes) rs"
  shows "\<exists>s'. Segment_TruncateFrom off s w = (Inr (), s', w)"
proof -
  have v: "fh_valid (sg_file s)" "fh_valid (oi_file (sg_index s))" "fh_valid (ti_file (sg_time_index s))"
    and nxt: "sg_next_offset s = sg_base_offset s + int (length rs)"
    using inv by (simp_all add: seg_inv_def oi_ok_def ti_ok_def)
  note trunc = File_Truncate_def [of _ "sg_file s" w] retry_sys_quiet [OF q v(1)]
  obtain ix1 ix2 where ix: "OffsetIndex_TruncateFrom off (sg_index s) w = (Inr (), ix1, w)"
    "OffsetIndex_TruncateFrom (sg_base_offset s) (sg_index s) w = (Inr (), ix2, w)"
    using index_cuts_quiet(1) [OF q v(2)] by metis
  obtain tx1 tx2 where tx: "TimeIndex_TruncateFrom off (sg_time_index s) w = (Inr (), tx1, w)"
    "TimeIndex_TruncateFrom (sg_base_offset s) (sg_time_index s) w = (Inr (), tx2, w)"
    using index_cuts_quiet(2) [OF q v(3)] by metis
  show ?thesis
  proof (cases "sg_base_offset s < off \<and> off < sg_next_offset s")
    case True
    define k where "k = nat (off - sg_base_offset s)"
    have k: "off = sg_base_offset s + int k" "k < length rs" using True nxt by (auto simp: k_def)
    obtain r w1 where run: "PositionFor (sg_base_offset s + int k) s w = (r, w1)" by fastforce
    from PositionFor_exact [OF inv k(2) run] q small have "r = Inr (rec_pos rs k)" "w1 = w" by blast+
    with run have "PositionFor off s w = (Inr (rec_pos rs k), w)" by (simp only: k(1))
    with True ix tx show ?thesis by (simp add: Segment_TruncateFrom_def trunc)
  qed (use ix tx in \<open>auto simp: Segment_TruncateFrom_def trunc\<close>)
qed

lemma TruncateTo_success:
  assumes inv: "log_inv log rss" and q: "quiet w" and off: "pl_log_start_offset log \<le> off"
    and small: "list_all (\<lambda>x. length x \<le> kMaxRecordBytes) (concat rss)"
  shows "\<exists>log' w'. TruncateTo off log w = (Inr (), log', w')"
proof (cases "off < pl_log_end_offset log")
  case True
  have segs: "segs_inv (pl_flushed_offset log) (pl_log_start_offset log) (pl_segments log) rss" and ne: "pl_segments log \<noteq> []"
    using inv by (simp_all add: log_inv_def)
  obtain log1 where df: "drop_from off log w = (Inr (), log1, w)"
    using drop_from_success [OF q segs_inv_valid [OF segs]] by blast
  from drop_from_spec [OF df ne] obtain m d n where m: "0 < m" "m \<le> length (pl_segments log)"
    and log1: "log1 = log\<lparr>pl_segments := take m (pl_segments log), pl_dir := d, pl_deleted_segments := n\<rparr>"
    by (elim exE conjE) (rule that)
  then have last: "pl_segments log1 ! (length (pl_segments log1) - 1) = pl_segments log ! (m - 1)"
    by (simp add: log1)
  have i: "m - 1 < length (pl_segments log)" "m - 1 < length rss" using m segs_inv_length [OF segs] by auto
  have "list_all (\<lambda>x. length x \<le> kMaxRecordBytes) (rss ! (m - 1))"
    using small i(2) nth_mem by (fastforce simp: list_all_iff)
  then obtain s' where "Segment_TruncateFrom off (pl_segments log ! (m - 1)) w = (Inr (), s', w)"
    using Segment_TruncateFrom_quiet [OF segs_inv_nth(1) [OF segs i(1)] q] by blast
  with True off df last show ?thesis by (simp add: TruncateTo_def Let_def)
qed (simp add: TruncateTo_def)

section \<open>A new directory\<close>

lemma PartitionLog_Open_new:
  assumes "PartitionLog_Open options [] (\<lambda>_. NoFiles) w = Some (Inr (report, log), w')"
  shows "log_inv log [[]] \<and> clean_dir log \<and> pl_log_start_offset log = 0 \<and> pl_options log = options \<and>
    \<not> pl_disk_full log"
proof -
  have blank: "blank NoFiles" by (simp add: blank_def NoFiles_def)
  have "base_offsets [] = []" by (simp add: base_offsets_def ListFiles_def map_filter_simps)
  moreover obtain re w1 where ed: "EnsureDirectory w = (re, w1)" by fastforce
  moreover obtain log0 w2 where new: "NewPartitionLog options (\<lambda>_. NoFiles) w1 = (log0, w2)" by fastforce
  moreover from new have log0: "pl_dir log0 = (\<lambda>_. NoFiles)" "pl_options log0 = options" "\<not> pl_closed log0"
    "\<not> pl_disk_full log0" by (auto simp: NewPartitionLog_def MonotonicNanos_def)
  moreover obtain rs w3 where op: "Segment_Open NoFiles 0 (segment_options_of options) w2 = (rs, w3)" by fastforce
  ultimately obtain s where rs: "rs = Inr s"
    and log: "log = log0\<lparr>pl_segments := [s], pl_active := Some 0,
      pl_log_start_offset := 0, pl_log_end_offset := 0, pl_flushed_offset := 0\<rparr>"
    using assms by (auto simp: PartitionLog_Open_def LoadSegments_def Let_def split: sum.splits)
  note s = op [unfolded rs]
  from Segment_Open_blank [OF s blank] have s': "seg_inv s []" "sg_base_offset s = 0" by simp_all
  then show ?thesis
    using blank log0 by (simp add: log log_inv_def clean_dir_def rec_pos_def)
qed

lemma PartitionLog_Open_quiet:
  assumes "quiet w"
  shows "\<exists>report log w'. PartitionLog_Open options [] (\<lambda>_. NoFiles) w = Some (Inr (report, log), w') \<and>
    quiet w' \<and> os_free w' = os_free w"
proof -
  have blank: "blank NoFiles" by (simp add: blank_def NoFiles_def)
  have "base_offsets [] = []" by (simp add: base_offsets_def ListFiles_def map_filter_simps)
  moreover have "EnsureDirectory w = (Inr (), w)"
    using assms by (simp add: EnsureDirectory_def next_reply_def quiet_def)
  moreover obtain s where "Segment_Open NoFiles 0 (segment_options_of options) (w\<lparr>os_tick := Suc (os_tick w)\<rparr>) =
      (Inr s, w\<lparr>os_tick := Suc (Suc (os_tick w))\<rparr>)"
    using Segment_Open_quiet [OF _ blank, of "w\<lparr>os_tick := Suc (os_tick w)\<rparr>"] assms by auto
  ultimately show ?thesis
    using assms by (simp add: PartitionLog_Open_def LoadSegments_def NewPartitionLog_def MonotonicNanos_def)
qed

end
