(* ===== verification/PL_Log_Store.thy ===== *)
theory PL_Log_Store
  imports PL_Log_Live "HOL-Library.Sublist"
begin

text \<open>
  What the storage layer promises its clients, as one interface that both a segment and a
  partition log provide: records are numbered without gaps from a base, and appending never
  changes a record that is already there.  The states of a partition log that the operations
  reach from a new directory are an inductive predicate.
\<close>

section \<open>The interface\<close>

locale record_store =
  fixes holds :: "'s \<Rightarrow> bytes list \<Rightarrow> bool" and base :: "'s \<Rightarrow> offset" and step :: "'s \<Rightarrow> 's \<Rightarrow> bool"
  assumes holds_chained: "holds s rs \<Longrightarrow> chained (base s) rs"
    and step_extends: "step s s' \<Longrightarrow> holds s rs \<Longrightarrow> \<exists>rs'. prefix rs rs' \<and> holds s' rs'"
    and step_base: "step s s' \<Longrightarrow> holds s rs \<Longrightarrow> base s' = base s"
begin

lemma chained_offset: "chained b rs \<Longrightarrow> k < length rs \<Longrightarrow> rec_offset (rs ! k) = b + int k"
  by (induction rs arbitrary: b k) (auto simp: nth_Cons split: nat.split)

lemma numbered: "holds s rs \<Longrightarrow> k < length rs \<Longrightarrow> rec_offset (rs ! k) = base s + int k"
  using holds_chained chained_offset by blast

lemma steps_extend:
  "step\<^sup>*\<^sup>* s s' \<Longrightarrow> holds s rs \<Longrightarrow> \<exists>rs'. prefix rs rs' \<and> holds s' rs' \<and> base s' = base s"
proof (induction rule: rtranclp_induct)
  case (step s1 s2)
  then obtain rs1 where "prefix rs rs1" "holds s1 rs1" "base s1 = base s" by blast
  with step_extends [OF step.hyps(2)] step_base [OF step.hyps(2)] show ?case
    by (metis prefix_order.order_trans)
qed auto

lemma never_rewritten:
  assumes "step\<^sup>*\<^sup>* s s'" "holds s rs"
  shows "\<exists>rs'. holds s' rs' \<and> length rs \<le> length rs' \<and>
    (\<forall>k < length rs'. rec_offset (rs' ! k) = base s + int k) \<and> (\<forall>k < length rs. rs' ! k = rs ! k)"
  using steps_extend [OF assms] numbered by (metis nth_append prefixE prefix_length_le)

end

section \<open>A segment\<close>

inductive seg_step :: "segment \<Rightarrow> segment \<Rightarrow> bool" where
  seg_append: "chained (sg_next_offset s) news \<Longrightarrow> news \<noteq> [] \<Longrightarrow>
    AppendEncoded (concat news) (sg_next_offset s) (sg_next_offset s + int (length news) - 1) n m s w = (r, s', w') \<Longrightarrow>
    seg_step s s'"
| seg_append_vectored: "chained (sg_next_offset s) news \<Longrightarrow> news \<noteq> [] \<Longrightarrow> concat chunks = concat news \<Longrightarrow>
    AppendEncodedVectored chunks (sg_next_offset s) (sg_next_offset s + int (length news) - 1) n m s w = (r, s', w') \<Longrightarrow>
    seg_step s s'"
| seg_sync: "Segment_Sync s w = (r, s', w') \<Longrightarrow> seg_step s s'"

lemma seg_step_inv:
  assumes "seg_step s s'" "seg_inv s rs"
  shows "\<exists>rs'. prefix rs rs' \<and> seg_inv s' rs' \<and> sg_base_offset s' = sg_base_offset s"
  using assms(1)
proof cases
  case (seg_append news n m w r w')
  then show ?thesis
    using AppendEncoded_inv [OF assms(2) seg_append] by (cases "r = Inr ()") (auto intro: exI [of _ "rs @ news"])
next
  case (seg_append_vectored news chunks n m w r w')
  then show ?thesis
    using AppendEncodedVectored_inv [OF assms(2) seg_append_vectored]
    by (cases "r = Inr ()") (auto intro: exI [of _ "rs @ news"])
next
  case (seg_sync w r w')
  then show ?thesis using Segment_Sync_inv [OF assms(2) seg_sync] by auto
qed

lemma seg_inv_chained: "seg_inv s rs \<Longrightarrow> chained (sg_base_offset s) rs"
  by (simp add: seg_inv_def)

interpretation seg: record_store seg_inv sg_base_offset seg_step
  by unfold_locales (use seg_step_inv seg_inv_chained in blast)+

section \<open>A partition log\<close>

definition log_holds :: "partition_log \<Rightarrow> bytes list \<Rightarrow> bool" where
  "log_holds log rs \<longleftrightarrow> (\<exists>rss. log_inv log rss \<and> clean_dir log \<and> rs = concat rss)"

inductive log_step :: "partition_log \<Rightarrow> partition_log \<Rightarrow> bool" where
  log_append: "length records \<le> 4294967295 \<Longrightarrow> pl_log_end_offset log + int (length records) < 2 ^ 63 \<Longrightarrow>
    AppendAssigningOffsets records n log w = (r, records', log', w') \<Longrightarrow> log_step log log'"
| log_replicate: "length records \<le> 4294967295 \<Longrightarrow>
    AppendWithOffsets records n log w = (r, log', w') \<Longrightarrow> log_step log log'"
| log_replicate_vectored: "length (concat chunks) \<le> 4294967295 \<Longrightarrow>
    AppendVectoredWithOffsets chunks n log w = (r, log', w') \<Longrightarrow> log_step log log'"
| log_flush: "Flush log w = (r, log', w') \<Longrightarrow> log_step log log'"

lemma appended_holds:
  assumes "appended news log r log' rss rss'" "clean_dir log"
  shows "\<exists>rs'. prefix (concat rss) rs' \<and> log_holds log' rs' \<and> pl_log_start_offset log' = pl_log_start_offset log"
proof -
  have "log_holds log' (concat rss')" using assms by (auto simp: appended_def log_holds_def)
  moreover have "prefix (concat rss) (concat rss')" using assms(1) by (auto simp: appended_def split: sum.splits)
  ultimately show ?thesis using assms(1) unfolding appended_def by blast
qed

lemma log_step_holds:
  assumes "log_step log log'" "log_holds log rs"
  shows "\<exists>rs'. prefix rs rs' \<and> log_holds log' rs' \<and> pl_log_start_offset log' = pl_log_start_offset log"
proof -
  from assms(2) obtain rss where inv: "log_inv log rss" and clean: "clean_dir log" and rs: "rs = concat rss"
    by (auto simp: log_holds_def)
  from assms(1) show ?thesis
  proof cases
    case (log_append records n w r records' w')
    then show ?thesis
      using AppendAssigningOffsets_appended [OF inv clean log_append] appended_holds clean unfolding rs by blast
  next
    case (log_replicate records n w r w')
    then show ?thesis
      using AppendWithOffsets_appended [OF inv clean log_replicate] appended_holds clean unfolding rs by blast
  next
    case (log_replicate_vectored chunks n w r w')
    then show ?thesis
      using AppendVectoredWithOffsets_appended [OF inv clean log_replicate_vectored] appended_holds clean
      unfolding rs by blast
  next
    case (log_flush w r w')
    from Flush_inv [OF inv this] clean rs show ?thesis
      by (intro exI [of _ rs]) (auto simp: log_holds_def clean_dir_def)
  qed
qed

lemma segs_inv_chained: "segs_inv fl base ss rss \<Longrightarrow> chained base (concat rss)"
  by (induction fl base ss rss rule: segs_inv.induct) (auto simp: seg_inv_def chained_append)

lemma log_holds_chained: "log_holds log rs \<Longrightarrow> chained (pl_log_start_offset log) rs"
  using segs_inv_chained by (auto simp: log_holds_def log_inv_def)

interpretation plog: record_store log_holds pl_log_start_offset log_step
  by unfold_locales (use log_step_holds log_holds_chained in blast)+

subsection \<open>Reachable logs\<close>

text \<open>
  Appends and flushes may fail in any way; truncation is followed when it succeeds and the
  kernel removed what it was asked to remove, retention when it succeeds.
\<close>

inductive log_reachable :: "log_options \<Rightarrow> partition_log \<Rightarrow> bool" for options where
  opened: "PartitionLog_Open options [] (\<lambda>_. NoFiles) w = Some (Inr (report, log), w') \<Longrightarrow> log_reachable options log"
| stepped: "log_reachable options log \<Longrightarrow> log_step log log' \<Longrightarrow> log_reachable options log'"
| truncated: "log_reachable options log \<Longrightarrow> quiet w \<Longrightarrow> TruncateTo off log w = (Inr (), log', w') \<Longrightarrow>
    log_reachable options log'"
| retained: "log_reachable options log \<Longrightarrow> EnforceRetention log w = (Inr n, log', w') \<Longrightarrow> log_reachable options log'"

lemma TruncateTo_holds:
  assumes inv: "log_inv log rss" "clean_dir log" and run: "TruncateTo off log w = (Inr (), log', w')" and q: "quiet w"
  shows "\<exists>rss'. log_inv log' rss' \<and> clean_dir log' \<and> concat rss' = take (nat (off - pl_log_start_offset log)) (concat rss)"
proof (cases "off < pl_log_end_offset log")
  case True
  with run have "pl_log_start_offset log \<le> off" by (auto simp: TruncateTo_def split: if_splits)
  from TruncateTo_inv [OF inv(1) this True run] TruncateTo_clean [OF q run inv(2)] show ?thesis by blast
next
  case False
  then have "length (concat rss) \<le> nat (off - pl_log_start_offset log)"
    using inv(1) by (simp add: log_inv_def del: length_concat)
  moreover have "log' = log" using False run by (simp add: TruncateTo_def)
  ultimately show ?thesis using inv by (intro exI [of _ rss]) simp
qed

lemma log_reachable_holds: "log_reachable options log \<Longrightarrow> \<exists>rs. log_holds log rs"
proof (induction rule: log_reachable.induct)
  case (opened w report log w')
  from PartitionLog_Open_new [OF this] show ?case unfolding log_holds_def by blast
next
  case (stepped log log')
  then show ?case using log_step_holds by blast
next
  case (truncated log w off log' w')
  then show ?case using TruncateTo_holds unfolding log_holds_def by meson
next
  case (retained log w n log' w')
  then show ?case using EnforceRetention_inv unfolding log_holds_def by meson
qed

section \<open>A sample\<close>

definition sample_log_options :: log_options where
  "sample_log_options =
     \<lparr>lo_segment_bytes = 40, lo_segment_ms = 0, lo_index_interval_bytes = 4096, lo_retention_bytes = 40,
      lo_retention_ms = 0, lo_min_free_disk_bytes = 1, lo_preallocate = False, lo_write_mode = WriteModeWrite,
      lo_sync_mode = SyncData,
      lo_flush = \<lparr>fp_sync_on_append = False, fp_interval_ms = 0, fp_max_unflushed_bytes = 0,
                  fp_max_unflushed_records = 0\<rparr>\<rparr>"

definition sample_new_log :: "partition_log \<times> os" where
  "sample_new_log =
     (case PartitionLog_Open sample_log_options [] (\<lambda>_. NoFiles) quiet_os of
        Some (Inr (report, log), w) \<Rightarrow> (log, w)
      | _ \<Rightarrow> NewPartitionLog sample_log_options (\<lambda>_. NoFiles) quiet_os)"

definition sample_log :: "partition_log \<times> os" where
  "sample_log = snd (snd (AppendAssigningOffsets (concat sample_records) 2 (fst sample_new_log) (snd sample_new_log)))"

lemma sample_new_log:
  "log_inv (fst sample_new_log) [[]]" "clean_dir (fst sample_new_log)" "pl_log_start_offset (fst sample_new_log) = 0"
  "roomy (fst sample_new_log) (snd sample_new_log)" "log_reachable sample_log_options (fst sample_new_log)"
  and sample_new_log_options: "pl_options (fst sample_new_log) = sample_log_options"
proof -
  obtain report log w where op: "PartitionLog_Open sample_log_options [] (\<lambda>_. NoFiles) quiet_os = Some (Inr (report, log), w)"
    and w: "quiet w" "os_free w = os_free quiet_os" using PartitionLog_Open_quiet [OF quiet_quiet_os] by blast
  have s: "sample_new_log = (log, w)" by (simp add: sample_new_log_def op)
  note new = PartitionLog_Open_new [OF op]
  then show "log_inv (fst sample_new_log) [[]]" "clean_dir (fst sample_new_log)"
    "pl_log_start_offset (fst sample_new_log) = 0" "pl_options (fst sample_new_log) = sample_log_options"
    by (simp_all add: s)
  show "roomy (fst sample_new_log) (snd sample_new_log)"
    using new w by (simp add: s roomy_def sample_log_options_def quiet_os_def wrap64_def)
  show "log_reachable sample_log_options (fst sample_new_log)" using log_reachable.opened [OF op] by (simp add: s)
qed

lemma sample_append:
  "\<exists>x recs. AppendAssigningOffsets (concat sample_records) 2 (fst sample_new_log) (snd sample_new_log)
     = (Inr x, recs, sample_log) \<and> roomy (fst sample_log) (snd sample_log)"
proof -
  have "length (concat sample_records) \<le> 4294967295"
    by (simp add: sample_records_def sample_plain_def plain_wire_def length_record_wire EncodedRecordSize_def
        kRecordFixedPrefix_def key_field_def VarUIntSize.simps)
  moreover have "sample_plain \<noteq> []" "length sample_plain = 2" by (simp_all add: sample_plain_def)
  ultimately obtain x recs log' w' where
    "AppendAssigningOffsets (concat sample_records) 2 (fst sample_new_log) (snd sample_new_log) = (Inr x, recs, log', w')"
    "roomy log' w'"
    using AppendAssigningOffsets_success [OF sample_new_log(1,2,4), of sample_plain] sample_plain_ok
    unfolding sample_records_def by metis
  then show ?thesis by (simp add: sample_log_def)
qed

end
