(* ===== verification/PL_Log_Props.thy ===== *)
theory PL_Log_Props
  imports PL_Log_Store
begin

text \<open>
  The properties of a partition log: what appending, reading, truncating, retention and flushing
  do to the records it holds, and that its invariant holds in every state they reach.
\<close>

lemma AppendAssigningOffsets_length:
  assumes "AppendAssigningOffsets records n log w = (r, records', log', w')"
  shows "length records' = length records"
proof -
  obtain r1 log1 w1 where cd: "CheckDiskSpace log w = (r1, log1, w1)" using prod_cases3 by blast
  obtain r2 log2 w2 where mr: "MaybeRoll (length records) log1 w1 = (r2, log2, w2)" using prod_cases3 by blast
  obtain t w3 where t: "WallClockMillis w2 = (t, w3)" by fastforce
  obtain q recs where st: "stamp_records t records 0 (sg_next_offset (pl_segments log2 ! the (pl_active log2))) (- 1) 0
      = (q, recs)" by fastforce
  have "records' = records \<or> records' = recs"
    using assms cd mr t st
    by (auto simp: AppendAssigningOffsets_def Let_def split: if_splits sum.splits prod.splits)
  with stamp_length [OF st] show ?thesis by auto
qed

lemma sample_records_length: "length (concat sample_records) \<le> 100"
  by (simp add: sample_records_def sample_plain_def plain_wire_def length_record_wire EncodedRecordSize_def
      kRecordFixedPrefix_def key_field_def VarUIntSize.simps)

lemma sample_log_appended:
  "\<exists>rss. log_inv (fst sample_log) rss \<and> clean_dir (fst sample_log) \<and> length (concat rss) = 2 \<and>
     pl_log_start_offset (fst sample_log) = 0 \<and> list_all (\<lambda>x. length x \<le> kMaxRecordBytes) (concat rss)"
proof -
  obtain x recs where run: "AppendAssigningOffsets (concat sample_records) 2 (fst sample_new_log) (snd sample_new_log)
      = (Inr x, recs, sample_log)" using sample_append by blast
  then have run': "AppendAssigningOffsets (concat sample_records) 2 (fst sample_new_log) (snd sample_new_log)
      = (Inr x, recs, fst sample_log, snd sample_log)" by simp
  have len: "length (concat sample_records) \<le> 100" by (rule sample_records_length)
  have e: "pl_log_end_offset (fst sample_new_log) = 0" using sample_new_log(1,3) by (simp add: log_inv_def)
  obtain news rss' where app: "appended news (fst sample_new_log) (Inr x) (fst sample_log) [[]] rss'"
    and news: "recs = concat news" "length news = 2" and olds: "\<exists>olds. concat sample_records = concat olds \<and> restamped olds news"
    using AppendAssigningOffsets_appended [OF sample_new_log(1,2) _ _ run'] len e by auto
  have "length r \<le> kMaxRecordBytes" if "r \<in> set news" for r
  proof -
    have "length (concat news) = length (concat sample_records)"
      using run' news(1) AppendAssigningOffsets_length [OF run'] by simp
    moreover have "length r \<le> length (concat news)" using that by (simp add: member_le_sum_list length_concat)
    ultimately show ?thesis using len by (simp add: kMaxRecordBytes_def)
  qed
  with app news sample_new_log(2,3) show ?thesis
    by (intro exI [of _ rss']) (auto simp: appended_def list_all_iff simp del: length_concat)
qed







lemma concat_offset: "chained b rs \<Longrightarrow> rs \<noteq> [] \<Longrightarrow> LoadLeI64 (drop 8 (concat rs)) = b"
  by (cases rs) (auto simp: framed_def rec_offset_def LoadLe_append)






text \<open>
  C5: \<^bold>\<open>What is below the flushed offset survives a crash.\<close>  In every segment, the records below the
  flushed offset are a prefix of the bytes the disk holds; a successful \<open>Flush\<close> moves the flushed
  offset to the end of the log, so that then all records are there.
\<close>

theorem Flush_durable:
  assumes "log_inv log rss" and "Flush log w = (r, log', w')" and "i < length rss"
  shows "let s = pl_segments log' ! i; n = nat (pl_flushed_offset log' - sg_base_offset s);
             p = length (concat (take n (rss ! i)))
         in take p (fh_durable (sg_file s)) = concat (take n (rss ! i)) \<and>
            (r = Inr () \<longrightarrow> take (length (concat (rss ! i))) (fh_durable (sg_file s)) = concat (rss ! i))"
proof -
  from Flush_inv [OF assms(1,2)] have inv: "log_inv log' rss" and fl: "r = Inr () \<longrightarrow> pl_flushed_offset log' = pl_log_end_offset log'"
    by auto
  then have segs: "segs_inv (pl_flushed_offset log') (pl_log_start_offset log') (pl_segments log') rss"
    by (simp add: log_inv_def)
  have i: "i < length (pl_segments log')" using assms(3) segs_inv_length [OF segs] by simp
  let ?s = "pl_segments log' ! i" and ?rs = "rss ! i"
  define n where "n = nat (pl_flushed_offset log' - sg_base_offset ?s)"
  note si = segs_inv_nth [OF segs i]
  have pos: "rec_pos ?rs n \<le> sg_synced_position ?s" using si(3) by (simp add: n_def)
  have dur: "take (sg_synced_position ?s) (fh_durable (sg_file ?s)) = take (sg_synced_position ?s) (concat ?rs)"
    using si(1) by (simp add: seg_inv_def)
  have "take (rec_pos ?rs n) (concat ?rs) = concat (take n ?rs)"
    unfolding rec_pos_def by (metis append_eq_conv_conj append_take_drop_id concat_append)
  then have below: "take (rec_pos ?rs n) (fh_durable (sg_file ?s)) = concat (take n ?rs)"
    using arg_cong [OF dur, of "take (rec_pos ?rs n)"] pos by (simp add: min_def)
  have all: "n \<ge> length ?rs" if "r = Inr ()"
  proof -
    have "length (concat (take (Suc i) rss)) \<le> length (concat rss)" by (rule length_concat_take_le)
    moreover have "length (concat (take (Suc i) rss)) = length (concat (take i rss)) + length ?rs"
      using assms(3) by (simp add: take_Suc_conv_app_nth del: length_concat)
    ultimately show ?thesis using inv fl that si(2) by (simp add: n_def log_inv_def del: length_concat)
  qed
  then show ?thesis using below unfolding Let_def n_def [symmetric] rec_pos_def by auto
qed

theorem Flush_durable_witness:
  "\<exists>log' w' rss. Flush (fst sample_log) (snd sample_log) = (Inr (), log', w') \<and> log_inv log' rss \<and>
     length (concat rss) = 2 \<and> take (length (concat (rss ! 0))) (fh_durable (sg_file (pl_segments log' ! 0))) = concat (rss ! 0)"
proof -
  obtain rss where rss: "log_inv (fst sample_log) rss" "length (concat rss) = 2" using sample_log_appended by blast
  have v: "list_all (\<lambda>s. fh_valid (sg_file s)) (pl_segments (fst sample_log))" "0 < length rss"
    using rss(1) segs_inv_valid segs_inv_length by (fastforce simp: log_inv_def)+
  obtain log' w' where run: "Flush (fst sample_log) (snd sample_log) = (Inr (), log', w')"
    using Flush_quiet [OF _ v(1)] sample_append by blast
  have "log_inv log' rss" using Flush_inv [OF rss(1) run] by blast
  with Flush_durable [OF rss(1) run v(2)] run rss(2) show ?thesis unfolding Let_def by blast
qed


lemma sample_log_reachable: "log_reachable sample_log_options (fst sample_log)"
proof -
  obtain x recs where run: "AppendAssigningOffsets (concat sample_records) 2 (fst sample_new_log) (snd sample_new_log)
      = (Inr x, recs, fst sample_log, snd sample_log)" using sample_append by auto
  have "log_step (fst sample_new_log) (fst sample_log)"
    using sample_records_length sample_new_log(1,3) by (intro log_step.log_append [OF _ _ run]) (auto simp: log_inv_def)
  with sample_new_log(5) show ?thesis by (rule log_reachable.stepped)
qed


text \<open>
  C4: \<^bold>\<open>Appending never rewrites history.\<close>  After any number of appends and flushes, whatever their
  outcome, the log still begins with the records it had, byte for byte, and every record carries
  the offset of its place.
\<close>

theorem appends_never_rewrite:
  assumes "log_reachable options log" "log_step\<^sup>*\<^sup>* log log'"
  shows "\<exists>rss rss'. log_inv log rss \<and> log_inv log' rss' \<and> length (concat rss) \<le> length (concat rss') \<and>
    (\<forall>k < length (concat rss). concat rss' ! k = concat rss ! k) \<and>
    (\<forall>k < length (concat rss'). rec_offset (concat rss' ! k) = pl_log_start_offset log + int k)"
proof -
  from log_reachable_holds [OF assms(1)] obtain rss where "log_inv log rss" "log_holds log (concat rss)"
    by (auto simp: log_holds_def)
  with plog.never_rewritten [OF assms(2) this(2)] show ?thesis
    unfolding log_holds_def by (metis (no_types, lifting))
qed

theorem appends_never_rewrite_witness:
  "\<exists>rss rss'. log_inv (fst sample_new_log) rss \<and> log_inv (fst sample_log) rss' \<and>
     length (concat rss) \<le> length (concat rss') \<and>
     (\<forall>k < length (concat rss'). rec_offset (concat rss' ! k) = pl_log_start_offset (fst sample_new_log) + int k)"
proof -
  obtain x recs where run: "AppendAssigningOffsets (concat sample_records) 2 (fst sample_new_log) (snd sample_new_log)
      = (Inr x, recs, fst sample_log, snd sample_log)" using sample_append by auto
  have "log_step (fst sample_new_log) (fst sample_log)"
    using sample_records_length sample_new_log(1,3) by (intro log_step.log_append [OF _ _ run]) (auto simp: log_inv_def)
  from appends_never_rewrite [OF sample_new_log(5) r_into_rtranclp [of log_step, OF this]] show ?thesis by blast
qed



end
