(* ===== verification/PL_Replica_Props.thy ===== *)
theory PL_Replica_Props
  imports PL_Replica PL_Log_Props "HOL-Library.Multiset"
begin

text \<open>
  Properties of a replica: the high-water mark only moves forward and stays within the log, every
  produce request is answered at most once, and an acknowledgement from a quorum survives the
  loss of any minority.
\<close>

section \<open>Majorities\<close>

locale majority =
  fixes members :: "'p set" and q :: nat
  assumes finite_members: "finite members" and more_than_half: "card members < 2 * q"
begin

lemma quorums_meet:
  assumes "A \<subseteq> members" "B \<subseteq> members" "q \<le> card A" "q \<le> card B"
  shows "A \<inter> B \<noteq> {}"
proof
  assume "A \<inter> B = {}"
  then have "card (A \<union> B) = card A + card B"
    using assms(1,2) finite_members finite_subset card_Un_disjoint by metis
  moreover have "card (A \<union> B) \<le> card members" using assms(1,2) finite_members by (simp add: card_mono)
  ultimately show False using assms(3,4) more_than_half by linarith
qed

lemma survives_minority:
  assumes "A \<subseteq> members" "q \<le> card A" "F \<subseteq> members" "2 * card F \<le> card members"
  shows "A - F \<noteq> {}"
proof
  assume "A - F = {}"
  then have "card A \<le> card F" using assms(3) finite_members by (intro card_mono) (auto intro: finite_subset)
  then show False using assms(2,4) more_than_half by linarith
qed

end

interpretation replicas: majority "set (pa_replicas a)" "QuorumSize a" for a :: partition_assignment
  by unfold_locales (use card_length [of "pa_replicas a"] in \<open>auto simp: QuorumSize_def\<close>)

section \<open>Followers\<close>

lemma om_wf_filter: "om_wf m \<Longrightarrow> om_wf (filter P m)"
  unfolding om_wf_def by (induction m) auto

lemma add_followers_wf: "om_wf fs \<Longrightarrow> om_wf (add_followers self rs fs)"
  by (induction self rs fs rule: add_followers.induct) (auto simp: om_wf_put)

lemma add_followers_keys:
  "fst ` set (add_followers self rs fs) = fst ` set fs \<union> (set rs - {self})"
proof (induction self rs fs rule: add_followers.induct)
  case (2 self r rs fs)
  have "om_get r fs \<noteq> None \<longleftrightarrow> r \<in> fst ` set fs" by (simp add: om_get_def map_of_eq_None_iff)
  moreover have "fst ` set (om_put r (NewFollower r) fs) = insert r (fst ` set fs)"
    using om_put_keys [of r "NewFollower r" fs] by simp
  ultimately show ?case using 2 by auto
qed simp

text \<open>The followers of a replica are the other members of the replica set.\<close>

definition followers_ok :: "partition_replica \<Rightarrow> bool" where
  "followers_ok pr \<longleftrightarrow> om_wf (pr_followers pr) \<and>
     fst ` set (pr_followers pr) = set (pa_replicas (pr_assignment pr)) - {pr_self pr}"

lemma fold_min_le: "fold min xs (x::'a::linorder) \<le> x"
proof (induction xs arbitrary: x)
  case (Cons a xs)
  have "fold min xs (min a x) \<le> min a x" by (rule Cons.IH)
  then show ?case by simp
qed simp

lemma Recompute_frame:
  "\<exists>h \<ge> pr_high_water_mark pr. RecomputeHighWaterMark pr = pr\<lparr>pr_high_water_mark := h\<rparr> \<and>
     (h = pr_high_water_mark pr \<or> h \<le> pl_log_end_offset (pr_log pr))"
proof -
  let ?m = "fold min (in_sync_ends (pr_followers pr)) (pl_log_end_offset (pr_log pr))"
  have "?m \<le> pl_log_end_offset (pr_log pr)" by (rule fold_min_le)
  then show ?thesis
    by (intro exI [of _ "if is_leader pr \<and> pr_high_water_mark pr < ?m then ?m else pr_high_water_mark pr"])
      (simp add: RecomputeHighWaterMark_def Let_def)
qed

section \<open>Waiters\<close>

text \<open>A waiter as it was registered: only the time stamp of the local flush is ever changed.\<close>

definition same_request :: "durability_waiter \<Rightarrow> durability_waiter \<Rightarrow> bool" where
  "same_request a b \<longleftrightarrow> dw_on_complete a = dw_on_complete b \<and> dw_mode a = dw_mode b \<and>
     dw_required_offset a = dw_required_offset b \<and> dw_deadline_ms a = dw_deadline_ms b"

definition persisted_replicas :: "partition_replica \<Rightarrow> offset \<Rightarrow> int set" where
  "persisted_replicas pr off =
     (if pl_flushed_offset (pr_log pr) > off then {pr_self pr} else {}) \<union>
     set (persisted_followers off (pr_followers pr))"

definition acknowledged :: "partition_replica \<Rightarrow> durability_waiter \<Rightarrow> bool" where
  "acknowledged pr wt \<longleftrightarrow>
     (case dw_mode wt of
        AckNone \<Rightarrow> True
      | AckLeader \<Rightarrow> dw_required_offset wt < pl_log_end_offset (pr_log pr)
      | AckQuorum \<Rightarrow> QuorumSize (pr_assignment pr) \<le> card (persisted_replicas pr (dw_required_offset wt)))"

lemma persisted_card:
  assumes "followers_ok pr"
  shows "card (persisted_replicas pr off) =
    (if pl_flushed_offset (pr_log pr) > off then 1 else 0) + length (persisted_followers off (pr_followers pr))"
proof -
  have sub: "set (persisted_followers off (pr_followers pr)) \<subseteq> fst ` set (pr_followers pr)"
    by (auto simp: persisted_followers_def)
  then have "pr_self pr \<notin> set (persisted_followers off (pr_followers pr))"
    using assms by (auto simp: followers_ok_def)
  moreover have "distinct (persisted_followers off (pr_followers pr))"
    unfolding persisted_followers_def using assms by (intro om_wf_distinct om_wf_filter) (simp add: followers_ok_def)
  ultimately show ?thesis by (simp add: persisted_replicas_def distinct_card)
qed

lemma persisted_subset:
  assumes "followers_ok pr" "pr_self pr \<in> set (pa_replicas (pr_assignment pr))"
  shows "persisted_replicas pr off \<subseteq> set (pa_replicas (pr_assignment pr))"
proof -
  have "set (persisted_followers off (pr_followers pr)) \<subseteq> fst ` set (pr_followers pr)"
    by (auto simp: persisted_followers_def)
  with assms show ?thesis by (auto simp: persisted_replicas_def followers_ok_def)
qed

lemma waiter_satisfied_spec:
  assumes "followers_ok pr" "waiter_satisfied pr wt w = (sat, wt', w')"
  shows "same_request wt wt' \<and> (sat \<longleftrightarrow> acknowledged pr wt)"
  using assms
  by (auto simp: waiter_satisfied_def same_request_def acknowledged_def persisted_card Let_def
      split: ack_mode.splits prod.splits if_splits)

lemma partition_waiters_spec:
  assumes "followers_ok pr" "partition_waiters pr ws w = (kept, out, w')"
  shows "mset (map dw_on_complete ws) = mset (map dw_on_complete kept) + mset (map dw_on_complete out) \<and>
    (\<forall>wt' \<in> set out. \<exists>wt \<in> set ws. same_request wt wt' \<and> acknowledged pr wt)"
  using assms(2)
proof (induction ws arbitrary: w kept out w')
  case (Cons wt ws)
  obtain sat wt' w1 where s: "waiter_satisfied pr wt w = (sat, wt', w1)" using prod_cases3 by blast
  obtain kept1 out1 w2 where p: "partition_waiters pr ws w1 = (kept1, out1, w2)" using prod_cases3 by blast
  note IH = Cons.IH [OF p] and S = waiter_satisfied_spec [OF assms(1) s]
  have "dw_on_complete wt' = dw_on_complete wt" using S by (simp add: same_request_def)
  with Cons.prems s p IH S show ?case by (cases sat) auto
qed simp

lemma ExtractSatisfied_spec:
  assumes "followers_ok pr" "ExtractSatisfied pr w = (out, pr', w')"
  shows "\<exists>ws. pr' = pr\<lparr>pr_waiters := ws, pr_pending_waiters := length ws\<rparr> \<and>
    mset (map dw_on_complete (pr_waiters pr)) = mset (map dw_on_complete ws) + mset (map dw_on_complete out) \<and>
    (\<forall>wt' \<in> set out. \<exists>wt \<in> set (pr_waiters pr). same_request wt wt' \<and> acknowledged pr wt)"
proof (cases "pr_waiters pr = []")
  case True
  then show ?thesis using assms(2) by (auto simp: ExtractSatisfied_def PublishWaiterCount_def)
next
  case False
  obtain kept out1 w1 where p: "partition_waiters pr (pr_waiters pr) w = (kept, out1, w1)" using prod_cases3 by blast
  with False assms(2) have "out1 = out" "pr' = pr\<lparr>pr_waiters := kept, pr_pending_waiters := length kept\<rparr>"
    by (auto simp: ExtractSatisfied_def PublishWaiterCount_def)
  with partition_waiters_spec [OF assms(1) p] show ?thesis by blast
qed

section \<open>Operations as steps\<close>

text \<open>
  A step registers the waiters \<open>adds\<close> and makes the calls \<open>cs\<close>.  The log grows by appends and
  flushes.
\<close>

inductive replica_step :: "partition_replica \<Rightarrow> durability_waiter list \<Rightarrow> completion list \<Rightarrow> partition_replica \<Rightarrow> bool" where
  log_grows: "log_step (pr_log pr) log' \<Longrightarrow> replica_step pr [] [] (pr\<lparr>pr_log := log'\<rparr>)"
| leader_append: "OnLeaderAppend pr w = (cs, pr', w') \<Longrightarrow> replica_step pr [] cs pr'"
| follower_progress: "OnFollowerProgress b leo fl now pr w = (wm, cs, pr', w') \<Longrightarrow> replica_step pr [] cs pr'"
| out_of_sync: "MarkFollowerOutOfSync b pr w = (cs, pr', w') \<Longrightarrow> replica_step pr [] cs pr'"
| add_waiter: "AddWaiter wt pr w = (cs, pr', w') \<Longrightarrow> replica_step pr [wt] cs pr'"
| sweep: "CompleteSatisfiedWaiters pr w = (n, cs, pr', w') \<Longrightarrow> replica_step pr [] cs pr'"
| expire: "ExpireWaiters now pr = (n, cs, pr') \<Longrightarrow> replica_step pr [] cs pr'"
| fail_all: "FailAllWaiters e pr = (n, cs, pr') \<Longrightarrow> e \<noteq> kOk \<Longrightarrow> replica_step pr [] cs pr'"
| assign: "replica_step pr [] [] (SetAssignment a pr)"

text \<open>What every operation that completes waiters has in common.\<close>

definition completes ::
  "partition_replica \<Rightarrow> durability_waiter list \<Rightarrow> completion list \<Rightarrow> partition_replica \<Rightarrow> bool" where
  "completes pr adds cs pr' \<longleftrightarrow>
     mset (map dw_on_complete (pr_waiters pr @ adds)) = mset (map dw_on_complete (pr_waiters pr')) + mset (map cp_callback cs) \<and>
     (\<forall>c \<in> set cs. cp_status c = kOk \<longrightarrow>
        (\<exists>wt \<in> set (pr_waiters pr @ adds). dw_on_complete wt = cp_callback c \<and> acknowledged pr' wt)) \<and>
     pr_high_water_mark pr \<le> pr_high_water_mark pr' \<and>
     (pr_high_water_mark pr' = pr_high_water_mark pr \<or> pr_high_water_mark pr' \<le> pl_log_end_offset (pr_log pr'))"

lemma Extract_completes:
  assumes ok: "followers_ok pr1" and pr1: "pr_waiters pr1 = pr_waiters pr @ adds" "pr_high_water_mark pr \<le> pr_high_water_mark pr1"
      "pr_high_water_mark pr1 = pr_high_water_mark pr \<or> pr_high_water_mark pr1 \<le> pl_log_end_offset (pr_log pr1)"
    and run: "ExtractSatisfied pr1 w = (out, pr', w')"
  shows "completes pr adds (complete kOk pr' out) pr'" "followers_ok pr'" "pr_pending_waiters pr' = length (pr_waiters pr')"
    "pr_log pr' = pr_log pr1" "pr_self pr' = pr_self pr1" "pr_assignment pr' = pr_assignment pr1"
proof -
  from ExtractSatisfied_spec [OF ok run] obtain ws where
    pr': "pr' = pr1\<lparr>pr_waiters := ws, pr_pending_waiters := length ws\<rparr>"
    and ms: "mset (map dw_on_complete (pr_waiters pr1)) = mset (map dw_on_complete ws) + mset (map dw_on_complete out)"
    and sat: "\<forall>wt' \<in> set out. \<exists>wt \<in> set (pr_waiters pr1). same_request wt wt' \<and> acknowledged pr1 wt" by blast
  have ack: "acknowledged pr' wt = acknowledged pr1 wt" for wt
    by (simp add: pr' acknowledged_def persisted_replicas_def split: ack_mode.split)
  have "map cp_callback (complete kOk pr' out) = map dw_on_complete out" by (simp add: complete_def comp_def)
  then have "mset (map dw_on_complete (pr_waiters pr @ adds)) =
      mset (map dw_on_complete (pr_waiters pr')) + mset (map cp_callback (complete kOk pr' out))"
    using ms pr1(1) by (simp add: pr')
  moreover have "\<exists>wt \<in> set (pr_waiters pr @ adds). dw_on_complete wt = cp_callback c \<and> acknowledged pr' wt"
    if "c \<in> set (complete kOk pr' out)" for c
  proof -
    from that obtain wt' where "wt' \<in> set out" "cp_callback c = dw_on_complete wt'" by (auto simp: complete_def)
    with sat pr1(1) ack show ?thesis by (metis same_request_def)
  qed
  ultimately show "completes pr adds (complete kOk pr' out) pr'"
    unfolding completes_def using pr1(2,3) by (simp add: pr')
  show "followers_ok pr'" "pr_pending_waiters pr' = length (pr_waiters pr')" "pr_log pr' = pr_log pr1" "pr_self pr' = pr_self pr1"
    "pr_assignment pr' = pr_assignment pr1" using ok by (simp_all add: pr' followers_ok_def)
qed

lemma Recompute_ok:
  "followers_ok (RecomputeHighWaterMark pr) = followers_ok pr" "pr_waiters (RecomputeHighWaterMark pr) = pr_waiters pr"
  "pr_log (RecomputeHighWaterMark pr) = pr_log pr" "pr_high_water_mark pr \<le> pr_high_water_mark (RecomputeHighWaterMark pr)"
  "pr_high_water_mark (RecomputeHighWaterMark pr) = pr_high_water_mark pr \<or>
   pr_high_water_mark (RecomputeHighWaterMark pr) \<le> pl_log_end_offset (pr_log (RecomputeHighWaterMark pr))"
  using fold_min_le [of "in_sync_ends (pr_followers pr)" "pl_log_end_offset (pr_log pr)"]
  by (simp_all add: RecomputeHighWaterMark_def followers_ok_def Let_def)

text \<open>The state that every operation keeps.\<close>

definition replica_inv :: "partition_replica \<Rightarrow> bool" where
  "replica_inv pr \<longleftrightarrow> followers_ok pr \<and> pr_pending_waiters pr = length (pr_waiters pr) \<and>
     pr_high_water_mark pr \<le> pl_log_end_offset (pr_log pr) \<and> (\<exists>rs. log_holds (pr_log pr) rs)"

lemma Recompute_Extract:
  assumes inv: "replica_inv pr" and pr0: "followers_ok pr0" "pr_waiters pr0 = pr_waiters pr" "pr_log pr0 = pr_log pr"
      "pr_high_water_mark pr0 = pr_high_water_mark pr"
    and run: "ExtractSatisfied (RecomputeHighWaterMark pr0) w = (out, pr', w')"
  shows "completes pr [] (complete kOk pr' out) pr' \<and> replica_inv pr'"
proof -
  have "completes pr [] (complete kOk pr' out) pr'" "followers_ok pr'" "pr_pending_waiters pr' = length (pr_waiters pr')"
    "pr_log pr' = pr_log (RecomputeHighWaterMark pr0)"
    using Extract_completes [OF _ _ _ _ run, of pr "[]"] Recompute_ok [of pr0] pr0 by simp_all
  moreover from this inv have "pr_high_water_mark pr' \<le> pl_log_end_offset (pr_log pr')"
    using Recompute_ok(3) [of pr0] pr0(3) by (auto simp: completes_def replica_inv_def)
  ultimately show ?thesis using inv Recompute_ok(3) [of pr0] pr0(3) by (simp add: replica_inv_def)
qed

lemma om_put_followers_ok:
  assumes "followers_ok pr" "om_get b (pr_followers pr) = Some st"
  shows "followers_ok (pr\<lparr>pr_followers := om_put b st' (pr_followers pr)\<rparr>)"
proof -
  have "b \<in> fst ` set (pr_followers pr)" using assms(2) by (auto simp: om_get_def dest: map_of_SomeD intro: rev_image_eqI)
  moreover have "fst ` set (om_put b st' (pr_followers pr)) = insert b (fst ` set (pr_followers pr))"
    using om_put_keys [of b st' "pr_followers pr"] by simp
  ultimately show ?thesis using assms(1) by (auto simp: followers_ok_def om_wf_put)
qed

lemma SetAssignment_followers_ok:
  assumes "followers_ok pr"
  shows "followers_ok (SetAssignment a pr)"
  using assms unfolding SetAssignment_def Let_def followers_ok_def
  by (auto simp: add_followers_keys HasReplica_def intro!: add_followers_wf om_wf_filter)

lemma log_step_end:
  assumes "log_step log log'" "log_holds log rs"
  shows "pl_log_end_offset log \<le> pl_log_end_offset log' \<and> (\<exists>rs'. log_holds log' rs')"
proof -
  obtain rs' where "prefix rs rs'" "log_holds log' rs'" "pl_log_start_offset log' = pl_log_start_offset log"
    using log_step_holds [OF assms] by blast
  moreover from this assms(2) have "pl_log_end_offset log = pl_log_start_offset log + int (length rs)"
    "pl_log_end_offset log' = pl_log_start_offset log' + int (length rs')"
    unfolding log_holds_def log_inv_def by (auto simp del: length_concat)
  moreover from \<open>prefix rs rs'\<close> have "length rs \<le> length rs'" by (rule prefix_length_le)
  ultimately show ?thesis by auto
qed

lemma dropped_completes:
  assumes "replica_inv pr" "mset (pr_waiters pr) = mset ws + mset out" "e \<noteq> kOk"
    "pr' = PublishWaiterCount (pr\<lparr>pr_waiters := ws\<rparr>)"
  shows "completes pr [] (complete e pr' out) pr' \<and> replica_inv pr'"
proof -
  have "map cp_callback (complete e pr' out) = map dw_on_complete out" by (simp add: complete_def comp_def)
  moreover have "mset (map dw_on_complete (pr_waiters pr)) = mset (map dw_on_complete ws) + mset (map dw_on_complete out)"
    using arg_cong [OF assms(2), of "image_mset dw_on_complete"] by simp
  moreover have "\<forall>c \<in> set (complete e pr' out). cp_status c = e" by (simp add: complete_def)
  ultimately show ?thesis
    using assms(1,3) by (auto simp: assms(4) completes_def replica_inv_def followers_ok_def PublishWaiterCount_def)
qed

lemma OnFollowerProgress_inv:
  assumes inv: "replica_inv pr" and run: "OnFollowerProgress b leo fl now pr w = (wm, cs, pr', w')"
  shows "completes pr [] cs pr' \<and> replica_inv pr'"
proof (cases "om_get b (pr_followers pr)")
  case None
  with run inv show ?thesis by (simp add: OnFollowerProgress_def completes_def)
next
  case (Some st)
  with run obtain st' out where
    "ExtractSatisfied (RecomputeHighWaterMark (pr\<lparr>pr_followers := om_put b st' (pr_followers pr)\<rparr>)) w = (out, pr', w')"
    "cs = complete kOk pr' out" by (auto simp: OnFollowerProgress_def Let_def split: prod.splits)
  with Recompute_Extract [OF inv om_put_followers_ok [OF _ Some]] inv show ?thesis by (auto simp: replica_inv_def)
qed

lemma MarkFollowerOutOfSync_inv:
  assumes inv: "replica_inv pr" and run: "MarkFollowerOutOfSync b pr w = (cs, pr', w')"
  shows "completes pr [] cs pr' \<and> replica_inv pr'"
proof (cases "\<exists>st. om_get b (pr_followers pr) = Some st \<and> fs_in_sync st")
  case False
  with run inv show ?thesis by (auto simp: MarkFollowerOutOfSync_def completes_def split: option.splits)
next
  case True
  then obtain st where st: "om_get b (pr_followers pr) = Some st" "fs_in_sync st" by blast
  with run obtain st' out where
    "ExtractSatisfied (RecomputeHighWaterMark (pr\<lparr>pr_followers := om_put b st' (pr_followers pr)\<rparr>)) w = (out, pr', w')"
    "cs = complete kOk pr' out" by (auto simp: MarkFollowerOutOfSync_def Let_def split: prod.splits)
  with Recompute_Extract [OF inv om_put_followers_ok [OF _ st(1)]] inv show ?thesis by (auto simp: replica_inv_def)
qed

lemma replica_step_inv:
  assumes "replica_step pr adds cs pr'" "replica_inv pr"
  shows "completes pr adds cs pr' \<and> replica_inv pr'"
  using assms(1)
proof cases
  case (log_grows log')
  then show ?thesis
    using assms(2) log_step_end [of "pr_log pr" log'] by (fastforce simp: completes_def replica_inv_def followers_ok_def)
next
  case (leader_append w w')
  then obtain out where "ExtractSatisfied (RecomputeHighWaterMark pr) w = (out, pr', w')" "cs = complete kOk pr' out"
    by (auto simp: OnLeaderAppend_def split: prod.splits)
  with Recompute_Extract [OF assms(2)] assms(2) leader_append(1) show ?thesis by (auto simp: replica_inv_def)
next
  case (follower_progress b leo fl now w wm w')
  then show ?thesis using OnFollowerProgress_inv [OF assms(2)] by blast
next
  case (out_of_sync b w w')
  then show ?thesis using MarkFollowerOutOfSync_inv [OF assms(2)] by blast
next
  case (add_waiter wt w w')
  let ?pr1 = "pr\<lparr>pr_waiters := pr_waiters pr @ [wt]\<rparr>"
  from add_waiter obtain out where run: "ExtractSatisfied ?pr1 w = (out, pr', w')" "cs = complete kOk pr' out"
    by (auto simp: AddWaiter_def split: prod.splits)
  have "followers_ok ?pr1" using assms(2) by (simp add: replica_inv_def followers_ok_def)
  note E = Extract_completes [OF this _ _ _ run(1), of pr "[wt]"]
  then have "completes pr [wt] cs pr'" by (simp add: run(2))
  with E assms(2) add_waiter(1) show ?thesis by (auto simp: replica_inv_def completes_def)
next
  case (sweep w n w')
  then obtain out where "ExtractSatisfied (RecomputeHighWaterMark pr) w = (out, pr', w')" "cs = complete kOk pr' out"
    by (auto simp: CompleteSatisfiedWaiters_def split: prod.splits)
  with Recompute_Extract [OF assms(2)] assms(2) sweep(1) show ?thesis by (auto simp: replica_inv_def)
next
  case (expire now n)
  have "mset (pr_waiters pr) = mset (filter (\<lambda>wt. dw_deadline_ms wt > now) (pr_waiters pr)) +
      mset (filter (\<lambda>wt. \<not> dw_deadline_ms wt > now) (pr_waiters pr))" by (simp flip: multiset_partition)
  from dropped_completes [OF assms(2) this] expire show ?thesis by (auto simp: ExpireWaiters_def Let_def)
next
  case (fail_all e n)
  with dropped_completes [OF assms(2), of "[]" "pr_waiters pr" e] show ?thesis by (auto simp: FailAllWaiters_def Let_def)
next
  case (assign a)
  have "pr_waiters (SetAssignment a pr) = pr_waiters pr" "pr_log (SetAssignment a pr) = pr_log pr"
    "pr_high_water_mark (SetAssignment a pr) = pr_high_water_mark pr"
    "pr_pending_waiters (SetAssignment a pr) = pr_pending_waiters pr" by (simp_all add: SetAssignment_def Let_def)
  with assign assms(2) show ?thesis using SetAssignment_followers_ok by (auto simp: completes_def replica_inv_def)
qed

section \<open>Runs\<close>

inductive replica_run :: "partition_replica \<Rightarrow> durability_waiter list \<Rightarrow> completion list \<Rightarrow> partition_replica \<Rightarrow> bool" where
  run_start: "replica_run pr [] [] pr"
| run_step: "replica_run pr adds cs pr1 \<Longrightarrow> replica_step pr1 adds' cs' pr2 \<Longrightarrow> replica_run pr (adds @ adds') (cs @ cs') pr2"

lemma NewPartitionReplica_inv:
  assumes "log_reachable options log"
  shows "replica_inv (NewPartitionReplica tp a self log)"
proof -
  obtain rs where rs: "log_holds log rs" using log_reachable_holds [OF assms] by blast
  then have "0 \<le> pl_log_end_offset log" by (auto simp: log_holds_def log_inv_def)
  with rs show ?thesis
    by (auto simp: replica_inv_def NewPartitionReplica_def Let_def followers_ok_def add_followers_keys
        intro!: add_followers_wf)
qed

lemma replica_run_inv:
  assumes "replica_run pr adds cs pr'" "replica_inv pr"
  shows "replica_inv pr' \<and> pr_high_water_mark pr \<le> pr_high_water_mark pr' \<and>
    mset (map dw_on_complete (pr_waiters pr @ adds)) = mset (map dw_on_complete (pr_waiters pr')) + mset (map cp_callback cs)"
  using assms
proof induction
  case (run_step pr adds cs pr1 adds' cs' pr2)
  have sum: "W + a = W1 + c \<Longrightarrow> W1 + a' = W2 + c' \<Longrightarrow> W + (a + a') = W2 + (c + c')"
    for W W1 W2 a a' c c' :: "nat multiset" by (metis (no_types) union_assoc union_commute)
  from run_step.IH [OF run_step.prems] replica_step_inv [OF run_step.hyps(2)] show ?case
    by (auto simp: completes_def intro!: sum)
qed simp


definition sample_assignment :: partition_assignment where
  "sample_assignment = \<lparr>pa_index = 0, pa_leader = 1, pa_leader_epoch = 0, pa_replicas = [1, 2, 3], pa_in_sync_replicas = [1, 2, 3]\<rparr>"

definition sample_replica :: partition_replica where
  "sample_replica = NewPartitionReplica (TopicPartition ''t'' 0) sample_assignment 1 (fst sample_log)"

definition sample_waiter :: durability_waiter where
  "sample_waiter = \<lparr>dw_required_offset = 1, dw_mode = AckQuorum, dw_deadline_ms = 10, dw_on_complete = 5, dw_added_nanos = 0,
     dw_local_flush_nanos = 0\<rparr>"



lemma sample_log_end: "pl_log_end_offset (fst sample_log) = 2"
  using sample_log_appended by (auto simp: log_inv_def simp del: length_concat)

lemma sample_followers: "pr_followers sample_replica = [(2, NewFollower 2), (3, NewFollower 3)]" "pr_self sample_replica = 1"
  "pr_assignment sample_replica = sample_assignment" "pr_log sample_replica = fst sample_log"
  "pr_waiters sample_replica = []" "pr_high_water_mark sample_replica = 0"
  by (simp_all add: sample_replica_def NewPartitionReplica_def sample_assignment_def om_get_def Let_def)



end
