(* ===== verification/PL_Metadata_Props.thy ===== *)
theory PL_Metadata_Props
  imports PL_Metadata
begin

text \<open>
  Properties of the cluster metadata: where the replicas of a new topic are placed, and that the
  metadata file gives back what was saved.
\<close>

section \<open>Placement\<close>

lemma to_i16_le: "to_i16 n \<le> int n" "to_i16 n \<le> 32767"
proof -
  have "- 32768 \<le> uint (word_of_nat n :: 16 word)" using uint_ge_0 [of "word_of_nat n :: 16 word"] by linarith
  then have "sint (word_of_nat n :: 16 word) \<le> uint (word_of_nat n :: 16 word)"
    by (simp add: sint_uint signed_take_bit_int_less_eq_self_iff)
  also have "uint (word_of_nat n :: 16 word) \<le> int n"
    by (simp add: unsigned_of_nat take_bit_eq_mod zmod_le_nonneg_dividend flip: of_nat_mod)
  finally show "to_i16 n \<le> int n" by (simp add: to_i16_def)
  show "to_i16 n \<le> 32767" using sint_less [of "word_of_nat n :: 16 word"] by (simp add: to_i16_def)
qed

lemma mod_shift_less:
  fixes a b n :: nat
  assumes "(c + a) mod n = (c + b) mod n" "a \<le> b" "b < n + a"
  shows "a = b"
proof -
  have "n dvd (c + b) - (c + a)" using assms(1,2) mod_eq_dvd_iff_nat [of "c + a" "c + b" n] by auto
  then have "n dvd b - a" by simp
  moreover have "b - a < n" using assms(2,3) by simp
  ultimately have "b - a = 0" using nat_dvd_not_less by blast
  with assms(2) show ?thesis by simp
qed

lemma mod_shift_inj:
  fixes a b n :: nat
  shows "(c + a) mod n = (c + b) mod n \<Longrightarrow> a < n \<Longrightarrow> b < n \<Longrightarrow> a = b"
  using mod_shift_less [of c a n b] mod_shift_less [of c b n a] by (cases "a \<le> b") auto

lemma place_partition_replicas:
  assumes ids: "distinct ids" "ids \<noteq> []" and r: "0 < r" "r \<le> length ids"
    and a_def: "a = place_partition ids r off p"
  shows "distinct (pa_replicas a)" "length (pa_replicas a) = r" "set (pa_replicas a) \<subseteq> set ids"
    "pa_leader a = hd (pa_replicas a)" "pa_in_sync_replicas a = pa_replicas a" "pa_index a = int p"
    "pa_leader_epoch a = 0" "pa_leader a = ids ! ((p + off) mod length ids)"
proof -
  have reps: "pa_replicas a = map (\<lambda>r. ids ! ((p + r + off) mod length ids)) [0..<r]"
    by (simp add: a_def place_partition_def Let_def)
  have "inj_on (\<lambda>r. ids ! ((p + r + off) mod length ids)) {0..<r}"
  proof (rule inj_onI)
    fix x y assume "x \<in> {0..<r}" "y \<in> {0..<r}"
      "ids ! ((p + x + off) mod length ids) = ids ! ((p + y + off) mod length ids)"
    moreover from this have "(p + x + off) mod length ids = (p + y + off) mod length ids"
      using ids by (simp add: nth_eq_iff_index_eq)
    ultimately show "x = y" using mod_shift_inj [of "p + off" x "length ids" y] r by (simp add: algebra_simps)
  qed
  then show "distinct (pa_replicas a)" by (simp add: reps distinct_map)
  show "length (pa_replicas a) = r" by (simp add: reps)
  show "set (pa_replicas a) \<subseteq> set ids" using ids(2) by (auto simp: reps)
  show "pa_leader a = hd (pa_replicas a)" "pa_in_sync_replicas a = pa_replicas a" "pa_index a = int p" "pa_leader_epoch a = 0"
    by (simp_all add: a_def place_partition_def Let_def)
  then show "pa_leader a = ids ! ((p + off) mod length ids)" using r by (simp add: reps hd_map upt_rec)
qed


definition sample_cluster :: cluster_metadata where
  "sample_cluster =
     snd (SetBrokersFromSpec [''2@b:3'', ''1@a:2'', ''7@c:4''] EmptyMetadata)"

definition sample_topic :: topic_config where
  "sample_topic =
     \<lparr>tc_name = ''t'', tc_partition_count = 2, tc_replication_factor = 2, tc_retention_ms = - 1,
      tc_segment_bytes = - 1, tc_compression = 0\<rparr>"

lemma sample_cluster_brokers: "map ep_id (cm_brokers sample_cluster) = [1, 2, 7]"
  by code_simp

lemma sample_created:
  obtains d m' where "CreateTopic sample_topic sample_cluster = (Inr d, True, m')"
    "cm_topics m' = [(''t'', d)]" "td_config d = sample_topic" "td_partitions d = ComputeAssignments sample_topic sample_cluster"
proof -
  have v: "IsValidTopicName ''t''" by code_simp
  have b: "cm_brokers sample_cluster \<noteq> []" "length (cm_brokers sample_cluster) = 3"
    using sample_cluster_brokers by (auto simp: map_eq_Cons_conv)
  have i: "to_i16 3 = 3" by (simp add: to_i16_def)
  have e: "cm_topics sample_cluster = []" by code_simp
  let ?d = "\<lparr>td_config = sample_topic, td_partitions = ComputeAssignments sample_topic sample_cluster\<rparr>"
  have "tc_name sample_topic = ''t''" "tc_partition_count sample_topic = 2" "tc_replication_factor sample_topic = 2"
    by (simp_all add: sample_topic_def)
  then show thesis
    using v b i e by (intro that [of ?d "sample_cluster\<lparr>cm_topics := [(''t'', ?d)]\<rparr>"]) (simp_all add: CreateTopic_def Let_def)
qed


section \<open>The metadata file\<close>

lemma takeWhile_until: "d \<notin> set x \<Longrightarrow> takeWhile (\<lambda>c. c \<noteq> d) (x @ d # rest) = x"
  by (induction x) auto

lemma find_char_join:
  assumes "d \<notin> set x"
  shows "find_char d (x @ d # rest) = Some (length x)" "find_char d x = None"
  using assms by (simp_all add: find_char_def takeWhile_until)

lemma Split_join:
  "xs \<noteq> [] \<Longrightarrow> \<forall>x \<in> set xs. d \<notin> set x \<Longrightarrow> Split d (join_fields d xs) = xs"
proof (induction d xs rule: join_fields.induct)
  case (2 d x)
  then show ?case by (simp add: Split.simps [of d x] find_char_join)
next
  case (3 d x y xs)
  then show ?case by (simp add: Split.simps [of d "x @ d # join_fields d (y # xs)"] find_char_join)
qed simp

lemma getlines_lines:
  "\<forall>l \<in> set ls. newline \<notin> set l \<Longrightarrow> getlines (concat (map (\<lambda>l. l @ [newline]) ls)) = ls"
proof (induction ls)
  case Nil
  then show ?case by (simp add: getlines.simps)
next
  case (Cons l ls)
  then have "takeWhile (\<lambda>c. c \<noteq> newline) (l @ newline # concat (map (\<lambda>l. l @ [newline]) ls)) = l"
    by (intro takeWhile_until) simp
  with Cons show ?case
    by (simp add: getlines.simps [of "l @ newline # concat (map (\<lambda>l. l @ [newline]) ls)"] Let_def)
qed

text \<open>A printed number holds neither separator, and is read back.\<close>

lemma to_string_chars: "c \<in> set (to_string i) \<Longrightarrow> is_digit c \<or> c = CHR ''-''"
  using nat_digits_digits by (auto simp: to_string_def split: if_splits)

lemma to_string_plain [simp]:
  "tab \<notin> set (to_string i)" "newline \<notin> set (to_string i)" "CHR '','' \<notin> set (to_string i)" "to_string i \<noteq> []"
  using to_string_chars [of tab i] to_string_chars [of newline i] to_string_chars [of "CHR '',''" i]
  by (auto simp: is_digit_def to_string_def)

lemma ParseNumber_to_string [simp]: "lo \<le> v \<Longrightarrow> v \<le> hi \<Longrightarrow> ParseNumber lo hi (to_string v) = Some v"
  using from_chars_to_string [of lo v hi "[]"] by (simp add: ParseNumber_def)

lemma topic_name_plain:
  assumes "IsValidTopicName n"
  shows "tab \<notin> set n" "newline \<notin> set n"
proof -
  have "list_all topic_char n" using assms by (simp add: IsValidTopicName_def split: if_splits)
  moreover have "\<not> topic_char tab" "\<not> topic_char newline" by (simp_all add: topic_char_def less_eq_char_def)
  ultimately show "tab \<notin> set n" "newline \<notin> set n" by (auto simp: list_all_iff)
qed

text \<open>The fields are in the ranges of their C++ types, and each topic is stored under its name.\<close>

definition config_ok :: "topic_config \<Rightarrow> bool" where
  "config_ok c \<longleftrightarrow> IsValidTopicName (tc_name c) \<and> is_i32 (tc_partition_count c) \<and> is_i16 (tc_replication_factor c) \<and>
     is_i64 (tc_retention_ms c) \<and> is_i64 (tc_segment_bytes c)"

definition assignment_ok :: "partition_assignment \<Rightarrow> bool" where
  "assignment_ok a \<longleftrightarrow> is_i32 (pa_index a) \<and> is_i32 (pa_leader a) \<and> is_i64 (pa_leader_epoch a) \<and> list_all is_i32 (pa_replicas a)"

definition topics_ok :: "(string, topic_descriptor) omap \<Rightarrow> bool" where
  "topics_ok ts \<longleftrightarrow> om_wf ts \<and>
     list_all (\<lambda>(n, d). n = tc_name (td_config d) \<and> config_ok (td_config d) \<and> dense (td_partitions d) \<and>
       list_all assignment_ok (td_partitions d)) ts"

text \<open>What a restart forgets: every replica is taken to be in sync.\<close>

definition all_in_sync :: "partition_assignment \<Rightarrow> partition_assignment" where
  "all_in_sync a = a\<lparr>pa_in_sync_replicas := pa_replicas a\<rparr>"

definition forget_in_sync :: "topic_descriptor \<Rightarrow> topic_descriptor" where
  "forget_in_sync d = d\<lparr>td_partitions := map all_in_sync (td_partitions d)\<rparr>"

lemma join_fields_chars: "c \<noteq> d \<Longrightarrow> \<forall>x \<in> set xs. c \<notin> set x \<Longrightarrow> c \<notin> set (join_fields d xs)"
  by (induction d xs rule: join_fields.induct) auto

lemma parse_replicas_join:
  assumes "list_all is_i32 ids"
  shows "parse_replicas (join_fields CHR '','' (map to_string ids)) = ids"
proof (cases ids)
  case Nil
  then show ?thesis by (simp add: parse_replicas_def Split.simps find_char_def map_filter_simps)
next
  case (Cons i is')
  have "List.map_filter (\<lambda>r. if r \<noteq> [] then ParseI32 r else None) (map to_string js) = js" if "list_all is_i32 js" for js
    using that by (induction js) (simp_all add: map_filter_simps is_i32_def)
  note ids = this [OF assms]
  have "Split CHR '','' (join_fields CHR '','' (map to_string ids)) = map to_string ids"
    using Cons by (intro Split_join) auto
  then show ?thesis unfolding parse_replicas_def using ids by metis
qed

lemma load_topic_line:
  assumes "config_ok c"
  shows "load_line (topic_line c) L = Inr (om_put (tc_name c) \<lparr>td_config = c, td_partitions = []\<rparr> L)"
proof -
  let ?fs = "[''topic'', tc_name c, to_string (tc_partition_count c), to_string (tc_replication_factor c),
       to_string (tc_retention_ms c), to_string (tc_segment_bytes c), to_string (uint (tc_compression c))]"
  have sp: "Split tab (topic_line c) = ?fs"
    unfolding topic_line_def using assms by (intro Split_join) (auto simp: config_ok_def topic_name_plain)
  have "uint (tc_compression c) < 256" using uint_lt2p [of "tc_compression c"] by simp
  then have co: "ParseI32 (to_string (uint (tc_compression c))) = Some (uint (tc_compression c))"
    by (intro ParseNumber_to_string) (auto intro: order_trans [of _ 0])
  have "parse_topic ?fs = Some c"
    using assms co by (cases c) (simp add: parse_topic_def config_ok_def is_i32_def is_i16_def is_i64_def)
  moreover have "topic_line c \<noteq> []" by (simp add: topic_line_def)
  ultimately show ?thesis by (simp add: load_line_def sp)
qed

lemma load_partition_line:
  assumes "assignment_ok a" "IsValidTopicName n" "om_get n L = Some d"
  shows "load_line (partition_line n a) L = Inr (om_put n (d\<lparr>td_partitions := td_partitions d @ [all_in_sync a]\<rparr>) L)"
proof -
  let ?fs = "[''partition'', n, to_string (pa_index a), to_string (pa_leader a), to_string (pa_leader_epoch a),
       join_fields CHR '','' (map to_string (pa_replicas a))]"
  have "tab \<notin> set (join_fields CHR '','' (map to_string js))" for js
    by (rule join_fields_chars) auto
  then have sp: "Split tab (partition_line n a) = ?fs"
    unfolding partition_line_def using assms(2) by (intro Split_join) (auto simp: topic_name_plain)
  have "parse_partition ?fs = Some (all_in_sync a)"
    using assms(1) by (cases a)
      (simp add: parse_partition_def assignment_ok_def is_i32_def is_i64_def all_in_sync_def parse_replicas_join Let_def)
  moreover have "partition_line n a \<noteq> []" by (simp add: partition_line_def)
  ultimately show ?thesis using assms(3) by (simp add: load_line_def sp)
qed

lemma om_put_put [simp]: "om_put k v (om_put k u m) = om_put k v m"
  by (induction k u m rule: om_put.induct) auto

lemma load_lines_append:
  "load_lines (xs @ ys) L = (case load_lines xs L of Inl e \<Rightarrow> Inl e | Inr L' \<Rightarrow> load_lines ys L')"
  by (induction xs arbitrary: L) (auto split: sum.splits)

lemma load_partition_lines:
  assumes "list_all assignment_ok as" "IsValidTopicName n"
  shows "load_lines (map (partition_line n) as) (om_put n (d\<lparr>td_partitions := ps\<rparr>) L) =
    Inr (om_put n (d\<lparr>td_partitions := ps @ map all_in_sync as\<rparr>) L)"
  using assms(1)
proof (induction as arbitrary: ps)
  case (Cons a as)
  have "load_line (partition_line n a) (om_put n (d\<lparr>td_partitions := ps\<rparr>) L) =
      Inr (om_put n (d\<lparr>td_partitions := ps @ [all_in_sync a]\<rparr>) L)"
    using load_partition_line [OF _ assms(2), of a "om_put n (d\<lparr>td_partitions := ps\<rparr>) L"] Cons.prems
    by (simp add: om_get_put)
  with Cons show ?case by simp
qed simp

lemma load_topic_lines:
  assumes "config_ok (td_config d)" "list_all assignment_ok (td_partitions d)"
  shows "load_lines (topic_lines d) L = Inr (om_put (tc_name (td_config d)) (forget_in_sync d) L)"
proof -
  have "\<lparr>td_config = td_config d, td_partitions = []\<rparr> = d\<lparr>td_partitions := []\<rparr>" by (cases d) simp
  with load_topic_line [OF assms(1)] have "load_line (topic_line (td_config d)) L =
      Inr (om_put (tc_name (td_config d)) (d\<lparr>td_partitions := []\<rparr>) L)" by (simp only:)
  then show ?thesis
    using assms load_partition_lines [of "td_partitions d" "tc_name (td_config d)" "[]" d L]
    by (simp add: topic_lines_def config_ok_def forget_in_sync_def)
qed

lemma load_saved_topics:
  assumes "topics_ok (ts0 @ ts)"
  shows "load_lines (concat (map (\<lambda>(_, d). topic_lines d) ts)) (map (\<lambda>(n, d). (n, forget_in_sync d)) ts0) =
    Inr (map (\<lambda>(n, d). (n, forget_in_sync d)) (ts0 @ ts))"
  using assms
proof (induction ts arbitrary: ts0)
  case (Cons t ts)
  obtain n d where t: "t = (n, d)" by fastforce
  let ?L = "map (\<lambda>(n, d). (n, forget_in_sync d)) ts0"
  have ok: "n = tc_name (td_config d)" "config_ok (td_config d)" "list_all assignment_ok (td_partitions d)"
    using Cons.prems by (simp_all add: topics_ok_def t)
  have "\<forall>x \<in> set (map fst ?L). x < n"
    using Cons.prems by (auto simp: topics_ok_def om_wf_def t sorted_wrt_append)
  then have "om_put n (forget_in_sync d) ?L = ?L @ [(n, forget_in_sync d)]" by (rule om_put_above)
  then have "load_lines (topic_lines d) ?L = Inr (map (\<lambda>(n, d). (n, forget_in_sync d)) (ts0 @ [t]))"
    using load_topic_lines [OF ok(2,3)] ok(1) by (simp add: t)
  with Cons.IH [of "ts0 @ [t]"] Cons.prems show ?case by (simp add: load_lines_append t)
qed simp

lemma saved_lines_plain:
  assumes "topics_ok ts" "l \<in> set (concat (map (\<lambda>(_, d). topic_lines d) ts))"
  shows "newline \<notin> set l"
proof -
  from assms obtain n d where d: "(n, d) \<in> set ts" "l \<in> set (topic_lines d)" by auto
  then have "IsValidTopicName (tc_name (td_config d))"
    using assms(1) by (auto simp: topics_ok_def list_all_iff config_ok_def)
  note plain = topic_name_plain(2) [OF this]
  have "newline \<notin> set (join_fields CHR '','' (map to_string js))" for js
    by (rule join_fields_chars) auto
  with d(2) plain show ?thesis
    unfolding topic_lines_def topic_line_def partition_line_def by (auto intro!: join_fields_chars)
qed

lemma sort_dense:
  assumes "dense ps"
  shows "sort_key pa_index ps = ps"
proof (rule sort_key_id_if_sorted)
  show "sorted (map pa_index ps)"
    using assms by (auto simp: dense_def list_all_iff sorted_iff_nth_mono)
qed



end
