(* ===== verification/PL_Recovery.thy ===== *)
theory PL_Recovery
  imports PL_Log_Props
begin

text \<open>
  Recovery of a segment after a crash (\<open>Segment::Recover\<close> in \<open>src/storage/segment.cc\<close>): the scan in
  chunks of one mebibyte finds exactly the records that are whole, whatever lies behind them, and
  the segment is left with its invariant.  A record larger than a chunk makes the scan repeat the
  same round for ever.
\<close>

section \<open>Parsing a record inside other bytes\<close>

lemma read_varuint_loop_in:
  assumes "read_varuint_loop r q shift acc n = Some (v, m)"
  shows "read_varuint_loop (a @ r @ b) (length a + q) shift acc n = Some (v, m)"
  using assms
proof (induction r q shift acc n rule: read_varuint_loop.induct)
  case (1 r q shift acc n)
  have inside: "shift \<le> 63 \<and> q + n < length r"
    using 1(2) by (subst (asm) read_varuint_loop.simps) (auto split: if_splits)
  then have nth: "(a @ r @ b) ! (length a + q + n) = r ! (q + n)"
    by (metis add.assoc nth_append nth_append_length_plus)
  show ?case
    using 1(1) [OF inside refl refl] 1(2) inside
    by (subst (asm) (2) read_varuint_loop.simps, subst read_varuint_loop.simps)
      (auto simp: nth Let_def split: if_splits)
qed

lemma ReadVarUInt_in:
  "ReadVarUInt r q = Some (v, m) \<Longrightarrow> ReadVarUInt (a @ r @ b) (length a + q) = Some (v, m)"
  unfolding ReadVarUInt_def by (rule read_varuint_loop_in)

definition sound_record :: "bytes \<Rightarrow> bool" where
  "sound_record r \<longleftrightarrow>
     (case ParseRecord r 0 True of Inl _ \<Rightarrow> False | Inr (v, n) \<Rightarrow> n = length r \<and> lengths_sane v)"

lemma sound_record_parse:
  assumes "sound_record r"
  obtains v where "ParseRecord r 0 True = Inr (v, length r)" "lengths_sane v"
  using assms by (auto simp: sound_record_def split: sum.splits prod.splits)

lemma sound_record_framed: "sound_record r \<Longrightarrow> framed r \<and> crc_good r"
  by (elim sound_record_parse) (use ParseRecord_framed(3,4) [of r 0 True] in fastforce)

lemma parse_spans_in:
  assumes "parse_spans r c e = Inr (n, k, w)" "snd k < 2 ^ 62" "snd w < 2 ^ 62" "length (a @ r @ b) < 2 ^ 62"
    and "e \<le> length r"
  shows "\<exists>k' w'. parse_spans (a @ r @ b) (length a + c) (length a + e) = Inr (n, k', w')"
proof -
  obtain kf c1 vl c2 where r: "ReadVarUInt r c = Some (kf, c1)" "ReadVarUInt r (c + c1) = Some (vl, c2)"
    using assms(1) by (auto simp: parse_spans_def split: option.splits)
  note in1 = ReadVarUInt_in [OF r(1), of a b] and in2 = ReadVarUInt_in [OF r(2), of a b]
  have b: "c + c1 + c2 \<le> length r" using ReadVarUInt_bound [OF r(2)] by simp
  have wr: "wrap64 m = m" if "m < 3 * 2 ^ 62" for m :: nat using that by simp
  have kl: "(if kf = 0 then 0 else unat (kf - 1)) < 2 ^ 62" "unat vl < 2 ^ 62"
    and sum: "c + c1 + c2 + (if kf = 0 then 0 else unat (kf - 1)) + unat vl = e" and n: "n = (kf = 0)"
    using assms(1-4) r b wr by (auto simp: parse_spans_def Let_def split: if_splits)
  show ?thesis
    using in1 in2 kl sum b assms(4,5)
    by (auto simp: parse_spans_def Let_def wr n add.assoc)
qed

lemma ParseRecord_in:
  assumes "sound_record r" "length (a @ r @ b) < 2 ^ 62"
  shows "\<exists>v. ParseRecord (a @ r @ b) (length a) True = Inr (v, length a + length r) \<and>
    rv_offset v = rec_offset r \<and> rv_timestamp v = PeekRecordTimestamp r"
proof -
  obtain v where p: "ParseRecord r 0 True = Inr (v, length r)" "lengths_sane v"
    using assms(1) by (rule sound_record_parse)
  have fr: "framed r" "crc_good r" using sound_record_framed [OF assms(1)] by simp_all
  then have l: "unat (LoadLe32 (r @ b)) + 4 = length r" "25 \<le> length r"
    by (simp_all add: framed_def LoadLe_append)
  have sp: "parse_spans r 25 (length r) = Inr (rv_key_is_null v, rv_key v, rv_value v)"
    using p(1) unfolding ParseRecord_Inr_iff Let_def add_0 by (elim conjE)
  obtain k' w' where sp': "parse_spans (a @ r @ b) (length a + 25) (length a + length r) =
      Inr (rv_key_is_null v, k', w')"
    using parse_spans_in [OF sp _ _ assms(2) order.refl] p(2) by (auto simp: lengths_sane_def)
  have crc: "LoadLe32 (drop 4 (r @ b)) = Crc32c (slice 8 (length r - 8) (r @ b))"
    using fr(2) l(2) by (simp add: crc_good_def slice_def LoadLe_append)
  let ?v = "\<lparr>rv_offset = rec_offset r, rv_timestamp = PeekRecordTimestamp r, rv_attributes = (r @ b) ! 24,
    rv_key_is_null = rv_key_is_null v, rv_key = k', rv_value = w'\<rparr>"
  have "ParseRecord (a @ r @ b) (length a) True = Inr (?v, length a + length r)"
    using l sp' crc fr(1)
    by (simp add: ParseRecord_Inr_iff Let_def framed_def rec_offset_def PeekRecordTimestamp_def LoadLe_append)
      (metis add_diff_cancel_right' diff_diff_left numeral_Bit0)
  then show ?thesis by (intro exI [of _ ?v]) simp
qed

text \<open>A record that is cut off is reported as incomplete.\<close>

lemma ParseRecord_cut:
  assumes "framed r" "m < length r"
  shows "ParseRecord (a @ take m r) (length a) True = Inl kOutOfRange"
proof (cases "m < 25")
  case True
  then show ?thesis using assms by (simp add: ParseRecord_def kRecordFixedPrefix_def)
next
  case False
  then have "LoadLe32 (take m r) = LoadLe32 r" by (simp add: LoadLe_take)
  then show ?thesis using assms False
    by (simp add: ParseRecord_def kRecordFixedPrefix_def Let_def framed_def)
qed


section \<open>What ends the records of a file\<close>

text \<open>
  The bytes behind the last record: too few for a record, a length no record has (the zeros of
  preallocation included), a record that is cut off or fails its checksum, or one with another
  offset.  \<open>fits_chunk\<close> says that this can be seen in the first chunk read there.
\<close>

definition ends_here :: "offset \<Rightarrow> bytes \<Rightarrow> bool" where
  "ends_here off tail \<longleftrightarrow> length tail < 25 \<or>
     (let len = unat (LoadLe32 tail) in
      len < 21 \<or> kMaxRecordBytes < len \<or> length tail < len + 4 \<or> \<not> crc_good (take (len + 4) tail) \<or>
      rec_offset tail \<noteq> off)"

definition fits_chunk :: "bytes \<Rightarrow> bool" where
  "fits_chunk tail \<longleftrightarrow> length tail \<le> kRecoveryChunkBytes \<or>
     (let len = unat (LoadLe32 tail) in len < 21 \<or> kMaxRecordBytes < len \<or> len + 4 \<le> kRecoveryChunkBytes)"

lemma ParseRecord_ends:
  assumes "ends_here off tail" "ParseRecord (a @ take m tail) (length a) True = Inr (v, n)"
  shows "rv_offset v \<noteq> off"
proof -
  define k where "k = n - length a"
  have fr: "framed (slice (length a) k (a @ take m tail))" "crc_good (slice (length a) k (a @ take m tail))"
    "rec_offset (slice (length a) k (a @ take m tail)) = rv_offset v" "n \<le> length (a @ take m tail)"
    unfolding k_def using ParseRecord_framed [OF assms(2)] by simp_all
  have k: "k \<le> m" "k \<le> length tail" using fr(4) by (auto simp: k_def)
  have sl: "slice (length a) k (a @ take m tail) = take k tail"
    using k by (simp add: slice_def min_absorb1)
  have len: "25 \<le> k" "unat (LoadLe32 tail) + 4 = k" "k \<le> kMaxRecordBytes + 4"
    using fr(1) k by (auto simp: sl framed_def LoadLe_take)
  have "rec_offset (take k tail) = rec_offset tail"
    using len(1) by (simp add: rec_offset_def drop_take LoadLe_take)
  then show ?thesis using assms(1) fr(2,3) len k by (auto simp: sl ends_here_def Let_def)
qed

lemma parse_spans_error: "parse_spans d c e \<noteq> Inl kOutOfRange"
  by (auto simp: parse_spans_def Let_def split: option.splits)

lemma ParseRecord_fits:
  assumes "fits_chunk tail" "kRecoveryChunkBytes < length tail"
  shows "ParseRecord (take kRecoveryChunkBytes tail) 0 True \<noteq> Inl kOutOfRange"
proof -
  have "LoadLe32 (take kRecoveryChunkBytes tail) = LoadLe32 tail"
    by (rule LoadLe_take) (simp add: kRecoveryChunkBytes_def)
  with assms parse_spans_error show ?thesis
    by (auto simp: ParseRecord_def fits_chunk_def Let_def kRecordFixedPrefix_def kRecoveryChunkBytes_def
        split: sum.splits)
qed

section \<open>The scan\<close>

lemma scan_chunk_run:
  assumes "chained (sc_offset sc) ts" "list_all sound_record ts" "length (a @ concat ts @ b) < 2 ^ 62"
  shows "scan_chunk st (a @ concat ts @ b) (length a) sc =
    scan_chunk st (a @ concat ts @ b) (length a + length (concat ts))
      (sc\<lparr>sc_offset := sc_offset sc + int (length ts), sc_records := sc_records sc + length ts,
          sc_max_timestamp := fold (\<lambda>r m. max m (PeekRecordTimestamp r)) ts (sc_max_timestamp sc)\<rparr>)"
  using assms
proof (induction ts arbitrary: a sc)
  case Nil
  then show ?case by simp
next
  case (Cons r ts)
  have r: "sound_record r" "rec_offset r = sc_offset sc" "length (a @ r @ (concat ts @ b)) < 2 ^ 62"
    using Cons.prems by simp_all
  obtain v where p: "ParseRecord (a @ r @ (concat ts @ b)) (length a) True = Inr (v, length a + length r)"
    "rv_offset v = rec_offset r" "rv_timestamp v = PeekRecordTimestamp r"
    using ParseRecord_in [OF r(1,3)] by blast
  have ne: "0 < length r" using sound_record_framed [OF r(1)] by (auto simp: framed_def)
  let ?sc = "sc\<lparr>sc_offset := sc_offset sc + 1, sc_records := sc_records sc + 1,
    sc_max_timestamp := max (sc_max_timestamp sc) (PeekRecordTimestamp r)\<rparr>"
  have "scan_chunk st (a @ concat (r # ts) @ b) (length a) sc =
      scan_chunk st (a @ r @ (concat ts @ b)) (length a + length r) ?sc"
    using p ne r(2) by (subst scan_chunk.simps) simp
  also have "\<dots> = scan_chunk st ((a @ r) @ concat ts @ b) (length (a @ r)) ?sc" by simp
  also have "\<dots> = scan_chunk st ((a @ r) @ concat ts @ b) (length (a @ r) + length (concat ts))
      (?sc\<lparr>sc_offset := sc_offset ?sc + int (length ts), sc_records := sc_records ?sc + length ts,
          sc_max_timestamp := fold (\<lambda>r m. max m (PeekRecordTimestamp r)) ts (sc_max_timestamp ?sc)\<rparr>)"
    by (rule Cons.IH) (use Cons.prems in simp_all)
  finally show ?case by (simp add: algebra_simps)
qed

text \<open>How the loop over a chunk ends behind the last whole record.\<close>

lemma scan_chunk_stop:
  assumes "rest = [] \<or> ParseRecord (a @ rest) (length a) True = Inl kOutOfRange \<and> st"
  shows "scan_chunk st (a @ rest) (length a) sc = (length a, sc)"
  using assms by (subst scan_chunk.simps) auto

lemma scan_chunk_end:
  assumes "rest = take m tail" "rest \<noteq> []" "ends_here (sc_offset sc) tail"
    and "st \<Longrightarrow> ParseRecord (a @ rest) (length a) True \<noteq> Inl kOutOfRange"
  shows "\<exists>why. scan_chunk st (a @ rest) (length a) sc = (length a, sc\<lparr>sc_reason := Some why\<rparr>)"
proof (cases "ParseRecord (a @ rest) (length a) True")
  case (Inl e)
  then show ?thesis using assms by (subst scan_chunk.simps) auto
next
  case (Inr p)
  obtain v n where p: "p = (v, n)" by fastforce
  have "rv_offset v \<noteq> sc_offset sc" using ParseRecord_ends [OF assms(3), of a m v n] Inr p assms(1) by simp
  then show ?thesis using Inr p assms(2) by (subst scan_chunk.simps) auto
qed


text \<open>
  A file whose records \<open>rs\<close> are followed by \<open>tail\<close>, and the scan when it has passed \<open>i\<close> of them.
\<close>

definition recoverable :: "offset \<Rightarrow> bytes list \<Rightarrow> bytes \<Rightarrow> bool" where
  "recoverable base rs tail \<longleftrightarrow> chained base rs \<and> list_all sound_record rs \<and>
     list_all (\<lambda>r. length r \<le> kRecoveryChunkBytes) rs \<and>
     ends_here (base + int (length rs)) tail \<and> fits_chunk tail"

definition scanned :: "offset \<Rightarrow> bytes list \<Rightarrow> nat \<Rightarrow> scan_state \<Rightarrow> bool" where
  "scanned base rs i sc \<longleftrightarrow> sc_offset sc = base + int i \<and> sc_records sc = i"

lemma chunk_split:
  assumes "i \<le> j" "j \<le> length rs" "rec_pos rs j \<le> rec_pos rs i + want"
  shows "slice (rec_pos rs i) want (concat rs @ tail) =
    concat (take (j - i) (drop i rs)) @ take (want - (rec_pos rs j - rec_pos rs i)) (concat (drop j rs) @ tail)"
    and "length (concat (take (j - i) (drop i rs))) = rec_pos rs j - rec_pos rs i"
proof -
  have len: "length (concat (take (j - i) (drop i rs))) = rec_pos rs j - rec_pos rs i"
    using rec_pos_add [of rs i "j - i"] assms(1) by (simp add: rec_pos_def del: length_concat)
  then show "length (concat (take (j - i) (drop i rs))) = rec_pos rs j - rec_pos rs i" .
  have "drop i rs = take (j - i) (drop i rs) @ drop j rs"
    using assms(1) by (metis append_take_drop_id drop_drop le_add_diff_inverse2)
  then have "concat (drop i rs) = concat (take (j - i) (drop i rs)) @ concat (drop j rs)"
    by (metis concat_append)
  moreover have "drop (rec_pos rs i) (concat rs @ tail) = concat (drop i rs) @ tail"
    using rec_pos_le [of rs i] by (simp add: drop_rec_pos del: length_concat)
  ultimately show "slice (rec_pos rs i) want (concat rs @ tail) =
    concat (take (j - i) (drop i rs)) @ take (want - (rec_pos rs j - rec_pos rs i)) (concat (drop j rs) @ tail)"
    using assms(3) len by (simp add: slice_def del: length_concat)
qed

lemma scan_part:
  assumes rec: "recoverable base rs tail" and ij: "i \<le> j" "j \<le> length rs"
    and sc: "scanned base rs i sc" and chunk: "chunk = concat (take (j - i) (drop i rs)) @ rest"
    and len: "length chunk < 2 ^ 62"
  shows "\<exists>sc'. scan_chunk st chunk 0 sc = scan_chunk st chunk (length (concat (take (j - i) (drop i rs)))) sc' \<and>
    scanned base rs j sc' \<and> sc_position sc' = sc_position sc \<and> sc_reason sc' = sc_reason sc"
proof -
  have "chained (base + int i) (take (j - i) (drop i rs))"
    using rec ij by (intro chained_take chained_drop) (simp_all add: recoverable_def)
  moreover have "list_all sound_record (take (j - i) (drop i rs))"
    using rec by (auto simp: recoverable_def list_all_iff dest!: in_set_takeD in_set_dropD)
  ultimately show ?thesis
    using scan_chunk_run [of sc "take (j - i) (drop i rs)" "[]" rest st] len sc chunk ij
    by (intro exI [of _ "sc\<lparr>sc_offset := base + int j, sc_records := j,
          sc_max_timestamp := fold (\<lambda>r m. max m (PeekRecordTimestamp r)) (take (j - i) (drop i rs)) (sc_max_timestamp sc)\<rparr>"])
      (simp add: scanned_def del: length_concat)
qed

lemma last_boundary:
  assumes "i \<le> length rs"
  shows "\<exists>j. i \<le> j \<and> j \<le> length rs \<and> rec_pos rs j \<le> rec_pos rs i + want \<and>
    (j < length rs \<longrightarrow> rec_pos rs i + want < rec_pos rs (Suc j))"
proof -
  define j where "j = (GREATEST j. j \<le> length rs \<and> rec_pos rs j \<le> rec_pos rs i + want)"
  have in_j: "j \<le> length rs \<and> rec_pos rs j \<le> rec_pos rs i + want"
    unfolding j_def by (rule GreatestI_nat [of _ i "length rs"]) (use assms in simp_all)
  have maxj: "k \<le> j" if "k \<le> length rs" "rec_pos rs k \<le> rec_pos rs i + want" for k
    unfolding j_def by (rule Greatest_le_nat [of _ k "length rs"]) (use that in simp_all)
  from maxj [of i] maxj [of "Suc j"] assms in_j show ?thesis
    by (intro exI [of _ j]) (auto simp: not_le [symmetric])
qed

lemma recoverable_nth:
  "recoverable base rs tail \<Longrightarrow> j < length rs \<Longrightarrow> framed (rs ! j) \<and> length (rs ! j) \<le> kRecoveryChunkBytes"
  by (auto simp: recoverable_def list_all_length sound_record_framed)

text \<open>The chunk ends inside a record: the next round starts there.\<close>

lemma round_cut:
  assumes rec: "recoverable base rs tail" and j: "i \<le> j" "j < length rs"
    and cut: "rec_pos rs i + want < rec_pos rs (Suc j)" and jp: "rec_pos rs j \<le> rec_pos rs i + want"
    and size: "file_size = length (concat rs @ tail)" and want: "want = min kRecoveryChunkBytes (file_size - rec_pos rs i)"
    and rest: "rest = take (want - (rec_pos rs j - rec_pos rs i)) (concat (drop j rs) @ tail)"
  shows "i < j \<and> rec_pos rs i + want < file_size \<and> ParseRecord (a @ rest) (length a) True = Inl kOutOfRange"
proof -
  have rj: "rec_pos rs (Suc j) = rec_pos rs j + length (rs ! j)" using j(2) by (rule rec_pos_Suc)
  have le: "rec_pos rs (Suc j) \<le> file_size" using rec_pos_le [of rs "Suc j"] size by simp
  have wantk: "want = kRecoveryChunkBytes" using cut le want by (simp add: min_def split: if_splits)
  note fr = recoverable_nth [OF rec j(2)]
  have "i < j" using cut rj wantk fr j(1) by (cases "i = j") simp_all
  moreover have m: "want - (rec_pos rs j - rec_pos rs i) < length (rs ! j)"
    using cut rj rec_pos_mono [OF j(1), of rs] jp by simp
  then have "rest = take (want - (rec_pos rs j - rec_pos rs i)) (rs ! j)"
    using j(2) by (simp add: rest flip: Cons_nth_drop_Suc)
  ultimately show ?thesis using ParseRecord_cut [of "rs ! j"] fr m cut le by simp
qed

text \<open>The chunk reaches behind the last record.\<close>

lemma round_tail:
  assumes rec: "recoverable base rs tail" and sc: "scanned base rs (length rs) sc" "sc_reason sc = None"
    and rest: "rest = take m tail" and ne: "a @ rest \<noteq> []"
    and whole: "a = [] \<Longrightarrow> st \<Longrightarrow> m = kRecoveryChunkBytes \<and> m < length tail"
  shows "\<exists>sc'. scan_chunk st (a @ rest) (length a) sc = (length a, sc') \<and> scanned base rs (length rs) sc' \<and>
    sc_position sc' = sc_position sc \<and> (sc_reason sc' = None \<longrightarrow> a \<noteq> [])"
proof (cases "rest = [] \<or> a \<noteq> [] \<and> st \<and> ParseRecord (a @ rest) (length a) True = Inl kOutOfRange")
  case True
  then show ?thesis using scan_chunk_stop [of rest a st sc] sc ne by auto
next
  case False
  have "ParseRecord (a @ rest) (length a) True \<noteq> Inl kOutOfRange" if "st"
  proof (cases "a = []")
    case True
    then show ?thesis using whole that ParseRecord_fits [of tail] rec rest by (simp add: recoverable_def)
  qed (use False that in simp)
  moreover have "ends_here (sc_offset sc) tail" using rec sc(1) by (simp add: recoverable_def scanned_def)
  ultimately obtain why where "scan_chunk st (a @ rest) (length a) sc = (length a, sc\<lparr>sc_reason := Some why\<rparr>)"
    using scan_chunk_end [OF rest] False by blast
  then show ?thesis using sc(1) by (simp add: scanned_def)
qed

lemma scan_round:
  assumes rec: "recoverable base rs tail" and i: "i \<le> length rs" and sc: "scanned base rs i sc" "sc_reason sc = None"
    and size: "file_size = length (concat rs @ tail)" and pos: "rec_pos rs i < file_size"
    and want: "want = min kRecoveryChunkBytes (file_size - rec_pos rs i)"
    and chunk: "chunk = slice (rec_pos rs i) want (concat rs @ tail)"
    and st: "st \<longleftrightarrow> length chunk = want \<and> rec_pos rs i + length chunk < file_size"
  shows "\<exists>j sc'. scan_chunk st chunk 0 sc = (rec_pos rs j - rec_pos rs i, sc') \<and> i \<le> j \<and> j \<le> length rs \<and>
    scanned base rs j sc' \<and> sc_position sc' = sc_position sc \<and>
    (if sc_reason sc' = None then i < j else j = length rs)"
proof -
  have lenc: "length chunk = want"
    by (simp only: chunk slice_def length_take length_drop size [symmetric] want)
  then have small: "length chunk < 2 ^ 62" "chunk \<noteq> []"
    using pos want by (auto simp: kRecoveryChunkBytes_def)
  obtain j where ij: "i \<le> j" and jl: "j \<le> length rs" and jp: "rec_pos rs j \<le> rec_pos rs i + want"
    and cut: "j < length rs \<longrightarrow> rec_pos rs i + want < rec_pos rs (Suc j)"
    using last_boundary [OF i] by blast
  define a where "a = concat (take (j - i) (drop i rs))"
  define rest where "rest = take (want - (rec_pos rs j - rec_pos rs i)) (concat (drop j rs) @ tail)"
  have split: "chunk = a @ rest" and la: "length a = rec_pos rs j - rec_pos rs i"
    unfolding a_def rest_def chunk by (rule chunk_split [OF ij jl jp])+
  obtain sc1 where sc1: "scan_chunk st chunk 0 sc = scan_chunk st (a @ rest) (length a) sc1"
    "scanned base rs j sc1" "sc_position sc1 = sc_position sc" "sc_reason sc1 = None"
    using scan_part [OF rec ij jl sc(1) split [unfolded a_def] small(1), of st] sc(2) split by (auto simp: a_def)
  show ?thesis
  proof (cases "j < length rs")
    case True
    with round_cut [OF rec ij True cut [rule_format, OF True] jp size want rest_def, of a] scan_chunk_stop [of rest a st sc1]
    show ?thesis using sc1 la jl st lenc by (intro exI [of _ j] exI [of _ sc1]) simp
  next
    case False
    then have j: "j = length rs" using jl by simp
    have rt: "rest = take (want - length a) tail" using j la by (simp add: rest_def del: length_concat)
    have "want - length a = kRecoveryChunkBytes \<and> want - length a < length tail" if "a = []" "st"
    proof -
      have "rec_pos rs i = length (concat rs)" using that(1) la j rec_pos_le [of rs i] by (simp del: length_concat)
      then show ?thesis using that st lenc size want
        by (simp only: length_append) (auto simp: min_def simp del: length_concat split: if_splits)
    qed
    then have "\<exists>sc'. scan_chunk st (a @ rest) (length a) sc1 = (length a, sc') \<and> scanned base rs (length rs) sc' \<and>
      sc_position sc' = sc_position sc1 \<and> (sc_reason sc' = None \<longrightarrow> a \<noteq> [])"
      using sc1(2) by (intro round_tail [OF rec _ sc1(4) rt small(2) [unfolded split]]) (simp_all add: j)
    then obtain sc2 where "scan_chunk st (a @ rest) (length a) sc1 = (length a, sc2)" "scanned base rs (length rs) sc2"
      "sc_position sc2 = sc_position sc1" "sc_reason sc2 = None \<longrightarrow> a \<noteq> []" by (elim exE conjE) (rule that)
    moreover have "i < j" if "a \<noteq> []" using that ij by (cases "i = j") (simp_all add: a_def)
    ultimately show ?thesis using sc1 la j ij by (intro exI [of _ j] exI [of _ sc2]) (simp del: length_concat)
  qed
qed


definition scan_done :: "offset \<Rightarrow> bytes list \<Rightarrow> scan_state \<Rightarrow> bool" where
  "scan_done base rs sc \<longleftrightarrow> scanned base rs (length rs) sc \<and> sc_position sc = length (concat rs)"

lemma recover_scan_stops:
  "sc_reason sc \<noteq> None \<or> file_size \<le> sc_position sc \<Longrightarrow> recover_scan f file_size sc w = Some (Inr sc, w)"
  by (subst recover_scan.simps) auto

lemma recover_scan_step:
  assumes rec: "recoverable base rs tail" and f: "fh_content f = concat rs @ tail"
    and i: "i \<le> length rs" and sc: "scanned base rs i sc" "sc_position sc = rec_pos rs i" "sc_reason sc = None"
    and pos: "rec_pos rs i < length (fh_content f)"
  shows "(\<exists>e w1. recover_scan f (length (fh_content f)) sc w = Some (Inl e, w1) \<and> \<not> (quiet w \<and> fh_valid f)) \<or>
    (\<exists>j sc2 w1. recover_scan f (length (fh_content f)) sc w = recover_scan f (length (fh_content f)) sc2 w1 \<and>
       j \<le> length rs \<and> scanned base rs j sc2 \<and> sc_position sc2 = rec_pos rs j \<and>
       (if sc_reason sc2 = None then i < j else j = length rs) \<and> (quiet w \<and> fh_valid f \<longrightarrow> w1 = w))"
proof -
  let ?size = "length (fh_content f)"
  define want where "want = min kRecoveryChunkBytes (?size - rec_pos rs i)"
  obtain rd w1 where read: "ReadAt want (rec_pos rs i) f w = (rd, w1)" by fastforce
  have w1: "w1 = w \<and> (\<exists>chunk. rd = Inr chunk)" if "quiet w \<and> fh_valid f"
    using that read by (auto simp: ReadAt_quiet)
  note step = recover_scan.simps [of f ?size sc w, unfolded sc(2,3) Let_def, folded want_def, unfolded read]
  show ?thesis
  proof (cases rd)
    case (Inl e)
    then have "recover_scan f ?size sc w = Some (Inl e, w1)" using step pos by simp
    then show ?thesis using w1 Inl by auto
  next
    case (Inr chunk)
    have chunk: "chunk = slice (rec_pos rs i) want (concat rs @ tail)" using ReadAt_slice [OF read [unfolded Inr]] f by simp
    then have ne: "chunk \<noteq> []" using pos f by (auto simp: slice_def want_def kRecoveryChunkBytes_def simp del: length_concat)
    obtain j sc1 where round: "scan_chunk (length chunk = want \<and> rec_pos rs i + length chunk < ?size) chunk 0 sc =
        (rec_pos rs j - rec_pos rs i, sc1)"
      and j: "i \<le> j" "j \<le> length rs" "if sc_reason sc1 = None then i < j else j = length rs"
      and sc1: "scanned base rs j sc1" "sc_position sc1 = sc_position sc"
      using scan_round [OF rec i sc(1,3) _ pos want_def chunk refl] f by (elim meta_impE) auto
    have adv: "\<not> (rec_pos rs j = rec_pos rs i \<and> sc_reason sc1 = None)"
      using j rec_pos_strict [of i j rs] rec chained_all_framed by (auto simp: recoverable_def split: if_splits)
    have "recover_scan f ?size sc w = recover_scan f ?size (sc1\<lparr>sc_position := rec_pos rs j\<rparr>) w1"
      using step pos Inr ne round adv sc1(2) sc(2) rec_pos_mono [OF j(1), of rs] by simp
    then show ?thesis using j sc1 w1
      by (intro disjI2 exI [of _ j] exI [of _ "sc1\<lparr>sc_position := rec_pos rs j\<rparr>"] exI [of _ w1])
        (simp add: scanned_def del: length_concat)
  qed
qed

lemma recover_scan_exact:
  assumes rec: "recoverable base rs tail" and f: "fh_content f = concat rs @ tail"
    and "i \<le> length rs" "scanned base rs i sc" "sc_position sc = rec_pos rs i" "sc_reason sc = None"
  shows "\<exists>r w'. recover_scan f (length (fh_content f)) sc w = Some (r, w') \<and>
    (\<forall>sc'. r = Inr sc' \<longrightarrow> scan_done base rs sc') \<and> (quiet w \<and> fh_valid f \<longrightarrow> w' = w \<and> (\<exists>sc'. r = Inr sc'))"
  using assms(3-6)
proof (induction "length rs - i" arbitrary: i sc w rule: less_induct)
  case less
  let ?size = "length (fh_content f)"
  show ?case
  proof (cases "rec_pos rs i < ?size")
    case False
    then have all: "rec_pos rs i = length (concat rs)"
      using rec_pos_le [of rs i] by (simp add: f del: length_concat)
    then have "i = length rs"
      using rec_pos_strict [of i "length rs" rs] less.prems(1) chained_all_framed rec
      by (force simp: recoverable_def simp del: length_concat)
    then show ?thesis using recover_scan_stops [of sc ?size f w] False less.prems all
      by (simp add: scan_done_def del: length_concat)
  next
    case True
    from recover_scan_step [OF rec f less.prems True, of w] show ?thesis
    proof (elim disjE exE conjE)
      fix j sc2 w1
      assume eq: "recover_scan f ?size sc w = recover_scan f ?size sc2 w1" and j: "j \<le> length rs"
        "if sc_reason sc2 = None then i < j else j = length rs"
        and sc2: "scanned base rs j sc2" "sc_position sc2 = rec_pos rs j" and w1: "quiet w \<and> fh_valid f \<longrightarrow> w1 = w"
      show ?thesis
      proof (cases "sc_reason sc2 = None")
        case True
        then have "length rs - j < length rs - i" using j by simp
        from less.hyps [OF this j(1) sc2 True, of w1] obtain r w' where
          "recover_scan f ?size sc2 w1 = Some (r, w')" "\<forall>sc'. r = Inr sc' \<longrightarrow> scan_done base rs sc'"
          "quiet w1 \<and> fh_valid f \<longrightarrow> w' = w1 \<and> (\<exists>sc'. r = Inr sc')" by (elim exE conjE) (rule that)
        then show ?thesis using eq w1 by (intro exI [of _ r] exI [of _ w']) auto
      next
        case False
        then show ?thesis using recover_scan_stops [of sc2 ?size f w1] eq w1 sc2 j
          by (intro exI [of _ "Inr sc2"] exI [of _ w1]) (simp add: scan_done_def del: length_concat)
      qed
    qed simp
  qed
qed


section \<open>Recovering a segment\<close>

text \<open>
  A segment as \<open>Segment_Open\<close> leaves it after a crash.  The indexes may name records \<open>lost\<close> that did
  not reach the disk, provided that something lies behind the last whole record: only then does
  \<open>Recover\<close> cut the indexes.
\<close>

definition reopened :: "segment \<Rightarrow> bytes list \<Rightarrow> bytes list \<Rightarrow> bytes \<Rightarrow> bool" where
  "reopened s rs lost tail \<longleftrightarrow>
     fh_valid (sg_file s) \<and> fh_content (sg_file s) = concat rs @ tail \<and>
     fh_durable (sg_file s) = fh_content (sg_file s) \<and> recoverable (sg_base_offset s) rs tail \<and>
     oi_ok (sg_index s) \<and> oi_base_offset (sg_index s) = sg_base_offset s \<and>
     ti_ok (sg_time_index s) \<and> ti_base_offset (sg_time_index s) = sg_base_offset s \<and>
     index_points (rs @ lost) (oi_entries (sg_index s)) \<and>
     (tail = [] \<longrightarrow> lost = [] \<and> (\<forall>e \<in> set (ti_entries (sg_time_index s)). te_rel e < int (length rs)))"

lemma recovered_inv:
  assumes re: "reopened s rs lost tail"
    and s': "fh_valid (sg_file s')" "fh_content (sg_file s') = concat rs" "fh_durable (sg_file s') = concat rs @ tail"
      "sg_base_offset s' = sg_base_offset s" "sg_end_position s' = length (concat rs)"
      "sg_synced_position s' = length (concat rs)" "sg_next_offset s' = sg_base_offset s + int (length rs)"
    and ix: "oi_ok (sg_index s')" "oi_base_offset (sg_index s') = sg_base_offset s"
      "index_points rs (oi_entries (sg_index s'))"
    and tx: "ti_ok (sg_time_index s')" "ti_base_offset (sg_time_index s') = sg_base_offset s"
      "\<forall>e \<in> set (ti_entries (sg_time_index s')). te_rel e < int (length rs)"
  shows "seg_inv s' rs"
  using assms boundary_all [of rs]
  by (simp add: seg_inv_def reopened_def recoverable_def del: length_concat)

lemma index_points_cut:
  assumes "index_points (rs @ lost) es"
  shows "index_points rs (filter (\<lambda>e. oe_rel e < int (length rs)) es)"
  using index_points_take [OF assms, of "length rs"] by simp

text \<open>The three truncations of the tail, when there is one.\<close>

lemma Recover_tail_run:
  assumes re: "reopened s rs lost tail" and sc: "scan_done (sg_base_offset s) rs sc" and ne: "tail \<noteq> []"
    and run: "Recover_tail True (length (fh_content (sg_file s))) sc s w = (Inr rep, s', w')"
  obtains f ix tx w1 r1 w1' w2 r2 w2' where
    "f = (sg_file s)\<lparr>fh_content := concat rs\<rparr>"
    "OffsetIndex_TruncateFrom (sg_base_offset s + int (length rs)) (sg_index s) w1 = (r1, ix, w1')"
    "TimeIndex_TruncateFrom (sg_base_offset s + int (length rs)) (sg_time_index s) w2 = (r2, tx, w2')"
    "sg_file s' = f" "sg_index s' = ix" "sg_time_index s' = tx" "sg_base_offset s' = sg_base_offset s"
    "sg_end_position s' = length (concat rs)" "sg_synced_position s' = length (concat rs)"
    "sg_next_offset s' = sg_base_offset s + int (length rs)"
    "rr_next_offset rep = sg_base_offset s + int (length rs)" "rr_valid_bytes rep = length (concat rs)"
    "rr_truncated_bytes rep + rr_preallocated_bytes rep = length tail"
proof -
  have sc': "sc_position sc = length (concat rs)" "sc_offset sc = sg_base_offset s + int (length rs)"
    using sc by (simp_all add: scan_done_def scanned_def)
  have content: "fh_content (sg_file s) = concat rs @ tail" using re by (simp add: reopened_def)
  have cut: "f = (sg_file s)\<lparr>fh_content := concat rs\<rparr>"
    if "File_Truncate (length (concat rs)) (sg_file s) u = (Inr (), f, u')" for f u u'
    using File_Truncate_cases [OF that] content by (simp add: resize_def del: length_concat)
  from run sc' content ne show thesis
    by (auto simp: Recover_tail_def Recover_finish_def Let_def simp del: length_concat
        split: prod.splits sum.splits if_splits dest!: cut intro: that)
qed

lemma Recover_tail_restores:
  assumes re: "reopened s rs lost tail" and sc: "scan_done (sg_base_offset s) rs sc"
    and run: "Recover_tail True (length (fh_content (sg_file s))) sc s w = (Inr rep, s', w')"
  shows "seg_inv s' rs \<and> fh_content (sg_file s') = concat rs \<and>
      rr_next_offset rep = sg_base_offset s + int (length rs) \<and> rr_valid_bytes rep = length (concat rs) \<and>
      rr_truncated_bytes rep + rr_preallocated_bytes rep = length tail"
proof (cases "tail = []")
  case True
  have sc': "sc_position sc = length (concat rs)" "sc_offset sc = sg_base_offset s + int (length rs)"
    using sc by (simp_all add: scan_done_def scanned_def)
  have "seg_inv s' rs"
    by (rule recovered_inv [OF re])
      (use re run sc' True in \<open>auto simp: reopened_def Recover_tail_def Recover_finish_def Let_def\<close>)
  then show ?thesis using run sc' True re by (auto simp: reopened_def Recover_tail_def Recover_finish_def Let_def)
next
  case False
  have ok: "oi_ok (sg_index s)" "ti_ok (sg_time_index s)" "oi_base_offset (sg_index s) = sg_base_offset s"
    "ti_base_offset (sg_time_index s) = sg_base_offset s" "index_points (rs @ lost) (oi_entries (sg_index s))"
    using re by (simp_all add: reopened_def)
  from Recover_tail_run [OF re sc False run] obtain f ix tx w1 r1 w1' w2 r2 w2' where
    f: "f = (sg_file s)\<lparr>fh_content := concat rs\<rparr>"
    and ix: "OffsetIndex_TruncateFrom (sg_base_offset s + int (length rs)) (sg_index s) w1 = (r1, ix, w1')"
    and tx: "TimeIndex_TruncateFrom (sg_base_offset s + int (length rs)) (sg_time_index s) w2 = (r2, tx, w2')"
    and s': "sg_file s' = f" "sg_index s' = ix" "sg_time_index s' = tx" "sg_base_offset s' = sg_base_offset s"
    "sg_end_position s' = length (concat rs)" "sg_synced_position s' = length (concat rs)"
    "sg_next_offset s' = sg_base_offset s + int (length rs)"
    and rep: "rr_next_offset rep = sg_base_offset s + int (length rs)" "rr_valid_bytes rep = length (concat rs)"
    "rr_truncated_bytes rep + rr_preallocated_bytes rep = length tail" .
  note ixs = OffsetIndex_TruncateFrom_spec [OF ok(1) ix] and txs = TimeIndex_TruncateFrom_spec [OF ok(2) tx]
  have "seg_inv s' rs"
    by (rule recovered_inv [OF re])
      (use re f s' ixs txs ok index_points_cut [OF ok(5)] in \<open>auto simp: reopened_def dest!: set_takeWhileD\<close>)
  then show ?thesis using rep s' f by simp
qed

lemma Recover_tail_quiet:
  assumes "quiet w" "reopened s rs lost tail"
  shows "\<exists>rep s' w'. Recover_tail True file_size sc s w = (Inr rep, s', w')"
proof -
  have v: "fh_valid (sg_file s)" "fh_valid (oi_file (sg_index s))" "fh_valid (ti_file (sg_time_index s))"
    using assms(2) by (simp_all add: reopened_def oi_ok_def ti_ok_def)
  obtain ix tx where "OffsetIndex_TruncateFrom (sc_offset sc) (sg_index s) w = (Inr (), ix, w)"
    "TimeIndex_TruncateFrom (sc_offset sc) (sg_time_index s) w = (Inr (), tx, w)"
    using index_cuts_quiet [OF assms(1)] v by blast
  then show ?thesis using assms(1) v
    by (simp add: Recover_tail_def Let_def preallocated_tail_def ReadAt_quiet File_Truncate_def retry_sys_quiet
        Recover_finish_def)
qed


text \<open>Every run of sound records with which the file begins is among the records found.\<close>

lemma ends_here_record:
  assumes "sound_record r" "rec_offset r = off"
  shows "\<not> ends_here off (r @ rest)"
proof -
  have fr: "framed r" "crc_good r" using sound_record_framed [OF assms(1)] by simp_all
  then have len: "unat (LoadLe32 (r @ rest)) + 4 = length r" "25 \<le> length r" "length r \<le> kMaxRecordBytes + 4"
    by (simp_all add: framed_def LoadLe_append)
  moreover have "rec_offset (r @ rest) = off" using assms(2) len(2) by (simp add: rec_offset_def LoadLe_append)
  ultimately show ?thesis using fr(2) by (simp add: ends_here_def Let_def)
qed

lemma framed_eq:
  assumes "framed a" "framed b" "a @ as = b @ bs"
  shows "a = b \<and> as = bs"
proof -
  have "LoadLe32 a = LoadLe32 b"
    using assms LoadLe_append(1) [of a as] LoadLe_append(1) [of b bs] by (simp add: framed_def)
  then have "length a = length b" using assms(1,2) by (simp add: framed_def)
  then show ?thesis using assms(3) by simp
qed

lemma runs_survive:
  assumes "chained base ks" "list_all sound_record ks" "chained base rs" "ends_here (base + int (length rs)) tail"
    and "concat ks @ beyond = concat rs @ tail"
  shows "take (length ks) rs = ks"
  using assms
proof (induction ks arbitrary: base rs)
  case (Cons k ks)
  show ?case
  proof (cases rs)
    case Nil
    then show ?thesis using Cons.prems ends_here_record [of k base "concat ks @ beyond"] by simp
  next
    case (Cons r rs')
    have "k = r \<and> concat ks @ beyond = concat rs' @ tail"
      using Cons.prems Cons framed_eq [of k r "concat ks @ beyond" "concat rs' @ tail"] sound_record_framed [of k] by simp
    then show ?thesis using Cons.IH [of "base + 1" rs'] Cons.prems Cons by (simp add: algebra_simps)
  qed
qed simp


section \<open>Samples\<close>

definition opened_file :: "bytes \<Rightarrow> file_handle" where
  "opened_file c = \<lparr>fh_valid = True, fh_content = c, fh_durable = c\<rparr>"

definition opened_segment :: "bytes \<Rightarrow> segment" where
  "opened_segment c = (NewSegment 0 (segment_options_of sample_log_options))\<lparr>sg_file := opened_file c,
     sg_index := NewOffsetIndex\<lparr>oi_file := opened_file []\<rparr>,
     sg_time_index := NewTimeIndex\<lparr>ti_file := opened_file []\<rparr>\<rparr>"

definition kept_record :: bytes where
  "kept_record = RewriteRecordHeader sample_record 0 5"

lemma kept_record_sound: "sound_record kept_record" "rec_offset kept_record = 0" "length kept_record = 29"
proof -
  have sl: "slice 0 29 sample_record = sample_record" by (simp add: slice_0 sample_record_def)
  note fr = ParseRecord_framed(3) [OF sample_accepted, simplified sl diff_zero]
  note rw = Rewrite_props [OF fr, of 0 5]
  have i: "is_i64 0" "is_i64 5" by (simp_all add: is_i64_def)
  show len: "length kept_record = 29" using rw(5) i by (simp add: kept_record_def sample_record_def)
  have "overwrite 0 (RewriteRecordHeader (slice 0 (29 - 0) sample_record) 0 5) sample_record = kept_record"
    using len by (simp add: sl kept_record_def overwrite_def sample_record_def)
  with ParseRecord_rewrite [OF sample_accepted i] show "sound_record kept_record"
    by (simp add: sound_record_def lengths_sane_def len)
  show "rec_offset kept_record = 0" using rw(3) i by (simp add: kept_record_def)
qed

lemma opened_segment_reopened: "reopened (opened_segment (kept_record @ [0, 0, 0])) [kept_record] [] [0, 0, 0]"
  using kept_record_sound sound_record_framed [OF kept_record_sound(1)]
  by (simp add: reopened_def opened_segment_def opened_file_def NewSegment_def NewOffsetIndex_def NewTimeIndex_def
      recoverable_def ends_here_def fits_chunk_def kRecoveryChunkBytes_def oi_ok_def ti_ok_def index_points_def
      stored_def)

section \<open>Properties\<close>




text \<open>
  C19: \<^bold>\<open>A large record makes recovery run for ever.\<close>  The log accepts records of up to 16 MiB, but
  when the record at the scan position is longer than the one-mebibyte chunk, the code enlarges a
  buffer that the next round shrinks again and reads the same chunk: with a kernel that reports no
  fault \<open>Recover\<close> does not return, so the broker does not start.
\<close>

theorem Recover_diverges:
  assumes "fh_valid (sg_file s)" "fh_content (sg_file s) = r @ rest" "framed r" "kRecoveryChunkBytes < length r"
    and "quiet w"
  shows "Recover True s w = None"
proof -
  let ?f = "sg_file s" and ?n = "length (fh_content (sg_file s))" and ?sc = "Recover_start True s"
  define chunk where "chunk = take kRecoveryChunkBytes r"
  have want: "min kRecoveryChunkBytes (?n - 0) = kRecoveryChunkBytes" "\<not> kMaxRecordBytes + 64 \<le> kRecoveryChunkBytes"
    and pos: "0 < ?n" "kRecoveryChunkBytes < ?n" and ne: "chunk \<noteq> []" "length chunk = kRecoveryChunkBytes"
    using assms(2,4) by (auto simp: kMaxRecordBytes_def kRecoveryChunkBytes_def chunk_def)
  have read: "ReadAt kRecoveryChunkBytes 0 ?f w = (Inr chunk, w)"
    using assms by (simp add: ReadAt_quiet slice_0 chunk_def)
  have sc: "sc_reason ?sc = None" "sc_position ?sc = 0" by (simp_all add: Recover_start_def)
  have scan: "scan_chunk True chunk 0 ?sc = (0, ?sc)"
    using scan_chunk_stop [of chunk "[]" True ?sc] ParseRecord_cut [OF assms(3,4), of "[]"] by (simp add: chunk_def)
  have never: "\<not> (f = ?f \<and> n = ?n \<and> sc = ?sc \<and> w0 = w)" if "recover_scan f n sc w0 = Some y" for f n sc w0 y
  proof (rule recover_scan.raw_induct [OF _ that])
    fix scan' f n sc' w0 y
    assume hyp: "\<And>f n sc w0 y. scan' f n sc w0 = Some y \<Longrightarrow> \<not> (f = ?f \<and> n = ?n \<and> sc = ?sc \<and> w0 = w)"
      and body: "(if sc_reason sc' = None \<and> sc_position sc' < n
        then let want = min kRecoveryChunkBytes (n - sc_position sc') in
          case ReadAt want (sc_position sc') f w0 of
            (Inl e, w') \<Rightarrow> Some (Inl e, w')
          | (Inr chunk, w') \<Rightarrow>
              if chunk = [] then Some (Inr sc', w')
              else let (chunk_pos, sc') =
                     scan_chunk (length chunk = want \<and> sc_position sc' + length chunk < n) chunk 0 sc'
                in if chunk_pos = 0 \<and> sc_reason sc' = None
                   then if want \<ge> kMaxRecordBytes + 64
                        then Some (Inr (sc'\<lparr>sc_reason := Some RecordTooLarge\<rparr>), w')
                        else scan' f n sc' w'
                   else scan' f n (sc'\<lparr>sc_position := sc_position sc' + chunk_pos\<rparr>) w'
        else Some (Inr sc', w0)) = Some y"
    show "\<not> (f = ?f \<and> n = ?n \<and> sc' = ?sc \<and> w0 = w)"
    proof
      assume eq: "f = ?f \<and> n = ?n \<and> sc' = ?sc \<and> w0 = w"
      then have "scan' ?f ?n ?sc w = Some y" using body sc want pos ne read scan by (simp add: Let_def)
      from hyp [OF this] show False by simp
    qed
  qed
  have "recover_scan ?f ?n ?sc w = None"
    using never [of ?f ?n ?sc w] by (cases "recover_scan ?f ?n ?sc w") auto
  then show ?thesis using assms(1,5) by (simp add: Recover_def File_Size_quiet)
qed

definition large_record :: bytes where
  "large_record = StoreLe32 2000000 @ replicate 2000000 0"

theorem Recover_diverges_witness:
  "framed large_record \<and> Recover True (opened_segment (large_record @ [])) quiet_os = None"
proof -
  have len: "length large_record = 2000004" by (simp add: large_record_def)
  moreover have "LoadLe32 large_record = 2000000" by (simp add: large_record_def LoadLe_append)
  ultimately have fr: "framed large_record" by (simp add: framed_def kMaxRecordBytes_def)
  have "Recover True (opened_segment (large_record @ [])) quiet_os = None"
    by (rule Recover_diverges [where r = large_record and rest = "[]"])
      (simp_all add: opened_segment_def opened_file_def NewSegment_def fr len kRecoveryChunkBytes_def)
  with fr show ?thesis by simp
qed

end
