(* ===== verification/PL_Assignor.thy ===== *)
theory PL_Assignor
  imports PL_Omap PL_Messages_Control "HOL-Library.Multiset"
begin

text \<open>
  Assignment of partitions to the members of a consumer group
  (\<open>include/pulselog/consumer/assignor.h\<close>, \<open>src/consumer/assignor.cc\<close>): range and round robin, and
  that both hand out every partition exactly once and evenly, whatever the order of the arguments.
\<close>

type_synonym assignment = "(string, topic_partition list) omap"

section \<open>The strategies\<close>

definition SortedMembers :: "string list \<Rightarrow> string list" where
  "SortedMembers members = remdups_adj (sort members)"

definition SortedPartitions :: "topic_partition list \<Rightarrow> topic_partition list" where
  "SortedPartitions partitions = remdups_adj (sort partitions)"

text \<open>\<open>m[k]\<close> creates an empty vector for a new key; \<open>m[k].push_back(v)\<close> appends to it.\<close>

definition touch :: "'k::linorder \<Rightarrow> ('k, 'v list) omap \<Rightarrow> ('k, 'v list) omap" where
  "touch k m = (case om_get k m of None \<Rightarrow> om_put k [] m | Some _ \<Rightarrow> m)"

definition push_to :: "'k::linorder \<Rightarrow> 'v \<Rightarrow> ('k, 'v list) omap \<Rightarrow> ('k, 'v list) omap" where
  "push_to k v m = om_put k ((case om_get k m of None \<Rightarrow> [] | Some vs \<Rightarrow> vs) @ [v]) m"

definition by_topic :: "topic_partition list \<Rightarrow> (string, topic_partition list) omap" where
  "by_topic partitions = fold (\<lambda>p. push_to (tp_topic p) p) partitions []"

text \<open>The loop over the members: \<open>cursor\<close> walks through the partitions of one topic.\<close>

fun range_members ::
  "nat \<Rightarrow> nat \<Rightarrow> topic_partition list \<Rightarrow> nat \<Rightarrow> string list \<Rightarrow> nat \<Rightarrow> assignment \<Rightarrow> assignment" where
  "range_members per_member remainder parts m [] cursor a = a"
| "range_members per_member remainder parts m (x # xs) cursor a =
     (let share = per_member + (if m < remainder then 1 else 0);
          n = min share (length parts - cursor)
      in range_members per_member remainder parts (Suc m) xs (cursor + n)
           (fold (push_to x) (slice cursor n parts) a))"

definition range_topic :: "string list \<Rightarrow> topic_partition list \<Rightarrow> assignment \<Rightarrow> assignment" where
  "range_topic members parts a =
     range_members (length parts div length members) (length parts mod length members) parts 0 members 0 a"

definition AssignRange :: "string list \<Rightarrow> topic_partition list \<Rightarrow> assignment" where
  "AssignRange member_ids partitions =
     (let members = SortedMembers member_ids in
      if members = [] then []
      else fold (\<lambda>(topic, parts). range_topic members parts) (by_topic (SortedPartitions partitions))
             (fold touch members []))"

fun deal_round :: "string list \<Rightarrow> nat \<Rightarrow> topic_partition list \<Rightarrow> assignment \<Rightarrow> assignment" where
  "deal_round members i [] a = a"
| "deal_round members i (p # ps) a =
     deal_round members (Suc i) ps (push_to (members ! (i mod length members)) p a)"

definition AssignRoundRobin :: "string list \<Rightarrow> topic_partition list \<Rightarrow> assignment" where
  "AssignRoundRobin member_ids partitions =
     (let members = SortedMembers member_ids in
      if members = [] then []
      else deal_round members 0 (SortedPartitions partitions) (fold touch members []))"

definition Assign :: "assignment_strategy \<Rightarrow> string list \<Rightarrow> topic_partition list \<Rightarrow> assignment" where
  "Assign strategy member_ids partitions =
     (case strategy of
        StrategyRoundRobin \<Rightarrow> AssignRoundRobin member_ids partitions
      | StrategyRange \<Rightarrow> AssignRange member_ids partitions)"

section \<open>Sorting the arguments\<close>

lemma sorted_remdups_adj_distinct: "sorted (xs :: 'a::linorder list) \<Longrightarrow> distinct (remdups_adj xs)"
  by (induction xs rule: remdups_adj.induct) (auto simp: order.antisym)

lemma remdups_adj_sort: "remdups_adj (sort xs) = sorted_list_of_set (set (xs :: 'a::linorder list))"
  by (rule sorted_distinct_set_unique)
    (simp_all add: sorted_remdups_adj_distinct)

lemma SortedMembers_props [simp]:
  "set (SortedMembers ms) = set ms" "distinct (SortedMembers ms)" "SortedMembers ms = [] \<longleftrightarrow> ms = []"
  by (simp_all add: SortedMembers_def remdups_adj_sort)

lemma SortedPartitions_props [simp]:
  "set (SortedPartitions ps) = set ps" "distinct (SortedPartitions ps)"
  by (simp_all add: SortedPartitions_def remdups_adj_sort)

section \<open>Every partition exactly once\<close>

definition assigned :: "('k, 'v list) omap \<Rightarrow> 'v multiset" where
  "assigned a = mset (concat (map snd a))"

lemma assigned_put_new: "om_get k a = None \<Longrightarrow> assigned (om_put k vs a) = assigned a + mset vs"
  by (induction k vs a rule: om_put.induct) (auto simp: assigned_def om_get_def split: if_splits)

lemma assigned_put_old:
  "om_wf a \<Longrightarrow> om_get k a = Some us \<Longrightarrow> assigned (om_put k (us @ vs) a) = assigned a + mset vs"
proof (induction k vs a rule: om_put.induct)
  case (2 k vs j u m)
  have "\<not> k < j" if "k \<noteq> j" using 2(2,3) that by (auto simp: om_get_def om_wf_def dest!: map_of_SomeD)
  then show ?case using 2 by (auto simp: assigned_def om_get_def om_wf_def split: if_splits)
qed simp

lemma push_to_props:
  assumes "om_wf a"
  shows "om_wf (push_to k v a)" "assigned (push_to k v a) = add_mset v (assigned a)"
    and "om_get j (push_to k v a) = (if j = k then Some ((case om_get k a of None \<Rightarrow> [] | Some vs \<Rightarrow> vs) @ [v]) else om_get j a)"
    and "set (map fst (push_to k v a)) = insert k (set (map fst a))"
  using assms assigned_put_new [of k a "[v]"] assigned_put_old [of a k _ "[v]"]
  by (auto simp: push_to_def om_wf_put om_get_put om_put_keys split: option.splits simp del: set_map)

lemma touch_props:
  assumes "om_wf a"
  shows "om_wf (touch k a)" "assigned (touch k a) = assigned a"
    and "set (map fst (touch k a)) = insert k (set (map fst a))"
    and "om_get j (touch k a) = (if j = k \<and> om_get k a = None then Some [] else om_get j a)"
proof -
  have keys: "om_get k a = None \<longleftrightarrow> k \<notin> set (map fst a)" by (simp add: om_get_def map_of_eq_None_iff)
  show "om_wf (touch k a)" "assigned (touch k a) = assigned a"
    "om_get j (touch k a) = (if j = k \<and> om_get k a = None then Some [] else om_get j a)"
    using assms assigned_put_new [of k a "[]"]
    by (simp_all add: touch_def om_wf_put om_get_put split: option.split)
  show "set (map fst (touch k a)) = insert k (set (map fst a))"
    using keys om_put_keys [of k "[]" a] by (auto simp: touch_def split: option.split simp del: set_map)
qed


abbreviation held :: "string \<Rightarrow> assignment \<Rightarrow> topic_partition list" where
  "held x a \<equiv> the (om_get x a)"

lemma om_get_keys: "x \<in> set (map fst a) \<longleftrightarrow> om_get x a \<noteq> None"
  by (simp add: om_get_def map_of_eq_None_iff)

lemma fold_touch:
  "om_wf a \<Longrightarrow> om_wf (fold touch xs a) \<and> assigned (fold touch xs a) = assigned a \<and>
     set (map fst (fold touch xs a)) = set xs \<union> set (map fst a) \<and>
     (\<forall>x \<in> set xs. om_get x a = None \<longrightarrow> om_get x (fold touch xs a) = Some [])"
proof (induction xs arbitrary: a)
  case (Cons x xs)
  note t = touch_props [where k = x, OF Cons.prems]
  have "om_get y (fold touch xs (touch x a)) = Some []" if "y \<in> set (x # xs)" "om_get y a = None" for y
  proof (cases "y \<in> set xs \<and> y \<noteq> x")
    case True
    then show ?thesis using Cons.IH [OF t(1)] t(4) [of y] that by (auto simp del: set_map)
  next
    case False
    then have x: "y = x" using that by auto
    have keep: "om_get y b = Some [] \<Longrightarrow> om_wf b \<Longrightarrow> om_get y (fold touch ys b) = Some []" for ys b
      by (induction ys arbitrary: b) (auto simp: touch_props(1,4))
    show ?thesis using keep [of "touch x a" xs] t(1,4) that x by simp
  qed
  then show ?case using Cons.IH [OF t(1)] t by auto
qed simp

lemma fold_push_to:
  assumes "om_wf a" "x \<in> set (map fst a)"
  shows "om_wf (fold (push_to x) ps a) \<and> assigned (fold (push_to x) ps a) = assigned a + mset ps \<and>
    set (map fst (fold (push_to x) ps a)) = set (map fst a) \<and>
    om_get y (fold (push_to x) ps a) = (if y = x then Some (held x a @ ps) else om_get y a)"
  using assms
proof (induction ps arbitrary: a)
  case Nil
  then show ?case by (auto simp: om_get_keys simp del: set_map)
next
  case (Cons p ps)
  note t = push_to_props [where k = x and v = p, OF Cons.prems(1)]
  have "x \<in> set (map fst (push_to x p a))" using t(4) by simp
  from Cons.IH [OF t(1) this] Cons.prems t show ?case
    by (auto simp: insert_absorb om_get_keys simp del: set_map)
qed

definition share :: "nat \<Rightarrow> nat \<Rightarrow> nat \<Rightarrow> nat" where
  "share per_member remainder m = per_member + (if m < remainder then 1 else 0)"

definition share_start :: "nat \<Rightarrow> nat \<Rightarrow> nat \<Rightarrow> nat" where
  "share_start per_member remainder m = m * per_member + min m remainder"

lemma share_start_Suc: "share_start p r (Suc m) = share_start p r m + share p r m"
  by (simp add: share_start_def share_def min_def)

lemma share_start_mono: "m \<le> n \<Longrightarrow> share_start p r m \<le> share_start p r n"
  by (auto simp: share_start_def intro: add_mono mult_le_mono1)

lemma share_start_all: "0 < k \<Longrightarrow> share_start (n div k) (n mod k) k = n"
  by (simp add: share_start_def min_absorb2 less_imp_le)

lemma range_members_spec:
  assumes "om_wf a" "set xs \<subseteq> set (map fst a)" "distinct xs"
    and "cursor = share_start p r m" "length parts = share_start p r (m + length xs)"
  shows "let b = range_members p r parts m xs cursor a in
    om_wf b \<and> assigned b = assigned a + mset (drop cursor parts) \<and> set (map fst b) = set (map fst a) \<and>
    (\<forall>i < length xs. om_get (xs ! i) b =
       Some (held (xs ! i) a @ slice (share_start p r (m + i)) (share p r (m + i)) parts)) \<and>
    (\<forall>y. y \<notin> set xs \<longrightarrow> om_get y b = om_get y a)"
  using assms
proof (induction xs arbitrary: m cursor a)
  case (Cons x xs)
  let ?n = "share p r m"
  have le: "cursor + ?n \<le> length parts"
    using Cons.prems(4,5) share_start_mono [of "Suc m" "m + length (x # xs)" p r] by (simp add: share_start_Suc)
  then have n: "min ?n (length parts - cursor) = ?n" by simp
  define a' where "a' = fold (push_to x) (slice cursor ?n parts) a"
  have x: "x \<in> set (map fst a)" using Cons.prems(2) by simp
  note f = fold_push_to [OF Cons.prems(1) x, of "slice cursor ?n parts", folded a'_def]
  have step: "range_members p r parts m (x # xs) cursor a = range_members p r parts (Suc m) xs (cursor + ?n) a'"
    using n by (simp add: share_def a'_def Let_def)
  have ih: "let b = range_members p r parts (Suc m) xs (cursor + ?n) a' in
    om_wf b \<and> assigned b = assigned a' + mset (drop (cursor + ?n) parts) \<and> set (map fst b) = set (map fst a') \<and>
    (\<forall>i < length xs. om_get (xs ! i) b =
       Some (held (xs ! i) a' @ slice (share_start p r (Suc m + i)) (share p r (Suc m + i)) parts)) \<and>
    (\<forall>y. y \<notin> set xs \<longrightarrow> om_get y b = om_get y a')"
    using Cons.prems f by (intro Cons.IH) (auto simp: share_start_Suc)
  have split: "drop cursor parts = slice cursor ?n parts @ drop (cursor + ?n) parts"
    by (simp add: slice_def) (metis append_take_drop_id drop_drop add.commute)
  have other: "xs ! i \<noteq> x" if "i < length xs" for i using Cons.prems(3) that by auto
  have "om_get ((x # xs) ! i) (range_members p r parts (Suc m) xs (cursor + ?n) a') =
      Some (held ((x # xs) ! i) a @ slice (share_start p r (m + i)) (share p r (m + i)) parts)"
    if "i < length (x # xs)" for i
    using that ih f other Cons.prems(3,4) by (cases i) (auto simp: Let_def)
  then show ?case unfolding step using ih f by (auto simp: Let_def split)
qed simp


section \<open>Grouping by topic\<close>

abbreviation of_topic :: "string \<Rightarrow> topic_partition list \<Rightarrow> topic_partition list" where
  "of_topic t ps \<equiv> filter (\<lambda>p. tp_topic p = t) ps"

lemma by_topic_spec:
  "om_wf (by_topic ps) \<and> assigned (by_topic ps) = mset ps \<and>
     om_get t (by_topic ps) = (if of_topic t ps = [] then None else Some (of_topic t ps))"
proof (induction ps arbitrary: t rule: rev_induct)
  case Nil
  then show ?case by (simp add: by_topic_def assigned_def)
next
  case (snoc p ps)
  have step: "by_topic (ps @ [p]) = push_to (tp_topic p) p (by_topic ps)" by (simp add: by_topic_def)
  have wf: "om_wf (by_topic ps)" using snoc by simp
  show ?case
    unfolding step using push_to_props [where k = "tp_topic p" and v = p, OF wf] snoc by auto
qed

lemma range_topic_spec:
  assumes "om_wf a" "set xs \<subseteq> set (map fst a)" "distinct xs" "xs \<noteq> []"
  shows "om_wf (range_topic xs parts a)" "assigned (range_topic xs parts a) = assigned a + mset parts"
    "set (map fst (range_topic xs parts a)) = set (map fst a)"
    "i < length xs \<Longrightarrow> \<exists>q. held (xs ! i) (range_topic xs parts a) = held (xs ! i) a @ q \<and> set q \<subseteq> set parts \<and>
       length q = share (length parts div length xs) (length parts mod length xs) i"
proof -
  let ?p = "length parts div length xs" and ?r = "length parts mod length xs"
  have all: "length parts = share_start ?p ?r (0 + length xs)" using assms(4) by (simp add: share_start_all)
  note spec = range_members_spec [OF assms(1-3) _ all, of 0, unfolded share_start_def mult_0 Let_def,
      folded range_topic_def, simplified]
  show "om_wf (range_topic xs parts a)" "assigned (range_topic xs parts a) = assigned a + mset parts"
    "set (map fst (range_topic xs parts a)) = set (map fst a)"
    using spec by simp_all
  assume i: "i < length xs"
  have "share_start ?p ?r i + share ?p ?r i \<le> length parts"
    using share_start_mono [of "Suc i" "length xs" ?p ?r] i all by (simp add: share_start_Suc)
  with spec i show "\<exists>q. held (xs ! i) (range_topic xs parts a) = held (xs ! i) a @ q \<and> set q \<subseteq> set parts \<and>
       length q = share (length parts div length xs) (length parts mod length xs) i"
    by (intro exI [of _ "slice (share_start ?p ?r i) (share ?p ?r i) parts"])
      (auto simp: share_start_def slice_def dest: in_set_takeD in_set_dropD)
qed


text \<open>Dividing several topics: what a member holds of a topic is its share of that topic alone.\<close>

lemma fold_range_topic:
  assumes "om_wf a" "set xs \<subseteq> set (map fst a)" "distinct xs" "xs \<noteq> []"
    and "distinct (map fst es)" "\<forall>(t, parts) \<in> set es. \<forall>p \<in> set parts. tp_topic p = t"
  shows "let b = fold (\<lambda>(t, parts). range_topic xs parts) es a in
    om_wf b \<and> assigned b = assigned a + assigned es \<and> set (map fst b) = set (map fst a) \<and>
    (\<forall>i < length xs. \<forall>t. length (of_topic t (held (xs ! i) b)) = length (of_topic t (held (xs ! i) a)) +
       (case map_of es t of None \<Rightarrow> 0
        | Some parts \<Rightarrow> share (length parts div length xs) (length parts mod length xs) i))"
  using assms
proof (induction es arbitrary: a)
  case Nil
  then show ?case by (simp add: assigned_def)
next
  case (Cons e es)
  obtain u parts where e: "e = (u, parts)" by fastforce
  define a' where "a' = range_topic xs parts a"
  note r = range_topic_spec [OF Cons.prems(1-4), where parts = parts, folded a'_def]
  have ih: "let b = fold (\<lambda>(t, parts). range_topic xs parts) es a' in
    om_wf b \<and> assigned b = assigned a' + assigned es \<and> set (map fst b) = set (map fst a') \<and>
    (\<forall>i < length xs. \<forall>t. length (of_topic t (held (xs ! i) b)) = length (of_topic t (held (xs ! i) a')) +
       (case map_of es t of None \<Rightarrow> 0
        | Some parts \<Rightarrow> share (length parts div length xs) (length parts mod length xs) i))"
    using r Cons.prems by (intro Cons.IH) auto
  have part: "length (of_topic t (held (xs ! i) a')) = length (of_topic t (held (xs ! i) a)) +
      (if t = u then share (length parts div length xs) (length parts mod length xs) i else 0)"
    if i: "i < length xs" for i t
  proof -
    from r(4) [OF i] obtain q where q: "held (xs ! i) a' = held (xs ! i) a @ q" "set q \<subseteq> set parts"
      "length q = share (length parts div length xs) (length parts mod length xs) i" by blast
    have "\<forall>p \<in> set q. tp_topic p = u" using q(2) Cons.prems(6) e by auto
    then have "of_topic t q = (if t = u then q else [])" by (auto simp: filter_empty_conv filter_id_conv)
    then show ?thesis using q(1,3) by simp
  qed
  have "map_of es u = None" using Cons.prems(5) e by (simp add: map_of_eq_None_iff)
  then show ?case using ih part r e
    by (auto simp: Let_def a'_def [symmetric] assigned_def split: option.split)
qed

section \<open>Dealing in turn\<close>

lemma next_share:
  assumes "0 < k" "j < k"
  shows "Suc n div k + (if j < Suc n mod k then 1 else 0) =
    n div k + (if j < n mod k then 1 else 0) + (if j = n mod k then 1 else (0::nat))"
  using assms mod_less_divisor [OF assms(1), of n] by (auto simp: div_Suc mod_Suc)

lemma deal_round_spec:
  assumes "om_wf a" "set xs \<subseteq> set (map fst a)" "distinct xs" "xs \<noteq> []"
    and "\<forall>j < length xs. length (held (xs ! j) a) = n div length xs + (if j < n mod length xs then 1 else 0)"
  shows "let b = deal_round xs n ps a in
    om_wf b \<and> assigned b = assigned a + mset ps \<and> set (map fst b) = set (map fst a) \<and>
    (\<forall>j < length xs. length (held (xs ! j) b) =
       (n + length ps) div length xs + (if j < (n + length ps) mod length xs then 1 else 0))"
  using assms
proof (induction ps arbitrary: a n)
  case (Cons p ps)
  define x where "x = xs ! (n mod length xs)"
  have x: "x \<in> set (map fst a)" using Cons.prems(2,4) by (auto simp: x_def)
  note t = push_to_props [where k = x and v = p, OF Cons.prems(1)]
  have "length (held (xs ! j) (push_to x p a)) = Suc n div length xs + (if j < Suc n mod length xs then 1 else 0)"
    if j: "j < length xs" for j
  proof -
    have "xs ! j = x \<longleftrightarrow> j = n mod length xs"
      using j Cons.prems(3,4) by (simp add: x_def nth_eq_iff_index_eq)
    then have "length (held (xs ! j) (push_to x p a)) = length (held (xs ! j) a) + (if j = n mod length xs then 1 else 0)"
      using t(3) x by (auto simp: om_get_keys simp del: set_map)
    with Cons.prems(4,5) j next_share [of "length xs" j n] show ?thesis by simp
  qed
  then have "let b = deal_round xs (Suc n) ps (push_to x p a) in
    om_wf b \<and> assigned b = assigned (push_to x p a) + mset ps \<and> set (map fst b) = set (map fst (push_to x p a)) \<and>
    (\<forall>j < length xs. length (held (xs ! j) b) =
       (Suc n + length ps) div length xs + (if j < (Suc n + length ps) mod length xs then 1 else 0))"
    using Cons.prems t by (intro Cons.IH) auto
  then show ?case using t x by (simp add: Let_def x_def insert_absorb del: set_map)
qed simp


section \<open>Both strategies\<close>

definition even_shares :: "assignment_strategy \<Rightarrow> topic_partition list \<Rightarrow> topic_partition list \<Rightarrow> bool" where
  "even_shares strategy ps qs \<longleftrightarrow>
     (case strategy of
        StrategyRoundRobin \<Rightarrow> length ps \<le> length qs + 1
      | StrategyRange \<Rightarrow> \<forall>t. length (of_topic t ps) \<le> length (of_topic t qs) + 1)"

lemma start_members:
  "let a = fold touch (SortedMembers ms) [] in om_wf a \<and> assigned a = {#} \<and> set (map fst a) = set ms \<and>
     (\<forall>i < length (SortedMembers ms). held (SortedMembers ms ! i) a = [])"
proof -
  have "SortedMembers ms ! i \<in> set ms" if "i < length (SortedMembers ms)" for i
    using nth_mem [OF that] by simp
  then show ?thesis using fold_touch [of "[] :: assignment" "SortedMembers ms"]
    by (simp add: Let_def assigned_def [of "[] :: assignment"] del: set_map)
qed

lemma member_index: "x \<in> set ms \<Longrightarrow> \<exists>i < length (SortedMembers ms). x = SortedMembers ms ! i"
  using in_set_conv_nth [of x "SortedMembers ms"] by auto

lemma AssignRoundRobin_spec:
  assumes "ms \<noteq> []"
  shows "let a = AssignRoundRobin ms ps in om_wf a \<and> set (map fst a) = set ms \<and> assigned a = mset (SortedPartitions ps) \<and>
    (\<forall>x \<in> set ms. \<forall>y \<in> set ms. even_shares StrategyRoundRobin (held x a) (held y a))"
proof -
  let ?xs = "SortedMembers ms"
  define a0 :: assignment where "a0 = fold touch ?xs []"
  define a where "a = deal_round ?xs 0 (SortedPartitions ps) a0"
  note st = start_members [of ms, folded a0_def, unfolded Let_def]
  have sub: "set ?xs \<subseteq> set (map fst a0)" and ne: "?xs \<noteq> []" using st assms by (simp_all del: set_map)
  have zero: "\<forall>j < length ?xs. length (held (?xs ! j) a0) = 0 div length ?xs + (if j < 0 mod length ?xs then 1 else 0)"
    using st by simp
  note spec = deal_round_spec [of a0 ?xs 0 "SortedPartitions ps", OF conjunct1 [OF st] sub SortedMembers_props(2) ne zero]
  have "length (held x a) \<le> length (held y a) + 1" if x: "x \<in> set ms" and y: "y \<in> set ms" for x y
  proof -
    obtain i j where "i < length ?xs" "x = ?xs ! i" "j < length ?xs" "y = ?xs ! j"
      using member_index [OF x] member_index [OF y] by blast
    then show ?thesis using spec by (simp add: Let_def a_def)
  qed
  moreover have "AssignRoundRobin ms ps = a" using assms by (simp add: AssignRoundRobin_def a0_def a_def Let_def)
  ultimately show ?thesis using spec st by (simp add: Let_def even_shares_def a_def del: set_map)
qed

lemma AssignRange_spec:
  assumes "ms \<noteq> []"
  shows "let a = AssignRange ms ps in om_wf a \<and> set (map fst a) = set ms \<and> assigned a = mset (SortedPartitions ps) \<and>
    (\<forall>x \<in> set ms. \<forall>y \<in> set ms. even_shares StrategyRange (held x a) (held y a))"
proof -
  let ?xs = "SortedMembers ms" and ?es = "by_topic (SortedPartitions ps)"
  define a0 :: assignment where "a0 = fold touch ?xs []"
  define a where "a = fold (\<lambda>(t, parts). range_topic ?xs parts) ?es a0"
  note st = start_members [of ms, folded a0_def, unfolded Let_def]
  have es: "om_wf ?es" "assigned ?es = mset (SortedPartitions ps)" by (simp_all add: by_topic_spec)
  have topics: "\<forall>(t, parts) \<in> set ?es. \<forall>p \<in> set parts. tp_topic p = t"
    using es(1) by (auto simp: omap.items_lookup by_topic_spec split: if_splits)
  have sub: "set ?xs \<subseteq> set (map fst a0)" and ne: "?xs \<noteq> []" using st assms by (simp_all del: set_map)
  note spec = fold_range_topic [OF conjunct1 [OF st] sub SortedMembers_props(2) ne om_wf_distinct [OF es(1)] topics,
      folded a_def, unfolded Let_def]
  have "length (of_topic t (held x a)) \<le> length (of_topic t (held y a)) + 1" if x: "x \<in> set ms" and y: "y \<in> set ms" for x y t
  proof -
    obtain i j where "i < length ?xs" "x = ?xs ! i" "j < length ?xs" "y = ?xs ! j"
      using member_index [OF x] member_index [OF y] by blast
    then show ?thesis using spec st by (simp add: share_def split: option.split)
  qed
  moreover have "AssignRange ms ps = a" using assms by (simp add: AssignRange_def a0_def a_def Let_def)
  ultimately show ?thesis using spec st es(2) by (simp add: Let_def even_shares_def del: set_map)
qed

lemma Assign_sets:
  assumes "set ms' = set ms" "set ps' = set ps"
  shows "Assign strategy ms' ps' = Assign strategy ms ps"
proof -
  have "SortedMembers ms' = SortedMembers ms" "SortedPartitions ps' = SortedPartitions ps"
    using assms by (simp_all add: SortedMembers_def SortedPartitions_def remdups_adj_sort)
  then show ?thesis by (simp add: Assign_def AssignRange_def AssignRoundRobin_def Let_def split: assignment_strategy.split)
qed

lemma Assign_spec:
  assumes "ms \<noteq> []"
  shows "let a = Assign strategy ms ps in om_wf a \<and> set (map fst a) = set ms \<and> assigned a = mset_set (set ps) \<and>
    (\<forall>x \<in> set ms. \<forall>y \<in> set ms. even_shares strategy (held x a) (held y a))"
  using AssignRange_spec [OF assms, of ps] AssignRoundRobin_spec [OF assms, of ps] mset_set_set [of "SortedPartitions ps"]
  by (cases strategy) (simp_all add: Assign_def Let_def del: set_map)

text \<open>
  C14: \<^bold>\<open>Every partition goes to exactly one member.\<close>  For a group with members, both strategies give
  every member an entry and together hand out each partition exactly once and nothing else.  Round
  robin gives any two members numbers of partitions that differ by at most one; range does so for
  each topic.  The result depends only on the sets of members and partitions.
\<close>

theorem Assign_exactly_once:
  assumes "ms \<noteq> []"
  shows "let a = Assign strategy ms ps in
    om_wf a \<and> set (map fst a) = set ms \<and> mset (concat (map snd a)) = mset_set (set ps) \<and>
    (\<forall>x \<in> set ms. \<forall>y \<in> set ms. even_shares strategy (held x a) (held y a)) \<and>
    (\<forall>ms' ps'. set ms' = set ms \<and> set ps' = set ps \<longrightarrow> Assign strategy ms' ps' = a)"
proof -
  have "Assign strategy ms' ps' = Assign strategy ms ps" if "set ms' = set ms \<and> set ps' = set ps" for ms' ps'
    using that by (intro Assign_sets) simp_all
  with Assign_spec [OF assms, of strategy ps] show ?thesis unfolding Let_def assigned_def by blast
qed

theorem Assign_exactly_once_witness:
  "mset (concat (map snd (Assign StrategyRange [''b'', ''a''] [TopicPartition ''t'' 0, TopicPartition ''t'' 1]))) =
     {# TopicPartition ''t'' 0, TopicPartition ''t'' 1 #}"
proof -
  have "[''b'', ''a''] \<noteq> []" by simp
  from Assign_exactly_once [OF this, of StrategyRange "[TopicPartition ''t'' 0, TopicPartition ''t'' 1]"]
  have "mset (concat (map snd (Assign StrategyRange [''b'', ''a''] [TopicPartition ''t'' 0, TopicPartition ''t'' 1]))) =
     mset_set (set [TopicPartition ''t'' 0, TopicPartition ''t'' 1])"
    unfolding Let_def by (elim conjE)
  then show ?thesis by simp
qed

end
