(* ===== verification/PL_Offset_Store.thy ===== *)
theory PL_Offset_Store
  imports PL_Omap PL_Recovery
begin

text \<open>
  Committed consumer offsets (\<open>include/pulselog/consumer/offset_store.h\<close>,
  \<open>src/consumer/offset_store.cc\<close>): a map that is kept in memory, a journal of the commits in a
  partition log, and the replay that rebuilds the map from the journal.
\<close>

section \<open>Keys and values\<close>

record committed_offset =
  co_offset :: offset
  co_metadata :: string
  co_commit_time :: timestamp_ms

datatype offset_key = OffsetKey (ok_group: string) (ok_topic: string) (ok_partition: int)

lemma offset_key_eq_iff:
  "a = b \<longleftrightarrow> ok_group a = ok_group b \<and> ok_topic a = ok_topic b \<and> ok_partition a = ok_partition b"
  by (cases a; cases b) simp

instantiation offset_key :: linorder
begin

definition less_offset_key :: "offset_key \<Rightarrow> offset_key \<Rightarrow> bool" where
  "less_offset_key a b =
     (if ok_group a \<noteq> ok_group b then ok_group a < ok_group b
      else if ok_topic a \<noteq> ok_topic b then ok_topic a < ok_topic b
      else ok_partition a < ok_partition b)"

definition less_eq_offset_key :: "offset_key \<Rightarrow> offset_key \<Rightarrow> bool" where
  "less_eq_offset_key a b \<longleftrightarrow> a < b \<or> a = b"

instance
  by standard (auto simp: less_offset_key_def less_eq_offset_key_def offset_key_eq_iff split: if_splits)

end

definition EncodeKey :: "offset_key \<Rightarrow> byte_buffer \<Rightarrow> byte_buffer" where
  "EncodeKey key out = PutI32 (ok_partition key) (PutString (ok_topic key) (PutString (ok_group key) out))"

definition read_key :: "offset_key get" where
  "read_key =
     get_bind GetString (\<lambda>group.
     get_bind GetString (\<lambda>topic.
     get_bind GetI32 (\<lambda>partition. get_return (OffsetKey group topic partition))))"

definition DecodeKey :: "bytes \<Rightarrow> offset_key option" where
  "DecodeKey bytes =
     (case read_key (PayloadReader bytes) of
        (None, _) \<Rightarrow> None
      | (Some key, rd) \<Rightarrow> if ok_partition key < 0 then None else if Complete rd then Some key else None)"

definition EncodeValue :: "committed_offset \<Rightarrow> byte_buffer \<Rightarrow> byte_buffer" where
  "EncodeValue v out = PutString (co_metadata v) (PutI64 (co_commit_time v) (PutI64 (co_offset v) out))"

definition read_value :: "committed_offset get" where
  "read_value =
     get_bind GetI64 (\<lambda>off.
     get_bind GetI64 (\<lambda>time.
     get_bind GetString (\<lambda>meta. get_return \<lparr>co_offset = off, co_metadata = meta, co_commit_time = time\<rparr>)))"

definition DecodeValue :: "bytes \<Rightarrow> committed_offset option" where
  "DecodeValue bytes =
     (case read_value (PayloadReader bytes) of
        (None, _) \<Rightarrow> None
      | (Some v, rd) \<Rightarrow> if Complete rd then Some v else None)"

section \<open>The store\<close>

record offset_store =
  st_log :: partition_log
  st_closed :: bool
  st_offsets :: "(offset_key, committed_offset) omap"
  st_sync_on_commit :: bool
  st_replayed_records :: nat
  st_scratch :: byte_buffer

definition NewOffsetStore :: "partition_log \<Rightarrow> bool \<Rightarrow> offset_store" where
  "NewOffsetStore log sync_on_commit =
     \<lparr>st_log = log, st_closed = False, st_offsets = [], st_sync_on_commit = sync_on_commit,
      st_replayed_records = 0, st_scratch = EmptyBuffer\<rparr>"

definition offset_log_options :: "bool \<Rightarrow> log_options" where
  "offset_log_options sync_on_commit =
     \<lparr>lo_segment_bytes = 8 * 1024 * 1024, lo_segment_ms = - 1, lo_index_interval_bytes = 4096,
      lo_retention_bytes = - 1, lo_retention_ms = - 1, lo_min_free_disk_bytes = 64 * 1024 * 1024,
      lo_preallocate = False, lo_write_mode = WriteModeWrite, lo_sync_mode = SyncFull,
      lo_flush = \<lparr>fp_sync_on_append = sync_on_commit, fp_interval_ms = 200,
                  fp_max_unflushed_bytes = 256 * 1024, fp_max_unflushed_records = 100\<rparr>\<rparr>"

text \<open>One record of the journal; a record whose key cannot be parsed is skipped without being counted.\<close>

definition replay_record :: "bytes \<Rightarrow> record_view \<Rightarrow> offset_store \<Rightarrow> offset_store" where
  "replay_record data v st =
     (case DecodeKey (span_bytes data (rv_key v)) of
        None \<Rightarrow> st
      | Some key \<Rightarrow>
          let st' = (if tombstone v then st\<lparr>st_offsets := om_erase key (st_offsets st)\<rparr>
                     else case DecodeValue (span_bytes data (rv_value v)) of
                         Some val \<Rightarrow> st\<lparr>st_offsets := om_put key val (st_offsets st)\<rparr>
                       | None \<Rightarrow> st)
          in st'\<lparr>st_replayed_records := st_replayed_records st' + 1\<rparr>)"

function replay_records :: "record_iterator \<Rightarrow> offset_store \<Rightarrow> record_iterator \<times> offset_store" where
  "replay_records it st =
     (case Iterator_Next it of
        (None, it') \<Rightarrow> (it', st)
      | (Some v, it') \<Rightarrow> replay_records it' (replay_record (ri_data it) v st))"
  by pat_completeness auto
termination
  by (relation "measure (\<lambda>(it, st). length (ri_data it) - ri_pos it)")
    (auto simp: Iterator_Next_def dest: ParseRecord_framed(1) split: if_splits sum.splits)

declare replay_records.simps [simp del]

function replay_loop :: "offset \<Rightarrow> offset \<Rightarrow> byte_buffer \<Rightarrow> offset_store \<Rightarrow> os \<Rightarrow> unit result \<times> offset_store \<times> os" where
  "replay_loop log_end cursor buffer st w =
     (if cursor < log_end then
        (case Log_Read cursor (2 ^ 20) (Clear buffer) (st_log st) w of
           (Inl e, _, w1) \<Rightarrow> (Inl e, st, w1)
         | (Inr rd, buffer', w1) \<Rightarrow>
             if lr_record_count rd = 0 then (Inr (), st, w1)
             else (case replay_records (RecordIterator (Readable buffer') True) st of
                     (it, st1) \<Rightarrow>
                       if ri_status it \<noteq> kOk then (Inl (ri_status it), st1, w1)
                       else replay_loop log_end (cursor + int (lr_record_count rd)) buffer' st1 w1))
      else (Inr (), st, w))"
  by pat_completeness auto
termination
  by (relation "measure (\<lambda>(log_end, cursor, buffer, st, w). nat (log_end - cursor))") auto

declare replay_loop.simps [simp del]

definition Replay :: "offset_store \<Rightarrow> os \<Rightarrow> unit result \<times> offset_store \<times> os" where
  "Replay st w =
     (if pl_log_end_offset (st_log st) = 0 then (Inr (), st, w)
      else replay_loop (pl_log_end_offset (st_log st)) (pl_log_start_offset (st_log st)) EmptyBuffer st w)"

definition OffsetStore_Open ::
  "bool \<Rightarrow> string list \<Rightarrow> (offset \<Rightarrow> segment_files) \<Rightarrow> os \<Rightarrow> (offset_store result \<times> os) option" where
  "OffsetStore_Open sync_on_commit names dir w =
     (case PartitionLog_Open (offset_log_options sync_on_commit) names dir w of
        None \<Rightarrow> None
      | Some (Inl e, w1) \<Rightarrow> Some (Inl e, w1)
      | Some (Inr (_, log), w1) \<Rightarrow>
          (case Replay (NewOffsetStore log sync_on_commit) w1 of
             (Inl e, _, w2) \<Rightarrow> Some (Inl e, w2)
           | (Inr _, st, w2) \<Rightarrow> Some (Inr st, w2)))"

definition OffsetStore_Commit ::
  "offset_key \<Rightarrow> offset \<Rightarrow> string \<Rightarrow> timestamp_ms \<Rightarrow> offset_store \<Rightarrow> os \<Rightarrow> unit result \<times> offset_store \<times> os" where
  "OffsetStore_Commit key off metadata now st w =
     (let val = \<lparr>co_offset = off, co_metadata = metadata, co_commit_time = now\<rparr>;
          key_bytes = Readable (EncodeKey key EmptyBuffer);
          value_bytes = Readable (EncodeValue val EmptyBuffer);
          scratch = snd (AppendRecord (Clear (st_scratch st)) 0 now 0 False key_bytes value_bytes)
      in case AppendAssigningOffsets (Readable scratch) 1 (st_log st) w of
        (Inl e, _, log, w1) \<Rightarrow> (Inl e, st\<lparr>st_log := log, st_scratch := scratch\<rparr>, w1)
      | (Inr _, _, log, w1) \<Rightarrow>
          (Inr (), st\<lparr>st_log := log, st_scratch := scratch, st_offsets := om_put key val (st_offsets st)\<rparr>, w1))"

definition OffsetStore_Get :: "offset_key \<Rightarrow> offset_store \<Rightarrow> committed_offset option" where
  "OffsetStore_Get key st = om_get key (st_offsets st)"

definition ForGroup :: "string \<Rightarrow> offset_store \<Rightarrow> (offset_key, committed_offset) omap" where
  "ForGroup group_id st = filter (\<lambda>(key, _). ok_group key = group_id) (st_offsets st)"

definition OffsetStore_Size :: "offset_store \<Rightarrow> nat" where
  "OffsetStore_Size st = length (st_offsets st)"

definition OffsetStore_Flush :: "offset_store \<Rightarrow> os \<Rightarrow> unit result \<times> offset_store \<times> os" where
  "OffsetStore_Flush st w =
     (if st_closed st then (Inr (), st, w)
      else case Flush (st_log st) w of (r, log, w1) \<Rightarrow> (r, st\<lparr>st_log := log\<rparr>, w1))"

definition OffsetStore_Close :: "offset_store \<Rightarrow> os \<Rightarrow> unit result \<times> offset_store \<times> os" where
  "OffsetStore_Close st w =
     (if st_closed st then (Inr (), st, w)
      else case Flush (st_log st) w of
        (flush, log1, w1) \<Rightarrow>
          (case Log_Close log1 w1 of
             (close, log2, w2) \<Rightarrow>
               (case flush of Inl e \<Rightarrow> Inl e | Inr _ \<Rightarrow> close, st\<lparr>st_log := log2, st_closed := True\<rparr>, w2)))"

end
