(* ===== verification/PL_Offset_Store_Props.thy ===== *)
theory PL_Offset_Store_Props
  imports PL_Offset_Store
begin

text \<open>
  The journal of committed offsets and the map in memory agree: replaying the journal of any store
  that commits have reached gives the map of that store.
\<close>

section \<open>Keys and values survive their encoding\<close>

definition key_ok :: "offset_key \<Rightarrow> bool" where
  "key_ok k \<longleftrightarrow> string_ok (ok_group k) \<and> string_ok (ok_topic k) \<and> is_i32 (ok_partition k) \<and> 0 \<le> ok_partition k"

definition value_ok :: "committed_offset \<Rightarrow> bool" where
  "value_ok v \<longleftrightarrow> is_i64 (co_offset v) \<and> is_i64 (co_commit_time v) \<and> string_ok (co_metadata v)"

interpretation journal_key: wire_codec EncodeKey read_key key_ok
proof unfold_locales
  fix k assume "key_ok k"
  then show "parses read_key (wire_of EncodeKey k) k"
    unfolding read_key_def
    by (cases k) (auto simp: wire_of_def EncodeKey_def key_ok_def intro!: parses_steps parses_chain)
qed (simp_all add: wire_of_def EncodeKey_def)

interpretation journal_value: wire_codec EncodeValue read_value value_ok
proof unfold_locales
  fix v assume "value_ok v"
  then show "parses read_value (wire_of EncodeValue v) v"
    unfolding read_value_def
    by (cases v) (auto simp: wire_of_def EncodeValue_def value_ok_def intro!: parses_steps parses_chain)
qed (simp_all add: wire_of_def EncodeValue_def)

lemma DecodeKey_encoded: "key_ok k \<Longrightarrow> DecodeKey (Readable (EncodeKey k EmptyBuffer)) = Some k"
  using journal_key.whole.roundtrip [of k]
  by (auto simp: DecodeKey_def key_ok_def split: prod.split option.split)

lemma DecodeValue_encoded: "value_ok v \<Longrightarrow> DecodeValue (Readable (EncodeValue v EmptyBuffer)) = Some v"
  using journal_value.whole.roundtrip [of v]
  by (auto simp: DecodeValue_def split: prod.split option.split)

lemma encoded_lengths:
  assumes "key_ok k" "value_ok v"
  shows "length (Readable (EncodeKey k EmptyBuffer)) \<le> 2 ^ 17 + 8" "length (Readable (EncodeValue v EmptyBuffer)) \<le> 2 ^ 16 + 18"
  using assms by (simp_all add: EncodeKey_def EncodeValue_def key_ok_def value_ok_def string_ok_def string_bytes_def)

section \<open>Restamped records\<close>

lemma restamp_plain:
  assumes ok: "plain_ok p" and r: "framed r" "crc_good r" "take 4 r = take 4 (plain_wire p)"
    "drop 24 r = drop 24 (plain_wire p)"
  shows "\<exists>off ts. r = plain_wire (Plain off ts (pl_attr p) (pl_key p) (pl_val p)) \<and>
    plain_ok (Plain off ts (pl_attr p) (pl_key p) (pl_val p))"
proof -
  define off where "off = LoadLeI64 (drop 8 r)"
  define ts where "ts = LoadLeI64 (drop 16 r)"
  let ?p = "Plain off ts (pl_attr p) (pl_key p) (pl_val p)"
  have 25: "25 \<le> length r" using r(1) by (simp add: framed_def)
  have split: "drop a r = take b (drop a r) @ drop (a + b) r" for a b
    by (metis append_take_drop_id drop_drop add.commute)
  have crc: "take 4 (drop 4 r) = StoreLe32 (Crc32c (drop 8 r))"
    using r(2) 25 Store_Load(2) [of "take 4 (drop 4 r)"] by (simp add: crc_good_def LoadLe_take)
  have fld: "take 8 (drop 8 r) = StoreLeI64 off" "take 8 (drop 16 r) = StoreLeI64 ts"
    using 25 Store_Load(3) [of "take 8 (drop 8 r)"] Store_Load(3) [of "take 8 (drop 16 r)"]
    by (simp_all add: off_def ts_def StoreLeI64_def LoadLeI64_def LoadLe_take)
  define b where "b = drop 24 (plain_wire p)"
  have body: "drop 8 r = StoreLeI64 off @ StoreLeI64 ts @ b"
    using split [of 8 8] split [of 16 8] fld r(4) by (simp add: b_def)
  have wire: "plain_wire q = take 4 (plain_wire p) @ StoreLe32 (Crc32c (StoreLeI64 (pl_off q) @ StoreLeI64 (pl_ts q) @ b)) @
      StoreLeI64 (pl_off q) @ StoreLeI64 (pl_ts q) @ b"
    if "pl_attr q = pl_attr p" "pl_key q = pl_key p" "pl_val q = pl_val p" for q
    using that by (simp add: b_def plain_wire_def record_wire_def record_body_def Let_def)
  have "r = take 4 r @ take 4 (drop 4 r) @ drop 8 r" using split [of 0 4] split [of 4 4] by simp
  then have "r = plain_wire ?p" using wire [of ?p] crc body r(3) by simp
  moreover have "is_i64 off" "is_i64 ts"
    using sint_range_size [of "LoadLe64 (drop 8 r)"] sint_range_size [of "LoadLe64 (drop 16 r)"]
    by (simp_all add: off_def ts_def LoadLeI64_def is_i64_def word_size)
  ultimately show ?thesis using ok by (intro exI [of _ off] exI [of _ ts]) (simp add: plain_ok_def)
qed

section \<open>The journal\<close>

text \<open>The record that a commit leaves in the log.\<close>

definition journal_rec :: "plain_record \<Rightarrow> offset_key \<times> committed_offset \<Rightarrow> bool" where
  "journal_rec p e \<longleftrightarrow> plain_ok p \<and> pl_attr p = 0 \<and> key_ok (fst e) \<and> value_ok (snd e) \<and>
     pl_key p = Some (Readable (EncodeKey (fst e) EmptyBuffer)) \<and>
     pl_val p = Readable (EncodeValue (snd e) EmptyBuffer)"

definition apply_commits :: "(offset_key \<times> committed_offset) list \<Rightarrow> (offset_key, committed_offset) omap \<Rightarrow>
    (offset_key, committed_offset) omap" where
  "apply_commits js m = fold (\<lambda>(k, v). om_put k v) js m"

lemma apply_commits_append: "apply_commits (js @ ks) m = apply_commits ks (apply_commits js m)"
  by (simp add: apply_commits_def)

definition journal :: "partition_log \<Rightarrow> (offset_key \<times> committed_offset) list \<Rightarrow> bool" where
  "journal log js \<longleftrightarrow> (\<exists>rss ps. log_inv log rss \<and> clean_dir log \<and> pl_log_start_offset log = 0 \<and>
     concat rss = map plain_wire ps \<and> list_all2 journal_rec ps js)"

lemma journal_rec_small: "journal_rec p e \<Longrightarrow> length (plain_wire p) \<le> kMaxRecordBytes"
proof -
  assume j: "journal_rec p e"
  let ?k = "Readable (EncodeKey (fst e) EmptyBuffer)" and ?v = "Readable (EncodeValue (snd e) EmptyBuffer)"
  have "length (plain_wire p) \<le> 45 + length ?k + length ?v"
    using j length_varuint_bytes [of "key_field False (length ?k)"] length_varuint_bytes [of "word_of_nat (length ?v)"]
    by (simp add: journal_rec_def plain_wire_def length_record_wire EncodedRecordSize_def kRecordFixedPrefix_def VarUIntSize_eq)
  moreover have "length ?k \<le> 2 ^ 17 + 8" "length ?v \<le> 2 ^ 16 + 18"
    using encoded_lengths [of "fst e" "snd e"] j by (simp_all add: journal_rec_def)
  ultimately show ?thesis by (simp add: kMaxRecordBytes_def)
qed

lemma journal_small: "list_all2 journal_rec ps js \<Longrightarrow> \<forall>p \<in> set ps. length (plain_wire p) \<le> kMaxRecordBytes"
  by (induction rule: list_all2_induct) (auto dest: journal_rec_small)

lemma replay_record_journal:
  assumes "journal_rec (view_record data v) e"
  shows "replay_record data v st = st\<lparr>st_offsets := om_put (fst e) (snd e) (st_offsets st),
    st_replayed_records := st_replayed_records st + 1\<rparr>"
  using assms DecodeKey_encoded [of "fst e"] DecodeValue_encoded [of "snd e"]
  by (auto simp: replay_record_def journal_rec_def view_record_def tombstone_def Let_def split: if_splits)


lemma replay_records_journal:
  assumes "list_all2 journal_rec ps js" "length data < 2 ^ 64" "drop (ri_pos it) data = concat (map plain_wire ps)"
    "ri_data it = data" "ri_status it = kOk"
  shows "\<exists>it'. replay_records it st = (it', st\<lparr>st_offsets := apply_commits js (st_offsets st),
      st_replayed_records := st_replayed_records st + length js\<rparr>) \<and> ri_status it' = kOk"
  using assms(1,3-)
proof (induction ps js arbitrary: it st rule: list_all2_induct)
  case Nil
  then show ?case by (subst replay_records.simps) (simp add: Iterator_Next_def apply_commits_def)
next
  case (Cons p ps e js)
  let ?rest = "concat (map plain_wire ps)"
  let ?it = "it\<lparr>ri_pos := ri_pos it + length (plain_wire p), ri_records_read := ri_records_read it + 1\<rparr>"
  have ok: "plain_ok p" using Cons.hyps(1) by (simp add: journal_rec_def)
  have ne: "plain_wire p \<noteq> []" by (simp add: plain_wire_def record_wire_def Let_def flip: length_0_conv)
  have d: "drop (ri_pos it) data = plain_wire p @ ?rest" using Cons.prems by simp
  then have lt: "ri_pos it < length data" using ne by (metis append_is_Nil_conv drop_eq_Nil not_le)
  obtain v where v: "ParseRecord data (ri_pos it) (ri_verify_crc it) = Inr (v, ri_pos it + length (plain_wire p))"
      "view_record data v = p"
    using ParseRecord_plain [OF d ok] assms(2) by auto
  then have n: "Iterator_Next it = (Some v, ?it)"
    using lt Cons.prems by (simp add: Iterator_Next_def)
  have d': "drop (ri_pos ?it) data = ?rest"
    using arg_cong [OF d, of "drop (length (plain_wire p))"] by (simp add: add.commute)
  let ?st = "st\<lparr>st_offsets := om_put (fst e) (snd e) (st_offsets st), st_replayed_records := st_replayed_records st + 1\<rparr>"
  have "replay_record data v st = ?st" by (rule replay_record_journal) (use v(2) Cons.hyps(1) in simp)
  then have step: "replay_records it st = replay_records ?it ?st"
    using n Cons.prems by (subst replay_records.simps) simp
  from Cons.IH [of ?it ?st] d' Cons.prems show ?case
    unfolding step by (auto simp: apply_commits_def split_def)
qed

lemma delivered_length:
  assumes "0 < n" "n \<le> length ps - k" "0 < n \<longrightarrow> length (concat (take (n - 1) (drop k (map plain_wire ps)))) < 2 ^ 20"
    and "\<forall>p \<in> set ps. length (plain_wire p) \<le> kMaxRecordBytes"
  shows "length (concat (take n (drop k (map plain_wire ps)))) \<le> 2 ^ 20 + kMaxRecordBytes"
proof -
  have i: "n - 1 < length (drop k (map plain_wire ps))" using assms(1,2) by simp
  have "take n (drop k (map plain_wire ps)) =
      take (n - 1) (drop k (map plain_wire ps)) @ [drop k (map plain_wire ps) ! (n - 1)]"
    using take_Suc_conv_app_nth [OF i] assms(1) by simp
  moreover have "length (drop k (map plain_wire ps) ! (n - 1)) \<le> kMaxRecordBytes"
    using i assms(4) by simp
  ultimately show ?thesis using assms(1,3) by (simp del: length_concat)
qed

lemma replay_loop_journal:
  assumes inv: "log_inv log rss" and start: "pl_log_start_offset log = 0"
    and recs: "concat rss = map plain_wire ps" and js: "list_all2 journal_rec ps js" and q: "quiet w"
  shows "k \<le> length ps \<Longrightarrow> st_log st = log \<Longrightarrow>
    \<exists>n. replay_loop (pl_log_end_offset log) (int k) buffer st w =
      (Inr (), st\<lparr>st_offsets := apply_commits (drop k js) (st_offsets st), st_replayed_records := n\<rparr>, w)"
proof (induction "length ps - k" arbitrary: k st buffer rule: less_induct)
  case less
  have le: "pl_log_end_offset log = int (length ps)" using inv start recs by (simp add: log_inv_def)
  have lj: "length js = length ps" using js by (simp add: list_all2_lengthD)
  show ?case
  proof (cases "k < length ps")
    case False
    then show ?thesis using less.prems le lj
      by (subst replay_loop.simps) (auto simp: apply_commits_def intro!: exI [of _ "st_replayed_records st"])
  next
    case True
    obtain r out w' where run: "Log_Read (int k) (2 ^ 20) (Clear buffer) log w = (r, out, w')" using prod_cases3 by blast
    have small: "list_all (\<lambda>x. length x \<le> kMaxRecordBytes) (concat rss)"
      using journal_small [OF js] by (simp add: recs list_all_iff)
    have lt: "k < length (concat rss)" using True recs by simp
    have run': "Log_Read (pl_log_start_offset log + int k) (2 ^ 20) (Clear buffer) log w = (r, out, w')"
      using run start by simp
    note D = Log_Read_delivers [OF inv lt buf_ok_Clear(1) run']
    obtain x where x: "r = Inr x" and w: "w' = w" using D q small by blast
    from D x obtain n where n: "n \<le> length ps - k" "lr_record_count x = n"
      "Readable out = concat (take n (drop k (map plain_wire ps)))"
      "n = length ps - k \<or> 2 ^ 20 \<le> length (concat (take n (drop k (map plain_wire ps))))"
      "0 < n \<longrightarrow> length (concat (take (n - 1) (drop k (map plain_wire ps)))) < 2 ^ 20"
      by (auto simp: delivers_def recs simp del: length_concat)
    have n0: "0 < n" using n(4) True by (cases n) auto
    let ?ps = "take n (drop k ps)" and ?js = "take n (drop k js)"
    have out: "Readable out = concat (map plain_wire ?ps)" using n(3) by (simp add: take_map drop_map)
    have "length (Readable out) \<le> 2 ^ 20 + kMaxRecordBytes"
      using delivered_length [OF n0 n(1,5) journal_small [OF js]] n(3) by simp
    then have data: "length (Readable out) < 2 ^ 64" by (simp add: kMaxRecordBytes_def)
    obtain it where it: "replay_records (RecordIterator (Readable out) True) st =
        (it, st\<lparr>st_offsets := apply_commits ?js (st_offsets st),
               st_replayed_records := st_replayed_records st + length ?js\<rparr>)" "ri_status it = kOk"
      using replay_records_journal [OF list_all2_takeI [OF list_all2_dropI [OF js]] data, of "RecordIterator (Readable out) True" n k st]
        out by (auto simp: RecordIterator_def)
    let ?st = "st\<lparr>st_offsets := apply_commits ?js (st_offsets st),
               st_replayed_records := st_replayed_records st + length ?js\<rparr>"
    have step: "replay_loop (pl_log_end_offset log) (int k) buffer st w =
        replay_loop (pl_log_end_offset log) (int (k + n)) out ?st w"
      using True le run x w n(2) n0 it less.prems(2) by (subst replay_loop.simps) simp
    have "drop k js = ?js @ drop (k + n) js" by (metis append_take_drop_id drop_drop add.commute)
    then have split: "apply_commits (drop (k + n) js) (apply_commits ?js m) = apply_commits (drop k js) m" for m
      by (metis apply_commits_append)
    have lt: "length ps - (k + n) < length ps - k" and kn: "k + n \<le> length ps" using n(1) n0 True by simp_all
    have sl: "st_log ?st = log" using less.prems(2) by simp
    from less.hyps [OF lt kn sl, of out] obtain m where
      rest: "replay_loop (pl_log_end_offset log) (int (k + n)) out ?st w = (Inr (),
        ?st\<lparr>st_offsets := apply_commits (drop (k + n) js) (st_offsets ?st), st_replayed_records := m\<rparr>, w)" by (elim exE)
    show ?thesis unfolding step rest by (intro exI [of _ m]) (simp add: split)
  qed
qed


lemma Replay_journal:
  assumes "journal log js" "quiet w"
  shows "\<exists>st w'. Replay (NewOffsetStore log sync) w = (Inr (), st, w') \<and> st_offsets st = apply_commits js [] \<and> st_log st = log"
proof -
  obtain rss ps where j: "log_inv log rss" "pl_log_start_offset log = 0" "concat rss = map plain_wire ps"
    "list_all2 journal_rec ps js" using assms(1) by (auto simp: journal_def)
  have le: "pl_log_end_offset log = int (length ps)" using j by (simp add: log_inv_def)
  have lj: "length js = length ps" using j(4) by (simp add: list_all2_lengthD)
  have new: "st_log (NewOffsetStore log sync) = log" "st_offsets (NewOffsetStore log sync) = []"
    by (simp_all add: NewOffsetStore_def)
  show ?thesis
  proof (cases "ps = []")
    case True
    then show ?thesis using le lj new by (simp add: Replay_def apply_commits_def)
  next
    case False
    from replay_loop_journal [OF j assms(2) le0 new(1), of EmptyBuffer] obtain n where
      "replay_loop (pl_log_end_offset log) (int 0) EmptyBuffer (NewOffsetStore log sync) w =
        (Inr (), (NewOffsetStore log sync)\<lparr>st_offsets := apply_commits (drop 0 js) (st_offsets (NewOffsetStore log sync)),
          st_replayed_records := n\<rparr>, w)" by (elim exE)
    then show ?thesis using False le j(2) new by (simp add: Replay_def)
  qed
qed

section \<open>Committing\<close>

definition commit_record :: "offset_key \<Rightarrow> committed_offset \<Rightarrow> plain_record" where
  "commit_record key val = Plain 0 (co_commit_time val) 0 (Some (Readable (EncodeKey key EmptyBuffer)))
     (Readable (EncodeValue val EmptyBuffer))"

lemma commit_record_ok:
  assumes "key_ok key" "value_ok val"
  shows "journal_rec (commit_record key val) (key, val)"
proof -
  let ?k = "Readable (EncodeKey key EmptyBuffer)" and ?v = "Readable (EncodeValue val EmptyBuffer)"
  have "EncodedRecordSize False (length ?k) (length ?v) \<le> 45 + length ?k + length ?v"
    using length_varuint_bytes [of "key_field False (length ?k)"] length_varuint_bytes [of "word_of_nat (length ?v)"]
    by (simp add: EncodedRecordSize_def kRecordFixedPrefix_def VarUIntSize_eq)
  then have "record_fits False ?k ?v"
    using encoded_lengths [OF assms] by (simp add: record_fits_def kMaxRecordBytes_def)
  then show ?thesis using assms
    by (simp add: journal_rec_def commit_record_def plain_ok_def value_ok_def is_i64_def)
qed

lemma restamped_journal:
  assumes "restamped [plain_wire p] [r]" "framed r" "journal_rec p e"
  shows "\<exists>p'. r = plain_wire p' \<and> journal_rec p' e"
proof -
  have "take 4 r = take 4 (plain_wire p)" "drop 24 r = drop 24 (plain_wire p)" "crc_good r"
    using assms(1) by (simp_all add: restamped_def)
  from restamp_plain [OF _ assms(2) this(3,1,2)] assms(3) obtain off ts where
    "r = plain_wire (Plain off ts (pl_attr p) (pl_key p) (pl_val p))"
    "plain_ok (Plain off ts (pl_attr p) (pl_key p) (pl_val p))" by (auto simp: journal_rec_def)
  then show ?thesis using assms(3)
    by (intro exI [of _ "Plain off ts (pl_attr p) (pl_key p) (pl_val p)"]) (simp add: journal_rec_def)
qed


lemma Commit_journal:
  assumes j: "journal (st_log st) js" and ok: "key_ok key" "value_ok \<lparr>co_offset = off, co_metadata = meta, co_commit_time = now\<rparr>"
    and room: "pl_log_end_offset (st_log st) < 2 ^ 62"
    and run: "OffsetStore_Commit key off meta now st w = (r, st', w')"
  shows "pl_options (st_log st') = pl_options (st_log st)"
    and "r = Inr () \<Longrightarrow> journal (st_log st') (js @ [(key, \<lparr>co_offset = off, co_metadata = meta, co_commit_time = now\<rparr>)]) \<and>
      st_offsets st' = om_put key \<lparr>co_offset = off, co_metadata = meta, co_commit_time = now\<rparr> (st_offsets st)"
    and "r = Inl e \<Longrightarrow> \<not> fp_sync_on_append (lo_flush (pl_options (st_log st))) \<Longrightarrow>
      journal (st_log st') js \<and> st_offsets st' = st_offsets st"
proof -
  let ?v = "\<lparr>co_offset = off, co_metadata = meta, co_commit_time = now\<rparr>"
  define p where "p = commit_record key ?v"
  have jp: "journal_rec p (key, ?v)" unfolding p_def by (rule commit_record_ok [OF ok])
  define sc where "sc = snd (AppendRecord (Clear (st_scratch st)) 0 now 0 False (Readable (EncodeKey key EmptyBuffer))
      (Readable (EncodeValue ?v EmptyBuffer)))"
  have recs: "Readable sc = plain_wire p"
    unfolding sc_def by (subst AppendRecord_Readable) (simp_all add: p_def commit_record_def plain_wire_def)
  obtain ra recs' log' w1 where ap: "AppendAssigningOffsets (plain_wire p) 1 (st_log st) w = (ra, recs', log', w1)"
    using prod_cases4 by blast
  have st': "st_log st' = log'" "(\<exists>x. ra = Inr x) \<longleftrightarrow> r = Inr ()"
    "st_offsets st' = (if r = Inr () then om_put key ?v (st_offsets st) else st_offsets st)"
    using run ap recs by (auto simp: OffsetStore_Commit_def Let_def sc_def [symmetric] split: sum.splits)
  obtain rss ps where inv: "log_inv (st_log st) rss" "clean_dir (st_log st)" "pl_log_start_offset (st_log st) = 0"
    "concat rss = map plain_wire ps" "list_all2 journal_rec ps js" using j by (auto simp: journal_def)
  have len: "length (plain_wire p) \<le> 4294967295" "pl_log_end_offset (st_log st) + int (length (plain_wire p)) < 2 ^ 63"
    using journal_rec_small [OF jp] room by (simp_all add: kMaxRecordBytes_def)
  from AppendAssigningOffsets_appended [OF inv(1,2) len ap] obtain news rss' where
    app: "appended news (st_log st) ra log' rss rss'"
    and news: "\<And>x. ra = Inr x \<Longrightarrow> chained (pl_log_end_offset (st_log st)) news \<and> length news = 1 \<and>
       (\<exists>olds. plain_wire p = concat olds \<and> restamped olds news)" by blast
  show "pl_options (st_log st') = pl_options (st_log st)" using app st'(1) by (simp add: appended_def)
  show "journal (st_log st') (js @ [(key, ?v)]) \<and> st_offsets st' = om_put key ?v (st_offsets st)" if r: "r = Inr ()"
  proof -
    obtain x where x: "ra = Inr x" using st'(2) r by blast
    obtain n where n: "news = [n]" using news [OF x] by (cases news) auto
    then obtain o' where "restamped [o'] [n]" "plain_wire p = o'"
      using news [OF x] by (auto simp: restamped_def list_all2_Cons2)
    moreover have "framed n" using news [OF x] n by simp
    ultimately obtain p' where "n = plain_wire p'" "journal_rec p' (key, ?v)" using restamped_journal jp by blast
    then have "journal log' (js @ [(key, ?v)])"
      using app inv x n unfolding journal_def appended_def
      by (intro exI [of _ rss'] exI [of _ "ps @ [p']"]) (simp add: list_all2_appendI)
    then show ?thesis using st' r by simp
  qed
  show "journal (st_log st') js \<and> st_offsets st' = st_offsets st"
    if r: "r = Inl e" and ns: "\<not> fp_sync_on_append (lo_flush (pl_options (st_log st)))"
  proof -
    obtain e' where "ra = Inl e'" using st'(2) r by (cases ra) auto
    then have "journal log' js" using app inv ns unfolding journal_def appended_def by auto
    then show ?thesis using st' r by simp
  qed
qed

section \<open>Histories\<close>

inductive store_history :: "bool \<Rightarrow> offset_store \<Rightarrow> (offset_key \<times> committed_offset) list \<Rightarrow> bool" for sync where
  opened: "OffsetStore_Open sync [] (\<lambda>_. NoFiles) w = Some (Inr st, w') \<Longrightarrow> store_history sync st []"
| committed: "store_history sync st js \<Longrightarrow> key_ok key \<Longrightarrow> value_ok \<lparr>co_offset = off, co_metadata = meta, co_commit_time = now\<rparr> \<Longrightarrow>
    pl_log_end_offset (st_log st) < 2 ^ 62 \<Longrightarrow> OffsetStore_Commit key off meta now st w = (Inr (), st', w') \<Longrightarrow>
    store_history sync st' (js @ [(key, \<lparr>co_offset = off, co_metadata = meta, co_commit_time = now\<rparr>)])"
| rejected: "store_history sync st js \<Longrightarrow> key_ok key \<Longrightarrow> value_ok \<lparr>co_offset = off, co_metadata = meta, co_commit_time = now\<rparr> \<Longrightarrow>
    pl_log_end_offset (st_log st) < 2 ^ 62 \<Longrightarrow> \<not> sync \<Longrightarrow> OffsetStore_Commit key off meta now st w = (Inl e, st', w') \<Longrightarrow>
    store_history sync st' js"
| flushed: "store_history sync st js \<Longrightarrow> OffsetStore_Flush st w = (r, st', w') \<Longrightarrow> store_history sync st' js"

lemma store_history_inv:
  "store_history sync st js \<Longrightarrow> journal (st_log st) js \<and> st_offsets st = apply_commits js [] \<and>
     pl_options (st_log st) = offset_log_options sync"
proof (induction rule: store_history.induct)
  case (opened w st w')
  then obtain rep log w1 where op: "PartitionLog_Open (offset_log_options sync) [] (\<lambda>_. NoFiles) w = Some (Inr (rep, log), w1)"
    and rp: "Replay (NewOffsetStore log sync) w1 = (Inr (), st, w')"
    by (auto simp: OffsetStore_Open_def split: option.splits sum.splits prod.splits)
  note new = PartitionLog_Open_new [OF op]
  then have "pl_log_end_offset log = 0" by (simp add: log_inv_def)
  then have "st = NewOffsetStore log sync" using rp by (simp add: Replay_def NewOffsetStore_def)
  then show ?case using new by (auto simp: NewOffsetStore_def journal_def apply_commits_def intro!: exI [of _ "[[]]"])
next
  case (committed st js key off meta now w st' w')
  then show ?case using Commit_journal(1,2) [OF _ committed.hyps(2-5)] by (auto simp: apply_commits_append) (simp add: apply_commits_def)
next
  case (rejected st js key off meta now w e st' w')
  have "\<not> fp_sync_on_append (lo_flush (pl_options (st_log st)))"
    using rejected by (simp add: offset_log_options_def)
  then show ?case using rejected.IH Commit_journal(1) [OF conjunct1 [OF rejected.IH] rejected.hyps(2-4,6)]
      Commit_journal(3) [OF conjunct1 [OF rejected.IH] rejected.hyps(2-4,6) refl] by simp
next
  case (flushed st js w r st' w')
  show ?case
  proof (cases "st_closed st")
    case True
    then show ?thesis using flushed by (simp add: OffsetStore_Flush_def)
  next
    case False
    then obtain log' where fl: "Flush (st_log st) w = (r, log', w')" and st': "st' = st\<lparr>st_log := log'\<rparr>"
      using flushed.hyps(2) by (auto simp: OffsetStore_Flush_def split: prod.splits)
    have "journal log' js" using flushed.IH Flush_inv [OF _ fl] unfolding journal_def clean_dir_def by metis
    moreover have "pl_options log' = pl_options (st_log st)" using flushed.IH Flush_inv [OF _ fl] by (auto simp: journal_def)
    ultimately show ?thesis using flushed.IH by (simp add: st')
  qed
qed


section \<open>Properties\<close>

lemma apply_commits_get:
  "om_get key (apply_commits js m) =
     (case filter (\<lambda>(k, _). k = key) js of [] \<Rightarrow> om_get key m | es \<Rightarrow> Some (snd (last es)))"
proof (induction js rule: rev_induct)
  case Nil
  then show ?case by (simp add: apply_commits_def)
next
  case (snoc e js)
  obtain k v where e: "e = (k, v)" by fastforce
  have "om_get key (apply_commits (js @ [e]) m) = (if key = k then Some v else om_get key (apply_commits js m))"
    by (simp add: e apply_commits_append) (simp add: apply_commits_def om_get_put)
  then show ?case using snoc by (auto simp: e split: list.splits)
qed


definition sample_key :: offset_key where
  "sample_key = OffsetKey ''g'' ''t'' 0"

definition large_disk :: os where
  "large_disk = quiet_os\<lparr>os_free := (\<lambda>n. (65536, 4096))\<rparr>"

lemma sample_commit:
  "\<exists>log w st' w'. store_history False (NewOffsetStore log False) [] \<and> pl_log_end_offset log = 0 \<and>
     OffsetStore_Commit sample_key 7 [] 5 (NewOffsetStore log False) w = (Inr (), st', w')"
proof -
  let ?v = "\<lparr>co_offset = 7, co_metadata = [], co_commit_time = 5\<rparr>" and ?o = "offset_log_options False"
  have q: "quiet large_disk" by (simp add: large_disk_def quiet_def quiet_os_def)
  obtain rep log w where op: "PartitionLog_Open ?o [] (\<lambda>_. NoFiles) large_disk = Some (Inr (rep, log), w)"
    and w: "quiet w" "os_free w = os_free large_disk" using PartitionLog_Open_quiet [OF q] by blast
  note new = PartitionLog_Open_new [OF op]
  have e: "pl_log_end_offset log = 0" using new by (simp add: log_inv_def)
  let ?st = "NewOffsetStore log False"
  have "OffsetStore_Open False [] (\<lambda>_. NoFiles) large_disk = Some (Inr ?st, w)"
    using op e by (simp add: OffsetStore_Open_def Replay_def NewOffsetStore_def)
  from store_history.opened [OF this] have h: "store_history False ?st []" .
  have room: "roomy log w" using new w by (simp add: roomy_def offset_log_options_def large_disk_def wrap64_def)
  have ok: "key_ok sample_key" "value_ok ?v"
    by (simp_all add: key_ok_def value_ok_def sample_key_def string_ok_def is_i32_def is_i64_def)
  let ?p = "commit_record sample_key ?v"
  note jp = commit_record_ok [OF ok]
  have "list_all plain_ok [?p]" "length (concat (map plain_wire [?p])) \<le> 4294967295"
    using jp journal_rec_small [OF jp] by (simp_all add: journal_rec_def kMaxRecordBytes_def)
  then obtain x recs log' w' where ap: "AppendAssigningOffsets (plain_wire ?p) 1 log w = (Inr x, recs, log', w')"
    using AppendAssigningOffsets_success [of log "[[]]" w "[?p]"] new room by auto
  define sc where "sc = snd (AppendRecord (Clear (st_scratch ?st)) 0 5 0 False (Readable (EncodeKey sample_key EmptyBuffer))
      (Readable (EncodeValue ?v EmptyBuffer)))"
  have recs: "Readable sc = plain_wire ?p"
    unfolding sc_def by (subst AppendRecord_Readable) (simp_all add: commit_record_def plain_wire_def)
  have sl: "st_log ?st = log" by (simp add: NewOffsetStore_def)
  have "\<exists>st'. OffsetStore_Commit sample_key 7 [] 5 ?st w = (Inr (), st', w')"
    using ap recs sl by (simp add: OffsetStore_Commit_def Let_def sc_def [symmetric])
  with h e show ?thesis by blast
qed

lemma sample_history:
  "\<exists>st. store_history False st [(sample_key, \<lparr>co_offset = 7, co_metadata = [], co_commit_time = 5\<rparr>)]"
proof -
  obtain log w st' w' where h: "store_history False (NewOffsetStore log False) []" and e: "pl_log_end_offset log = 0"
    and c: "OffsetStore_Commit sample_key 7 [] 5 (NewOffsetStore log False) w = (Inr (), st', w')"
    using sample_commit by blast
  have ok: "key_ok sample_key" "value_ok \<lparr>co_offset = 7, co_metadata = [], co_commit_time = 5\<rparr>"
    by (simp_all add: key_ok_def value_ok_def sample_key_def string_ok_def is_i32_def is_i64_def)
  have "st_log (NewOffsetStore log False) = log" by (simp add: NewOffsetStore_def)
  with store_history.committed [OF h ok _ c] e show ?thesis by auto
qed


end
