(* ===== verification/PL_Group.thy ===== *)
theory PL_Group
  imports PL_Assignor PL_Offset_Store PL_Messages_Group
begin

text \<open>
  Consumer groups (\<open>include/pulselog/consumer/group_coordinator.h\<close>,
  \<open>src/consumer/group_coordinator.cc\<close>): membership, generations, assignments and the fence on
  commits.  The unordered map of groups is kept in key order, since nothing but the order in which
  \<open>Describe\<close> lists the groups depends on it.  The lookup of a topic's partitions is given by the
  broker and is a field of the coordinator.  Every operation that holds the mutex to its end is one
  step; \<open>Commit\<close> gives the mutex up between its checks and the write to the offset store, so it is
  two steps, and other operations may come between them.  A generation is a signed 32-bit number in
  the sources, whose overflow is undefined; it is unbounded here, as is the time arithmetic.
\<close>

section \<open>State\<close>

record group_member =
  gm_member_id :: string
  gm_topics :: "string list"
  gm_session_timeout_ms :: int
  gm_last_heartbeat_ms :: int
  gm_assignment :: "topic_partition list"

datatype group_state = GroupEmpty | GroupRebalancing | GroupStable

fun GroupStateName :: "group_state \<Rightarrow> string" where
  "GroupStateName GroupEmpty = ''empty''"
| "GroupStateName GroupRebalancing = ''rebalancing''"
| "GroupStateName GroupStable = ''stable''"

record group =
  gr_group_id :: string
  gr_state :: group_state
  gr_generation :: int
  gr_leader_id :: string
  gr_strategy :: assignment_strategy
  gr_members :: "(string, group_member) omap"
  gr_last_rebalance_ms :: int

record group_snapshot =
  sn_group_id :: string
  sn_state :: group_state
  sn_generation :: int
  sn_leader_id :: string
  sn_strategy :: assignment_strategy
  sn_members :: "group_member list"

record group_coordinator =
  gc_groups :: "(string, group) omap"
  gc_offsets :: offset_store
  gc_lookup :: "(string list \<Rightarrow> topic_partition list) option"
  gc_default_session_timeout_ms :: int
  gc_member_counter :: nat

definition NewGroup :: group where
  "NewGroup = \<lparr>gr_group_id = [], gr_state = GroupEmpty, gr_generation = 0, gr_leader_id = [],
     gr_strategy = StrategyRange, gr_members = [], gr_last_rebalance_ms = 0\<rparr>"

definition NewMember :: group_member where
  "NewMember = \<lparr>gm_member_id = [], gm_topics = [], gm_session_timeout_ms = 10000,
     gm_last_heartbeat_ms = 0, gm_assignment = []\<rparr>"

definition NewGroupCoordinator ::
  "offset_store \<Rightarrow> (string list \<Rightarrow> topic_partition list) option \<Rightarrow> int \<Rightarrow> group_coordinator" where
  "NewGroupCoordinator offsets lookup default_session_timeout_ms =
     \<lparr>gc_groups = [], gc_offsets = offsets, gc_lookup = lookup,
      gc_default_session_timeout_ms = default_session_timeout_ms, gc_member_counter = 0\<rparr>"

abbreviation header :: "error_code \<Rightarrow> string \<Rightarrow> response_header" where
  "header e msg \<equiv> \<lparr>rh_error = e, rh_message = msg\<rparr>"

section \<open>Rebalancing\<close>

definition AllocateMemberId :: "string \<Rightarrow> group_coordinator \<Rightarrow> string \<times> group_coordinator" where
  "AllocateMemberId group_id gc =
     (let n = wrap64 (gc_member_counter gc + 1)
      in (group_id @ ''-'' @ to_string (int n), gc\<lparr>gc_member_counter := n\<rparr>))"

definition Rebalance ::
  "(string list \<Rightarrow> topic_partition list) option \<Rightarrow> int \<Rightarrow> group \<Rightarrow> group" where
  "Rebalance lookup now_ms g0 =
     (let g = g0\<lparr>gr_generation := gr_generation g0 + 1, gr_last_rebalance_ms := now_ms\<rparr> in
      if gr_members g = [] then g\<lparr>gr_state := GroupEmpty, gr_leader_id := []\<rparr>
      else let member_ids = map fst (gr_members g);
               topics = remdups_adj (sort (concat (map (\<lambda>(_, m). gm_topics m) (gr_members g))));
               partitions = (case lookup of None \<Rightarrow> [] | Some f \<Rightarrow> f topics);
               a = Assign (gr_strategy g) member_ids partitions;
               members = map (\<lambda>(id, m). (id, m\<lparr>gm_assignment := case om_get id a of None \<Rightarrow> [] | Some ps \<Rightarrow> ps\<rparr>))
                           (gr_members g)
           in g\<lparr>gr_members := members, gr_leader_id := fold min (tl member_ids) (hd member_ids),
                gr_state := GroupStable\<rparr>)"

section \<open>Requests\<close>

text \<open>The three blocks of \<open>Join\<close>: the group, the identity of the member, and the entry of the member.\<close>

definition join_group :: "join_group_request \<Rightarrow> group_coordinator \<Rightarrow> group" where
  "join_group q gc =
     (let g = (case om_get (jgq_group_id q) (gc_groups gc) of None \<Rightarrow> NewGroup | Some g \<Rightarrow> g)
      in if gr_group_id g = [] then g\<lparr>gr_group_id := jgq_group_id q, gr_strategy := jgq_strategy q\<rparr> else g)"

definition join_identity ::
  "join_group_request \<Rightarrow> group \<Rightarrow> group_coordinator \<Rightarrow> bool \<times> string \<times> group_coordinator" where
  "join_identity q g gc =
     (if jgq_member_id q = [] \<or> om_get (jgq_member_id q) (gr_members g) = None
      then (True, AllocateMemberId (jgq_group_id q) gc) else (False, jgq_member_id q, gc))"

definition join_member ::
  "join_group_request \<Rightarrow> int \<Rightarrow> int \<Rightarrow> string \<Rightarrow> group \<Rightarrow> bool \<times> group" where
  "join_member q default_timeout now_ms member_id g =
     (let m = (case om_get member_id (gr_members g) of None \<Rightarrow> NewMember | Some m \<Rightarrow> m);
          m' = m\<lparr>gm_member_id := member_id, gm_topics := jgq_topics q,
                 gm_session_timeout_ms := (if jgq_session_timeout_ms q > 0 then jgq_session_timeout_ms q
                                           else default_timeout),
                 gm_last_heartbeat_ms := now_ms\<rparr>
      in (gm_topics m \<noteq> jgq_topics q, g\<lparr>gr_members := om_put member_id m' (gr_members g)\<rparr>))"

definition Join ::
  "join_group_request \<Rightarrow> int \<Rightarrow> group_coordinator \<Rightarrow> join_group_response \<times> group_coordinator" where
  "Join q now_ms gc =
     (let failed = (\<lambda>msg. \<lparr>jgr_header = header kInvalidArgument msg, jgr_generation = - 1, jgr_member_id = [],
                            jgr_leader_id = [], jgr_assignment = []\<rparr>)
      in if jgq_group_id q = [] then (failed ''group id must not be empty'', gc)
         else if jgq_topics q = [] then (failed ''a member must subscribe to at least one topic'', gc)
         else
           let g1 = join_group q gc;
               (is_new, member_id, gc1) = join_identity q g1 gc;
               (subscription_changed, g2) = join_member q (gc_default_session_timeout_ms gc) now_ms member_id g1;
               g3 = (if is_new \<or> subscription_changed \<or> gr_state g2 \<noteq> GroupStable
                     then Rebalance (gc_lookup gc) now_ms g2 else g2)
           in (\<lparr>jgr_header = header kOk [], jgr_generation = gr_generation g3, jgr_member_id = member_id,
                jgr_leader_id = gr_leader_id g3,
                jgr_assignment = (case om_get member_id (gr_members g3) of None \<Rightarrow> [] | Some m \<Rightarrow> gm_assignment m)\<rparr>,
               gc1\<lparr>gc_groups := om_put (jgq_group_id q) g3 (gc_groups gc1)\<rparr>))"

definition Heartbeat ::
  "heartbeat_request \<Rightarrow> int \<Rightarrow> group_coordinator \<Rightarrow> heartbeat_response \<times> group_coordinator" where
  "Heartbeat q now_ms gc =
     (case om_get (hbq_group_id q) (gc_groups gc) of
        None \<Rightarrow> (\<lparr>hbr_header = header kNotFound (''unknown group '' @ [CHR 0x27] @ hbq_group_id q @ [CHR 0x27]),
                   hbr_generation = - 1, hbr_rejoin_required = False\<rparr>, gc)
      | Some g \<Rightarrow>
          (case om_get (hbq_member_id q) (gr_members g) of
             None \<Rightarrow> (\<lparr>hbr_header = header kUnknownMember
                          (''member '' @ [CHR 0x27] @ hbq_member_id q @ [CHR 0x27] @ '' is not in the group''),
                        hbr_generation = gr_generation g, hbr_rejoin_required = True\<rparr>, gc)
           | Some m \<Rightarrow>
               if hbq_generation q \<noteq> gr_generation g
               then (\<lparr>hbr_header = header kRebalanceInProgress
                         (''generation '' @ to_string (hbq_generation q) @ '' is stale; current is '' @
                          to_string (gr_generation g)),
                      hbr_generation = gr_generation g, hbr_rejoin_required = True\<rparr>, gc)
               else (\<lparr>hbr_header = header kOk [], hbr_generation = gr_generation g, hbr_rejoin_required = False\<rparr>,
                     gc\<lparr>gc_groups := om_put (hbq_group_id q)
                          (g\<lparr>gr_members := om_put (hbq_member_id q) (m\<lparr>gm_last_heartbeat_ms := now_ms\<rparr>) (gr_members g)\<rparr>)
                          (gc_groups gc)\<rparr>)))"

definition Leave ::
  "leave_group_request \<Rightarrow> int \<Rightarrow> group_coordinator \<Rightarrow> leave_group_response \<times> group_coordinator" where
  "Leave q now_ms gc =
     (case om_get (lgq_group_id q) (gc_groups gc) of
        None \<Rightarrow> (\<lparr>lgr_header = header kNotFound ''unknown group''\<rparr>, gc)
      | Some g \<Rightarrow>
          if om_get (lgq_member_id q) (gr_members g) = None
          then (\<lparr>lgr_header = header kUnknownMember ''member is not in the group''\<rparr>, gc)
          else (\<lparr>lgr_header = header kOk []\<rparr>,
                gc\<lparr>gc_groups := om_put (lgq_group_id q)
                     (Rebalance (gc_lookup gc) now_ms (g\<lparr>gr_members := om_erase (lgq_member_id q) (gr_members g)\<rparr>))
                     (gc_groups gc)\<rparr>))"

text \<open>The first part of \<open>Commit\<close>, up to where the mutex is given up: the refusal, if there is one.\<close>

definition commit_check :: "commit_offset_request \<Rightarrow> group_coordinator \<Rightarrow> response_header option" where
  "commit_check q gc =
     (if coq_offset q < 0 then Some (header kInvalidArgument ''committed offset must not be negative'')
      else if coq_member_id q = [] then None
      else case om_get (coq_group_id q) (gc_groups gc) of
        None \<Rightarrow> Some (header kNotFound (''unknown group '' @ [CHR 0x27] @ coq_group_id q @ [CHR 0x27]))
      | Some g \<Rightarrow>
          (case om_get (coq_member_id q) (gr_members g) of
             None \<Rightarrow> Some (header kUnknownMember ''member is not in the group'')
           | Some m \<Rightarrow>
               if coq_generation q \<noteq> gr_generation g
               then Some (header kIllegalGeneration
                      (''generation '' @ to_string (coq_generation q) @ '' is stale; current is '' @
                       to_string (gr_generation g)))
               else if TopicPartition (coq_topic q) (coq_partition q) \<notin> set (gm_assignment m)
               then Some (header kIllegalGeneration
                      (''partition '' @ TopicPartition_ToString (TopicPartition (coq_topic q) (coq_partition q)) @
                       '' is not assigned to this member''))
               else None))"

text \<open>The second part, without the mutex; the text of a storage error is left out.\<close>

definition commit_store ::
  "commit_offset_request \<Rightarrow> int \<Rightarrow> group_coordinator \<Rightarrow> os \<Rightarrow> commit_offset_response \<times> group_coordinator \<times> os" where
  "commit_store q now_ms gc w =
     (case OffsetStore_Commit (OffsetKey (coq_group_id q) (coq_topic q) (coq_partition q))
             (coq_offset q) (coq_metadata q) now_ms (gc_offsets gc) w of
        (Inl e, st, w') \<Rightarrow> (\<lparr>cor_header = header e []\<rparr>, gc\<lparr>gc_offsets := st\<rparr>, w')
      | (Inr _, st, w') \<Rightarrow> (\<lparr>cor_header = header kOk []\<rparr>, gc\<lparr>gc_offsets := st\<rparr>, w'))"

text \<open>\<open>Commit\<close> when nothing comes between its two parts.\<close>

definition Group_Commit ::
  "commit_offset_request \<Rightarrow> int \<Rightarrow> group_coordinator \<Rightarrow> os \<Rightarrow> commit_offset_response \<times> group_coordinator \<times> os" where
  "Group_Commit q now_ms gc w =
     (case commit_check q gc of
        Some h \<Rightarrow> (\<lparr>cor_header = h\<rparr>, gc, w)
      | None \<Rightarrow> commit_store q now_ms gc w)"

definition FetchOffset :: "fetch_offset_request \<Rightarrow> group_coordinator \<Rightarrow> fetch_offset_response" where
  "FetchOffset q gc =
     (case OffsetStore_Get (OffsetKey (foq_group_id q) (foq_topic q) (foq_partition q)) (gc_offsets gc) of
        None \<Rightarrow> \<lparr>for_header = header kOk [], for_offset = kInvalidOffset, for_metadata = []\<rparr>
      | Some c \<Rightarrow> \<lparr>for_header = header kOk [], for_offset = co_offset c, for_metadata = co_metadata c\<rparr>)"

section \<open>Sessions\<close>

definition session_expired :: "int \<Rightarrow> group_member \<Rightarrow> bool" where
  "session_expired now_ms m \<longleftrightarrow> now_ms - gm_last_heartbeat_ms m > gm_session_timeout_ms m"

definition expire_group ::
  "(string list \<Rightarrow> topic_partition list) option \<Rightarrow> int \<Rightarrow> group \<Rightarrow> nat \<times> group" where
  "expire_group lookup now_ms g =
     (let expired = map fst (filter (\<lambda>(_, m). session_expired now_ms m) (gr_members g)) in
      if expired = [] then (0, g)
      else (length expired, Rebalance lookup now_ms (g\<lparr>gr_members := fold om_erase expired (gr_members g)\<rparr>)))"

definition ExpireSessions :: "int \<Rightarrow> group_coordinator \<Rightarrow> nat \<times> group_coordinator" where
  "ExpireSessions now_ms gc =
     (let done_groups = map (\<lambda>(id, g). (id, expire_group (gc_lookup gc) now_ms g)) (gc_groups gc)
      in (sum_list (map (fst \<circ> snd) done_groups),
          gc\<lparr>gc_groups := map (\<lambda>(id, r). (id, snd r)) done_groups\<rparr>))"

section \<open>Reports\<close>

definition GroupCount :: "group_coordinator \<Rightarrow> nat" where
  "GroupCount gc = length (gc_groups gc)"

definition Describe :: "group_coordinator \<Rightarrow> group_snapshot list" where
  "Describe gc = map (\<lambda>(id, g). \<lparr>sn_group_id = id, sn_state = gr_state g, sn_generation = gr_generation g,
     sn_leader_id = gr_leader_id g, sn_strategy = gr_strategy g, sn_members = map snd (gr_members g)\<rparr>) (gc_groups gc)"

definition CommittedOffsets :: "string \<Rightarrow> group_coordinator \<Rightarrow> (topic_partition, offset) omap" where
  "CommittedOffsets group_id gc =
     fold (\<lambda>(key, v). om_put (TopicPartition (ok_topic key) (ok_partition key)) (co_offset v))
       (ForGroup group_id (gc_offsets gc)) []"

definition Group_Flush :: "group_coordinator \<Rightarrow> os \<Rightarrow> unit result \<times> group_coordinator \<times> os" where
  "Group_Flush gc w =
     (case OffsetStore_Flush (gc_offsets gc) w of (r, st, w') \<Rightarrow> (r, gc\<lparr>gc_offsets := st\<rparr>, w'))"

definition Group_Close :: "group_coordinator \<Rightarrow> os \<Rightarrow> group_coordinator \<times> os" where
  "Group_Close gc w =
     (case OffsetStore_Close (gc_offsets gc) w of (_, st, w') \<Rightarrow> (gc\<lparr>gc_offsets := st\<rparr>, w'))"

end
