(* ===== verification/PL_Group_Props.thy ===== *)
theory PL_Group_Props
  imports PL_Group PL_Offset_Store_Props
begin

text \<open>
  The coordinator as a system of interleaved steps, what every state it reaches satisfies, and what
  the fence on commits does and does not guarantee.
\<close>

section \<open>Runs\<close>

text \<open>
  A state is the coordinator, the commits that have passed their checks but are not yet stored (with
  the time of their call), and the kernel.  The lookup reads the metadata of the broker, so its
  answers may change at any time.
\<close>

type_synonym group_system = "group_coordinator \<times> (commit_offset_request \<times> int) list \<times> os"

inductive group_step :: "group_system \<Rightarrow> group_system \<Rightarrow> bool" where
  joins: "group_step (gc, fl, w) (snd (Join q now gc), fl, w)"
| beats: "group_step (gc, fl, w) (snd (Heartbeat q now gc), fl, w)"
| leaves: "group_step (gc, fl, w) (snd (Leave q now gc), fl, w)"
| expires: "group_step (gc, fl, w) (snd (ExpireSessions now gc), fl, w)"
| checks: "commit_check q gc = None \<Longrightarrow> group_step (gc, fl, w) (gc, (q, now) # fl, w)"
| stores: "(q, now) \<in> set fl \<Longrightarrow> group_step (gc, fl, w)
    (fst (snd (commit_store q now gc w)), remove1 (q, now) fl, snd (snd (commit_store q now gc w)))"
| flushes: "group_step (gc, fl, w) (fst (snd (Group_Flush gc w)), fl, snd (snd (Group_Flush gc w)))"
| looks_up: "group_step (gc, fl, w) (gc\<lparr>gc_lookup := f\<rparr>, fl, w)"

abbreviation group_run :: "group_system \<Rightarrow> group_system \<Rightarrow> bool" where
  "group_run \<equiv> group_step\<^sup>*\<^sup>*"

section \<open>The invariant\<close>

definition members_ok :: "(string, group_member) omap \<Rightarrow> bool" where
  "members_ok ms \<longleftrightarrow> om_wf ms \<and> (\<forall>(k, m) \<in> set ms. gm_member_id m = k \<and> gm_topics m \<noteq> [])"

definition exclusive :: "(string, group_member) omap \<Rightarrow> bool" where
  "exclusive ms \<longleftrightarrow> distinct (concat (map (gm_assignment \<circ> snd) ms))"

definition group_ok :: "string \<Rightarrow> group \<Rightarrow> bool" where
  "group_ok gid g \<longleftrightarrow> gid \<noteq> [] \<and> gr_group_id g = gid \<and> 0 < gr_generation g \<and> members_ok (gr_members g) \<and>
     exclusive (gr_members g) \<and>
     (if gr_members g = [] then gr_state g = GroupEmpty \<and> gr_leader_id g = []
      else gr_state g = GroupStable \<and> gr_leader_id g = Min (set (map fst (gr_members g))))"

definition coordinator_ok :: "group_coordinator \<Rightarrow> bool" where
  "coordinator_ok gc \<longleftrightarrow> om_wf (gc_groups gc) \<and> (\<forall>(gid, g) \<in> set (gc_groups gc). group_ok gid g)"

text \<open>Who holds what: it changes only with the generation.\<close>

definition roster :: "group \<Rightarrow> (string \<times> topic_partition list) list" where
  "roster g = map (\<lambda>(k, m). (k, gm_assignment m)) (gr_members g)"

definition advances :: "group \<Rightarrow> group \<Rightarrow> bool" where
  "advances g g' \<longleftrightarrow> gr_generation g < gr_generation g' \<or> gr_generation g' = gr_generation g \<and> roster g' = roster g"

definition coordinator_advances :: "group_coordinator \<Rightarrow> group_coordinator \<Rightarrow> bool" where
  "coordinator_advances gc gc' \<longleftrightarrow>
     (\<forall>gid g. om_get gid (gc_groups gc) = Some g \<longrightarrow> (\<exists>g'. om_get gid (gc_groups gc') = Some g' \<and> advances g g'))"

definition owners :: "string \<Rightarrow> topic_partition \<Rightarrow> group_coordinator \<Rightarrow> string list" where
  "owners gid tp gc = (case om_get gid (gc_groups gc) of None \<Rightarrow> []
     | Some g \<Rightarrow> map fst (filter (\<lambda>(k, m). tp \<in> set (gm_assignment m)) (gr_members g)))"

lemma advances_refl [simp]: "advances g g"
  by (simp add: advances_def)

lemma advances_trans: "advances a b \<Longrightarrow> advances b c \<Longrightarrow> advances a c"
  by (auto simp: advances_def)

lemma coordinator_advances_trans:
  "coordinator_advances a b \<Longrightarrow> coordinator_advances b c \<Longrightarrow> coordinator_advances a c"
  unfolding coordinator_advances_def by (meson advances_trans)

lemma advances_same_groups [simp]: "gc_groups gc' = gc_groups gc \<Longrightarrow> coordinator_advances gc gc'"
  by (auto simp: coordinator_advances_def)

lemma coordinator_ok_get: "coordinator_ok gc \<Longrightarrow> om_get gid (gc_groups gc) = Some g \<Longrightarrow> group_ok gid g"
  by (auto simp: coordinator_ok_def omap.items_lookup [symmetric])

lemma put_group:
  assumes "coordinator_ok gc" "group_ok gid g'" "\<And>g. om_get gid (gc_groups gc) = Some g \<Longrightarrow> advances g g'"
    and "gc_groups gc' = om_put gid g' (gc_groups gc)"
  shows "coordinator_ok gc' \<and> coordinator_advances gc gc'"
  using assms unfolding coordinator_ok_def coordinator_advances_def
  by (auto simp: om_wf_put om_get_put omap.items_put split: if_splits)

section \<open>Rebalancing\<close>

lemma Rebalance_members_fst: "map fst (gr_members (Rebalance lookup now g)) = map fst (gr_members g)"
  by (auto simp: Rebalance_def Let_def split_def)

lemma Rebalance_generation: "gr_generation (Rebalance lookup now g) = gr_generation g + 1"
  by (simp add: Rebalance_def Let_def)

lemma Rebalance_advances: "gr_generation g' = gr_generation g \<Longrightarrow> advances g (Rebalance lookup now g')"
  by (simp add: advances_def Rebalance_generation)

lemma get_all:
  assumes "om_wf a" "map fst ms = map fst a"
  shows "map (\<lambda>(k, m). case om_get k a of None \<Rightarrow> [] | Some ps \<Rightarrow> ps) ms = map snd a"
proof (rule nth_equalityI)
  show len: "length (map (\<lambda>(k, m). case om_get k a of None \<Rightarrow> [] | Some ps \<Rightarrow> ps) ms) = length (map snd a)"
    using assms(2) map_eq_imp_length_eq by auto
  fix i assume "i < length (map (\<lambda>(k, m). case om_get k a of None \<Rightarrow> [] | Some ps \<Rightarrow> ps) ms)"
  then have i: "i < length ms" "i < length a" using len by simp_all
  then have "fst (ms ! i) = fst (a ! i)" using assms(2) by (metis nth_map)
  moreover have "om_get (fst (a ! i)) a = Some (snd (a ! i))"
    using i(2) assms(1) by (metis nth_mem omap.items_lookup prod.collapse)
  ultimately show "map (\<lambda>(k, m). case om_get k a of None \<Rightarrow> [] | Some ps \<Rightarrow> ps) ms ! i = map snd a ! i"
    using i by (simp add: split_def)
qed

lemma Assign_aligned:
  assumes "om_wf ms" "ms \<noteq> []" and a_def: "a = Assign strategy (map fst ms) ps"
  shows "om_wf a" "map fst ms = map fst a" "distinct (concat (map snd a))"
proof -
  from assms(2) have "map fst ms \<noteq> []" by simp
  from Assign_spec [OF this, of strategy ps]
  have a: "om_wf a" "set (map fst a) = set (map fst ms)" "assigned a = mset_set (set ps)"
    unfolding a_def Let_def by blast+
  show "om_wf a" by (rule a(1))
  show "map fst ms = map fst a"
    using a(1,2) assms(1) unfolding om_wf_def by (metis strict_sorted_equal)
  have "mset (concat (map snd a)) = mset (SortedPartitions ps)"
    using a(3) mset_set_set [of "SortedPartitions ps"] by (simp add: assigned_def)
  then show "distinct (concat (map snd a))" using mset_eq_imp_distinct_iff by fastforce
qed

lemma Rebalance_ok:
  assumes "members_ok (gr_members g)" "0 \<le> gr_generation g" "gr_group_id g = gid" "gid \<noteq> []"
  shows "group_ok gid (Rebalance lookup now g)"
proof (cases "gr_members g = []")
  case True
  then show ?thesis using assms by (simp add: Rebalance_def Let_def group_ok_def exclusive_def members_ok_def)
next
  case False
  define ps where "ps = (case lookup of None \<Rightarrow> []
    | Some f \<Rightarrow> f (remdups_adj (sort (concat (map (\<lambda>(_, m). gm_topics m) (gr_members g))))))"
  define a where "a = Assign (gr_strategy g) (map fst (gr_members g)) ps"
  define ms where "ms = map (\<lambda>(k, m). (k, m\<lparr>gm_assignment := case om_get k a of None \<Rightarrow> [] | Some ps \<Rightarrow> ps\<rparr>)) (gr_members g)"
  have wf: "om_wf (gr_members g)" using assms(1) by (simp add: members_ok_def)
  note al = Assign_aligned [OF wf False a_def]
  have keys: "map fst ms = map fst (gr_members g)" by (simp add: ms_def split_def)
  have "map (gm_assignment \<circ> snd) ms = map snd a"
    using get_all [OF al(1,2)] by (simp add: ms_def split_def comp_def)
  then have ex: "exclusive ms" using al(3) by (simp add: exclusive_def)
  have "om_wf ms" using wf by (simp only: om_wf_def keys)
  then have ok: "members_ok ms" using assms(1) by (auto simp: members_ok_def ms_def)
  obtain x xs where x: "map fst (gr_members g) = x # xs" using False by (cases "map fst (gr_members g)") auto
  have eq: "Rebalance lookup now g = g\<lparr>gr_generation := gr_generation g + 1, gr_last_rebalance_ms := now,
      gr_members := ms, gr_leader_id := fold min xs x, gr_state := GroupStable\<rparr>"
    using False x by (simp add: Rebalance_def Let_def ms_def a_def ps_def)
  have "ms \<noteq> []" using keys False by auto
  then show ?thesis using ex ok assms keys x Min.set_eq_fold [of x xs] by (simp add: eq group_ok_def)
qed

section \<open>Every step keeps the invariant\<close>

lemma members_ok_put:
  "members_ok ms \<Longrightarrow> gm_member_id m = k \<Longrightarrow> gm_topics m \<noteq> [] \<Longrightarrow> members_ok (om_put k m ms)"
  by (auto simp: members_ok_def om_wf_put omap.items_put split: if_splits)

lemma members_ok_erase: "members_ok ms \<Longrightarrow> members_ok (om_erase k ms)"
  by (auto simp: members_ok_def om_wf_erase omap.items_erase)

lemma members_ok_fold_erase: "members_ok ms \<Longrightarrow> members_ok (fold om_erase ks ms)"
  by (induction ks arbitrary: ms) (auto simp: members_ok_erase)

text \<open>Replacing a member by one with the same assignment leaves the roster alone.\<close>

lemma put_same_assignment:
  assumes "om_get k ms = Some m" "gm_assignment m' = gm_assignment m" "om_wf ms"
  shows "map (\<lambda>(k, m). (k, gm_assignment m)) (om_put k m' ms) = map (\<lambda>(k, m). (k, gm_assignment m)) ms"
  using assms
proof (induction k m' ms rule: om_put.induct)
  case (2 k v j u ms)
  then show ?case by (auto simp: om_get_def om_wf_def dest!: map_of_SomeD split: if_splits)
qed simp

lemma same_roster_ok:
  assumes "group_ok gid g" "om_get k (gr_members g) = Some m" "gm_assignment m' = gm_assignment m"
    and "gm_member_id m' = k" "gm_topics m' \<noteq> []"
  defines "g' \<equiv> g\<lparr>gr_members := om_put k m' (gr_members g)\<rparr>"
  shows "group_ok gid g' \<and> advances g g'"
proof -
  have wf: "om_wf (gr_members g)" using assms(1) by (simp add: group_ok_def members_ok_def)
  have r: "roster g' = roster g"
    using put_same_assignment [OF assms(2,3) wf] by (simp add: g'_def roster_def)
  then have "map fst (roster g') = map fst (roster g)" "map snd (roster g') = map snd (roster g)" by simp_all
  then have keys: "map fst (gr_members g') = map fst (gr_members g)"
    and parts: "map (gm_assignment \<circ> snd) (gr_members g') = map (gm_assignment \<circ> snd) (gr_members g)"
    by (simp_all add: roster_def split_def comp_def)
  have "gr_members g \<noteq> []" "gr_members g' \<noteq> []" using assms(2) keys by auto
  moreover have "members_ok (gr_members g')"
    using members_ok_put assms(1,4,5) by (simp add: g'_def group_ok_def)
  moreover have "exclusive (gr_members g')" using assms(1) parts by (simp add: exclusive_def group_ok_def)
  ultimately have "group_ok gid g'"
    using assms(1) keys by (simp add: group_ok_def g'_def del: set_map)
  then show ?thesis using r by (simp add: advances_def g'_def)
qed

lemma Heartbeat_keeps:
  assumes "coordinator_ok gc"
  shows "coordinator_ok (snd (Heartbeat q now gc)) \<and> coordinator_advances gc (snd (Heartbeat q now gc))"
proof (cases "snd (Heartbeat q now gc) = gc")
  case False
  then obtain g m where g: "om_get (hbq_group_id q) (gc_groups gc) = Some g"
    and m: "om_get (hbq_member_id q) (gr_members g) = Some m"
    and eq: "gc_groups (snd (Heartbeat q now gc)) = om_put (hbq_group_id q)
      (g\<lparr>gr_members := om_put (hbq_member_id q) (m\<lparr>gm_last_heartbeat_ms := now\<rparr>) (gr_members g)\<rparr>) (gc_groups gc)"
    by (auto simp: Heartbeat_def split: option.splits if_splits)
  have ok: "group_ok (hbq_group_id q) g" using assms g by (rule coordinator_ok_get)
  then have "gm_member_id m = hbq_member_id q" "gm_topics m \<noteq> []"
    using m by (auto simp: group_ok_def members_ok_def omap.items_lookup [symmetric])
  with same_roster_ok [OF ok m, of "m\<lparr>gm_last_heartbeat_ms := now\<rparr>"] put_group [OF assms _ _ eq] g
  show ?thesis by simp
qed (use assms in simp)

lemma Leave_keeps:
  assumes "coordinator_ok gc"
  shows "coordinator_ok (snd (Leave q now gc)) \<and> coordinator_advances gc (snd (Leave q now gc))"
proof (cases "snd (Leave q now gc) = gc")
  case False
  then obtain g where g: "om_get (lgq_group_id q) (gc_groups gc) = Some g"
    and eq: "gc_groups (snd (Leave q now gc)) = om_put (lgq_group_id q) (Rebalance (gc_lookup gc) now
      (g\<lparr>gr_members := om_erase (lgq_member_id q) (gr_members g)\<rparr>)) (gc_groups gc)"
    by (auto simp: Leave_def split: option.splits if_splits)
  have "group_ok (lgq_group_id q) g" using assms g by (rule coordinator_ok_get)
  then show ?thesis
    by (intro put_group [OF assms _ _ eq] Rebalance_ok)
      (use g in \<open>auto simp: group_ok_def members_ok_erase intro!: Rebalance_advances\<close>)
qed (use assms in simp)

lemma expire_group_keeps:
  assumes "group_ok gid g"
  shows "group_ok gid (snd (expire_group lookup now g)) \<and> advances g (snd (expire_group lookup now g))"
proof -
  have "group_ok gid (Rebalance lookup now (g\<lparr>gr_members := fold om_erase ks (gr_members g)\<rparr>))" for ks
    by (rule Rebalance_ok) (use assms in \<open>auto simp: group_ok_def members_ok_fold_erase\<close>)
  then show ?thesis using assms by (auto simp: expire_group_def Let_def intro!: Rebalance_advances)
qed

lemma ExpireSessions_keeps:
  assumes "coordinator_ok gc"
  shows "coordinator_ok (snd (ExpireSessions now gc)) \<and> coordinator_advances gc (snd (ExpireSessions now gc))"
proof -
  have eq: "gc_groups (snd (ExpireSessions now gc)) =
      map (\<lambda>(k, g). (k, snd (expire_group (gc_lookup gc) now g))) (gc_groups gc)"
    by (simp add: ExpireSessions_def Let_def split_def comp_def)
  have get: "om_get k (map (\<lambda>(k, g). (k, f g)) m) = map_option f (om_get k m)" for k f and m :: "(string, group) omap"
    by (simp add: om_get_def map_of_map)
  have "coordinator_ok (snd (ExpireSessions now gc))"
    using assms expire_group_keeps unfolding coordinator_ok_def eq by (auto simp: om_wf_def split_def comp_def)
  moreover have "coordinator_advances gc (snd (ExpireSessions now gc))"
    using assms expire_group_keeps coordinator_ok_get unfolding coordinator_advances_def eq get by fastforce
  ultimately show ?thesis ..
qed

lemma join_group_old:
  assumes "coordinator_ok gc" "om_get (jgq_group_id q) (gc_groups gc) = Some g"
  shows "join_group q gc = g"
  using coordinator_ok_get [OF assms] assms(2) by (simp add: join_group_def group_ok_def)

lemma join_group_new:
  "om_get (jgq_group_id q) (gc_groups gc) = None \<Longrightarrow>
   join_group q gc = NewGroup\<lparr>gr_group_id := jgq_group_id q, gr_strategy := jgq_strategy q\<rparr>"
  by (simp add: join_group_def NewGroup_def)

lemma join_group_facts:
  assumes "coordinator_ok gc" "jgq_group_id q \<noteq> []"
  shows "members_ok (gr_members (join_group q gc)) \<and> 0 \<le> gr_generation (join_group q gc) \<and>
    gr_group_id (join_group q gc) = jgq_group_id q \<and>
    (gr_state (join_group q gc) = GroupStable \<longrightarrow> group_ok (jgq_group_id q) (join_group q gc))"
proof (cases "om_get (jgq_group_id q) (gc_groups gc)")
  case None
  then show ?thesis by (simp add: join_group_new NewGroup_def members_ok_def)
next
  case (Some g)
  from coordinator_ok_get [OF assms(1) Some] join_group_old [OF assms(1) Some] show ?thesis
    by (simp add: group_ok_def)
qed

lemma join_identity_facts:
  assumes "join_identity q g gc = (is_new, k, gc1)"
  shows "gc_groups gc1 = gc_groups gc" "\<not> is_new \<Longrightarrow> om_get k (gr_members g) \<noteq> None"
proof -
  have "gc_groups (snd (AllocateMemberId (jgq_group_id q) gc)) = gc_groups gc"
    by (simp add: AllocateMemberId_def Let_def del: wrap64_small)
  then show "gc_groups gc1 = gc_groups gc" "\<not> is_new \<Longrightarrow> om_get k (gr_members g) \<noteq> None"
    using assms unfolding join_identity_def by (metis prod.inject snd_conv)+
qed

lemma join_member_ok:
  assumes "join_member q t now k g = (changed, g')" "members_ok (gr_members g)" "jgq_topics q \<noteq> []"
  shows "members_ok (gr_members g') \<and> gr_generation g' = gr_generation g \<and> gr_group_id g' = gr_group_id g \<and>
    gr_state g' = gr_state g"
proof -
  have "g' = snd (join_member q t now k g)" using assms(1) by simp
  then show ?thesis using assms(2,3) by (simp add: join_member_def Let_def members_ok_put)
qed

lemma join_member_same:
  assumes "join_member q t now k g = (changed, g')" "group_ok gid g" "om_get k (gr_members g) = Some m"
    and "jgq_topics q \<noteq> []"
  shows "group_ok gid g' \<and> advances g g'"
proof -
  define m' where "m' = m\<lparr>gm_member_id := k, gm_topics := jgq_topics q,
    gm_session_timeout_ms := (if jgq_session_timeout_ms q > 0 then jgq_session_timeout_ms q else t),
    gm_last_heartbeat_ms := now\<rparr>"
  have "g' = snd (join_member q t now k g)" using assms(1) by simp
  then have "g' = g\<lparr>gr_members := om_put k m' (gr_members g)\<rparr>"
    using assms(3) by (simp add: join_member_def Let_def m'_def)
  then show ?thesis using same_roster_ok [OF assms(2,3), of m'] assms(4) by (simp add: m'_def)
qed

lemma Join_keeps:
  assumes "coordinator_ok gc"
  shows "coordinator_ok (snd (Join q now gc)) \<and> coordinator_advances gc (snd (Join q now gc))"
proof (cases "jgq_group_id q = [] \<or> jgq_topics q = []")
  case True
  then show ?thesis using assms by (auto simp: Join_def Let_def)
next
  case False
  then have ne: "jgq_group_id q \<noteq> []" "jgq_topics q \<noteq> []" by simp_all
  define g where "g = join_group q gc"
  obtain is_new k gc1 where i: "join_identity q g gc = (is_new, k, gc1)" by (metis prod_cases3)
  obtain changed g2 where m: "join_member q (gc_default_session_timeout_ms gc) now k g = (changed, g2)"
    by (metis surj_pair)
  define g3 where "g3 = (if is_new \<or> changed \<or> gr_state g2 \<noteq> GroupStable
    then Rebalance (gc_lookup gc) now g2 else g2)"
  have f: "members_ok (gr_members g)" "0 \<le> gr_generation g" "gr_group_id g = jgq_group_id q"
    "gr_state g = GroupStable \<Longrightarrow> group_ok (jgq_group_id q) g"
    using join_group_facts [OF assms ne(1)] by (simp_all add: g_def)
  note h = join_member_ok [OF m f(1) ne(2)]
  have eq: "gc_groups (snd (Join q now gc)) = om_put (jgq_group_id q) g3 (gc_groups gc)"
    using ne m i join_identity_facts(1) [OF i] by (simp add: Join_def Let_def g_def g3_def)
  have "group_ok (jgq_group_id q) g3 \<and> advances g g3"
  proof (cases "is_new \<or> changed \<or> gr_state g2 \<noteq> GroupStable")
    case True
    then show ?thesis using Rebalance_ok [of g2] Rebalance_advances [of g2 g] f(1-3) h ne(1) by (simp add: g3_def)
  next
    case False
    then obtain m0 where "om_get k (gr_members g) = Some m0" using join_identity_facts(2) [OF i] by blast
    then show ?thesis using join_member_same [OF m f(4) _ ne(2)] False h by (simp add: g3_def)
  qed
  then show ?thesis using join_group_old [OF assms] by (intro put_group [OF assms _ _ eq]) (auto simp: g_def)
qed

section \<open>Runs keep it\<close>

lemma commit_store_groups: "gc_groups (fst (snd (commit_store q now gc w))) = gc_groups gc"
  by (simp add: commit_store_def split: prod.split sum.split)

lemma Group_Flush_groups: "gc_groups (fst (snd (Group_Flush gc w))) = gc_groups gc"
  by (simp add: Group_Flush_def split: prod.split)

lemma group_step_keeps:
  "group_step s s' \<Longrightarrow> coordinator_ok (fst s) \<Longrightarrow> coordinator_ok (fst s') \<and> coordinator_advances (fst s) (fst s')"
proof (induction rule: group_step.induct)
  case (joins gc fl w q now)
  then show ?case using Join_keeps by simp
next
  case (beats gc fl w q now)
  then show ?case using Heartbeat_keeps by simp
next
  case (leaves gc fl w q now)
  then show ?case using Leave_keeps by simp
next
  case (expires gc fl w now)
  then show ?case using ExpireSessions_keeps by simp
qed (simp_all add: coordinator_ok_def commit_store_groups Group_Flush_groups)

lemma group_run_keeps:
  "group_run s s' \<Longrightarrow> coordinator_ok (fst s) \<Longrightarrow> coordinator_ok (fst s') \<and> coordinator_advances (fst s) (fst s')"
proof (induction rule: rtranclp_induct)
  case (step y z)
  then show ?case using group_step_keeps coordinator_advances_trans by blast
qed simp

lemma NewGroupCoordinator_ok: "coordinator_ok (NewGroupCoordinator st lookup timeout)"
  by (simp add: coordinator_ok_def NewGroupCoordinator_def)

section \<open>The fence\<close>

lemma commit_check_passed:
  assumes "commit_check q gc = None" "coq_member_id q \<noteq> []"
  obtains g m where "om_get (coq_group_id q) (gc_groups gc) = Some g" "om_get (coq_member_id q) (gr_members g) = Some m"
    "gr_generation g = coq_generation q" "TopicPartition (coq_topic q) (coq_partition q) \<in> set (gm_assignment m)"
    "\<not> coq_offset q < 0"
  using assms by (auto simp: commit_check_def split: if_splits option.splits)

lemma exclusive_holders:
  assumes "om_wf ms" "exclusive ms" "om_get k ms = Some m" "tp \<in> set (gm_assignment m)"
  shows "map fst (filter (\<lambda>(k, m). tp \<in> set (gm_assignment m)) ms) = [k]"
  using assms
proof (induction ms)
  case (Cons x ms)
  obtain j u where x: "x = (j, u)" by fastforce
  have wf: "om_wf ms" "exclusive ms" using Cons.prems(1,2) by (auto simp: om_wf_def exclusive_def)
  show ?case
  proof (cases "k = j")
    case True
    then have "u = m" using Cons.prems(3) by (simp add: x om_get_def)
    then have "\<forall>y \<in> set ms. tp \<notin> set (gm_assignment (snd y))"
      using Cons.prems(2,4) by (fastforce simp: exclusive_def x)
    then show ?thesis using True \<open>u = m\<close> Cons.prems(4) by (auto simp: x filter_empty_conv)
  next
    case False
    then have g: "om_get k ms = Some m" using Cons.prems(3) by (simp add: x om_get_def)
    then have "(k, m) \<in> set ms" by (simp add: om_get_def map_of_SomeD)
    then have "tp \<notin> set (gm_assignment u)" using Cons.prems(2,4) by (fastforce simp: exclusive_def x)
    then show ?thesis using Cons.IH [OF wf g Cons.prems(4)] by (simp add: x)
  qed
qed simp

lemma roster_get: "map_option gm_assignment (om_get k (gr_members g)) = map_of (roster g) k"
  by (simp add: roster_def om_get_def map_of_map)

lemma same_roster_check:
  assumes "om_get (coq_group_id q) (gc_groups gc) = Some g" "om_get (coq_group_id q) (gc_groups gc') = Some g'"
    and "gr_generation g' = gr_generation g" "roster g' = roster g" "commit_check q gc = None"
  shows "commit_check q gc' = None"
proof -
  have "map_option gm_assignment (om_get k (gr_members g')) = map_option gm_assignment (om_get k (gr_members g))" for k
    using assms(4) by (simp add: roster_get)
  from this [of "coq_member_id q"] show ?thesis using assms(1-3,5)
    by (cases "om_get (coq_member_id q) (gr_members g)"; cases "om_get (coq_member_id q) (gr_members g')")
      (simp_all add: commit_check_def split: if_splits)
qed

lemma stale_check:
  assumes "om_get (coq_group_id q) (gc_groups gc) = Some g" "coq_generation q \<noteq> gr_generation g"
    and "coq_member_id q \<noteq> []" "\<not> coq_offset q < 0"
  shows "\<exists>e msg. commit_check q gc = Some (header e msg) \<and> e \<in> {kUnknownMember, kIllegalGeneration}"
  using assms by (simp add: commit_check_def split: option.split)

text \<open>
  C15: \<^bold>\<open>The check on commits fences stale members.\<close>  In any interleaving of joins, heartbeats,
  leaves, expiries, commits, flushes and changes of the partitions, starting from a new coordinator:
  when the commit of a group member passes its check, that member is the only one of its group the
  partition is assigned to, in the current generation.  At any later time either the generation and
  every assignment of the group are unchanged and the same commit still passes, or the generation
  has grown and the same commit is refused as stale or as coming from an unknown member.
\<close>

theorem group_fencing:
  assumes "group_run (NewGroupCoordinator st lookup timeout, [], w0) (gc, fl, w)"
    and "group_run (gc, fl, w) (gc', fl', w')"
    and "commit_check q gc = None" "coq_member_id q \<noteq> []"
  shows "owners (coq_group_id q) (TopicPartition (coq_topic q) (coq_partition q)) gc = [coq_member_id q] \<and>
    (\<exists>g g'. om_get (coq_group_id q) (gc_groups gc) = Some g \<and> om_get (coq_group_id q) (gc_groups gc') = Some g' \<and>
       gr_generation g = coq_generation q \<and>
       (gr_generation g' = gr_generation g \<and> roster g' = roster g \<and> commit_check q gc' = None \<or>
        gr_generation g < gr_generation g' \<and>
        (\<exists>e msg. commit_check q gc' = Some (header e msg) \<and> e \<in> {kUnknownMember, kIllegalGeneration})))"
proof -
  have ok: "coordinator_ok gc" using group_run_keeps [OF assms(1)] NewGroupCoordinator_ok by simp
  have adv: "coordinator_advances gc gc'" using group_run_keeps [OF assms(2)] ok by simp
  obtain g m where g: "om_get (coq_group_id q) (gc_groups gc) = Some g"
    and m: "om_get (coq_member_id q) (gr_members g) = Some m" and gen: "gr_generation g = coq_generation q"
    and tp: "TopicPartition (coq_topic q) (coq_partition q) \<in> set (gm_assignment m)" and off: "\<not> coq_offset q < 0"
    using assms(3,4) by (rule commit_check_passed)
  have "om_wf (gr_members g)" "exclusive (gr_members g)"
    using coordinator_ok_get [OF ok g] by (simp_all add: group_ok_def members_ok_def)
  from exclusive_holders [OF this m tp]
  have own: "owners (coq_group_id q) (TopicPartition (coq_topic q) (coq_partition q)) gc = [coq_member_id q]"
    by (simp add: owners_def g)
  obtain g' where g': "om_get (coq_group_id q) (gc_groups gc') = Some g'" and "advances g g'"
    using adv g unfolding coordinator_advances_def by blast
  then consider "gr_generation g' = gr_generation g" "roster g' = roster g" | "gr_generation g < gr_generation g'"
    unfolding advances_def by blast
  then show ?thesis
  proof cases
    case 1
    then show ?thesis using own g g' gen same_roster_check [OF g g' 1 assms(3)] by blast
  next
    case 2
    then have "coq_generation q \<noteq> gr_generation g'" using gen by simp
    from stale_check [OF g' this assms(4) off] show ?thesis using own g g' gen 2 by blast
  qed
qed

text \<open>A group with one member, which holds the one partition of its topic.\<close>

definition sample_coordinator :: "offset_store \<Rightarrow> group_coordinator" where
  "sample_coordinator st = snd (Join \<lparr>jgq_group_id = ''g'', jgq_member_id = [], jgq_topics = [''t''],
     jgq_session_timeout_ms = 1000, jgq_strategy = StrategyRange\<rparr> 0
     (NewGroupCoordinator st (Some (\<lambda>_. [TopicPartition ''t'' 0])) 1000))"

definition sample_request :: commit_offset_request where
  "sample_request = \<lparr>coq_group_id = ''g'', coq_member_id = ''g-1'', coq_generation = 1, coq_topic = ''t'',
     coq_partition = 0, coq_offset = 7, coq_metadata = []\<rparr>"

lemma sample_assign: "Assign StrategyRange [''g-1''] [TopicPartition ''t'' 0] = [(''g-1'', [TopicPartition ''t'' 0])]"
  by code_simp

lemma sample_id: "to_string 1 = ''1''"
  by code_simp

lemma sample_groups:
  "gc_groups (sample_coordinator st) =
     [(''g'', \<lparr>gr_group_id = ''g'', gr_state = GroupStable, gr_generation = 1, gr_leader_id = ''g-1'',
        gr_strategy = StrategyRange,
        gr_members = [(''g-1'', \<lparr>gm_member_id = ''g-1'', gm_topics = [''t''], gm_session_timeout_ms = 1000,
          gm_last_heartbeat_ms = 0, gm_assignment = [TopicPartition ''t'' 0]\<rparr>)],
        gr_last_rebalance_ms = 0\<rparr>)]"
  by (simp add: sample_coordinator_def Join_def join_group_def join_identity_def join_member_def AllocateMemberId_def
      NewGroupCoordinator_def NewGroup_def NewMember_def Rebalance_def om_get_def sample_assign sample_id Let_def)

lemma sample_passes: "commit_check sample_request (sample_coordinator st) = None"
  by (simp add: commit_check_def sample_request_def sample_groups om_get_def)

lemma sample_offsets: "gc_offsets (sample_coordinator st) = st"
  by (simp add: sample_coordinator_def Join_def join_identity_def AllocateMemberId_def NewGroupCoordinator_def
      join_member_def Let_def)

definition sample_left :: "offset_store \<Rightarrow> group_coordinator" where
  "sample_left st = snd (Leave \<lparr>lgq_group_id = ''g'', lgq_member_id = ''g-1''\<rparr> 9 (sample_coordinator st))"

theorem group_fencing_witness:
  "\<forall>st. owners ''g'' (TopicPartition ''t'' 0) (sample_coordinator st) = [''g-1''] \<and>
     commit_check sample_request (sample_coordinator st) = None \<and>
     (\<exists>e msg. commit_check sample_request (sample_left st) = Some (header e msg) \<and>
        e \<in> {kUnknownMember, kIllegalGeneration})"
proof
  fix st :: offset_store
  have a: "group_run (NewGroupCoordinator st (Some (\<lambda>_. [TopicPartition ''t'' 0])) 1000, [], quiet_os)
      (sample_coordinator st, [], quiet_os)"
    unfolding sample_coordinator_def by (rule r_into_rtranclp, rule group_step.joins)
  have b: "group_run (sample_coordinator st, [], quiet_os) (sample_left st, [], quiet_os)"
    unfolding sample_left_def by (rule r_into_rtranclp, rule group_step.leaves)
  have n: "coq_member_id sample_request \<noteq> []" by (simp add: sample_request_def)
  have "commit_check sample_request (sample_left st) \<noteq> None"
    by (simp add: commit_check_def sample_request_def sample_left_def Leave_def sample_groups om_get_def om_erase_def Rebalance_def)
  with group_fencing [OF a b sample_passes n] sample_passes [of st]
  show "owners ''g'' (TopicPartition ''t'' 0) (sample_coordinator st) = [''g-1''] \<and>
     commit_check sample_request (sample_coordinator st) = None \<and>
     (\<exists>e msg. commit_check sample_request (sample_left st) = Some (header e msg) \<and>
        e \<in> {kUnknownMember, kIllegalGeneration})"
    by (auto simp: sample_request_def)
qed

section \<open>What the fence does not stop\<close>

lemma left_member_unknown:
  assumes "om_get (coq_group_id q) (gc_groups gc) = Some g" "om_get (coq_member_id q) (gr_members g) = Some m"
    and "\<not> coq_offset q < 0" "coq_member_id q \<noteq> []"
  shows "commit_check q (snd (Leave \<lparr>lgq_group_id = coq_group_id q, lgq_member_id = coq_member_id q\<rparr> now gc)) =
    Some (header kUnknownMember ''member is not in the group'')"
proof -
  define g' where "g' = Rebalance (gc_lookup gc) now (g\<lparr>gr_members := om_erase (coq_member_id q) (gr_members g)\<rparr>)"
  have "coq_member_id q \<notin> set (map fst (gr_members g'))"
    unfolding g'_def Rebalance_members_fst by (auto simp: om_erase_def)
  then have "om_get (coq_member_id q) (gr_members g') = None" unfolding om_get_keys by simp
  then show ?thesis using assms by (simp add: Leave_def commit_check_def om_get_put g'_def [symmetric])
qed

lemma commit_store_lands:
  assumes "OffsetStore_Commit (OffsetKey (coq_group_id q) (coq_topic q) (coq_partition q))
      (coq_offset q) (coq_metadata q) now (gc_offsets gc) w = (Inr (), st, w')"
  shows "commit_store q now gc w = (\<lparr>cor_header = header kOk []\<rparr>, gc\<lparr>gc_offsets := st\<rparr>, w')"
    and "OffsetStore_Get (OffsetKey (coq_group_id q) (coq_topic q) (coq_partition q)) st =
      Some \<lparr>co_offset = coq_offset q, co_metadata = coq_metadata q, co_commit_time = now\<rparr>"
  using assms
  by (auto simp: commit_store_def OffsetStore_Commit_def OffsetStore_Get_def Let_def om_get_put
      split: prod.splits sum.splits)

text \<open>
  C16: \<^bold>\<open>A commit can land after its member has left.\<close>  The check and the write of a commit are two
  steps.  Whenever a member's commit passes its check and the offset store can take it, there is an
  interleaving in which the member leaves in between: the coordinator would now refuse the same
  commit as coming from an unknown member, yet the write goes through, is answered with success, and
  is what the group reads back as its position.
\<close>

theorem commit_lands_after_leaving:
  assumes "commit_check q gc = None" "coq_member_id q \<noteq> []"
    and "OffsetStore_Commit (OffsetKey (coq_group_id q) (coq_topic q) (coq_partition q))
      (coq_offset q) (coq_metadata q) now (gc_offsets gc) w = (Inr (), st, w')"
  shows "\<exists>gc' gc''. group_run (gc, fl, w) (gc', (q, now) # fl, w) \<and>
    commit_check q gc' = Some (header kUnknownMember ''member is not in the group'') \<and>
    group_step (gc', (q, now) # fl, w) (gc'', fl, w') \<and>
    fst (commit_store q now gc' w) = \<lparr>cor_header = header kOk []\<rparr> \<and>
    for_offset (FetchOffset \<lparr>foq_group_id = coq_group_id q, foq_topic = coq_topic q, foq_partition = coq_partition q\<rparr> gc'') =
      coq_offset q"
proof -
  obtain g m where g: "om_get (coq_group_id q) (gc_groups gc) = Some g"
    and m: "om_get (coq_member_id q) (gr_members g) = Some m" and off: "\<not> coq_offset q < 0"
    using assms(1,2) by (rule commit_check_passed)
  define gc' where "gc' = snd (Leave \<lparr>lgq_group_id = coq_group_id q, lgq_member_id = coq_member_id q\<rparr> now gc)"
  have "gc_offsets gc' = gc_offsets gc" using g m by (simp add: gc'_def Leave_def)
  note land = commit_store_lands [of q now gc' w st w', unfolded this, OF assms(3)]
  have "group_step (gc, fl, w) (gc, (q, now) # fl, w)" using assms(1) by (rule group_step.checks)
  moreover have "group_step (gc, (q, now) # fl, w) (gc', (q, now) # fl, w)"
    unfolding gc'_def by (rule group_step.leaves)
  ultimately have run: "group_run (gc, fl, w) (gc', (q, now) # fl, w)" by simp
  have step: "group_step (gc', (q, now) # fl, w) (gc'\<lparr>gc_offsets := st\<rparr>, fl, w')"
    using group_step.stores [of q now "(q, now) # fl" gc' w] by (simp add: land(1))
  show ?thesis using run step land left_member_unknown [OF g m off assms(2)]
    by (intro exI [of _ gc'] exI [of _ "gc'\<lparr>gc_offsets := st\<rparr>"]) (simp add: FetchOffset_def gc'_def)
qed

theorem commit_lands_after_leaving_witness:
  "\<exists>st0 w gc' gc'' w'. group_run (sample_coordinator st0, [], w) (gc', [(sample_request, 5)], w) \<and>
     commit_check sample_request gc' = Some (header kUnknownMember ''member is not in the group'') \<and>
     group_step (gc', [(sample_request, 5)], w) (gc'', [], w') \<and>
     for_offset (FetchOffset \<lparr>foq_group_id = ''g'', foq_topic = ''t'', foq_partition = 0\<rparr> gc'') = 7"
proof -
  obtain log w st' w' where c: "OffsetStore_Commit sample_key 7 [] 5 (NewOffsetStore log False) w = (Inr (), st', w')"
    using sample_commit by blast
  let ?st = "NewOffsetStore log False"
  have n: "coq_member_id sample_request \<noteq> []" by (simp add: sample_request_def)
  have "OffsetStore_Commit (OffsetKey (coq_group_id sample_request) (coq_topic sample_request) (coq_partition sample_request))
      (coq_offset sample_request) (coq_metadata sample_request) 5 (gc_offsets (sample_coordinator ?st)) w = (Inr (), st', w')"
    using c by (simp add: sample_request_def sample_key_def sample_offsets)
  from commit_lands_after_leaving [OF sample_passes n this, of "[]"] show ?thesis
    by (simp add: sample_request_def) blast
qed

end
