(* ===== verification/Spec2Isabelle.thy ===== *)
theory Spec2Isabelle
  imports PL_Frame PL_Messages_Props PL_Record_Props PL_Replica_Props PL_Metadata_Props PL_Recovery PL_Assignor
    PL_Offset_Store_Props PL_Group_Props
begin

text \<open>
  \<^bold>\<open>PulseLog\<close>: a partitioned, replicated append-only log with a binary protocol.  Clients send
  frames over TCP; a broker decodes them into messages, appends record batches to the partition
  logs of its data directory, replicates them to follower brokers and serves them back to
  consumers, whose positions it keeps in a journal of its own.

  \<^bold>\<open>Parts and theories\<close>, from the bottom up; each theory opens with the files it models.
    \<^item> \<open>PL_Prelude\<close>: lists, options, 64-bit sums and the fact collections shared by the others;
      \<open>PL_Omap\<close>: \<open>std::map\<close> as an ordered association list, behind the interface \<open>std_map\<close>.
    \<^item> \<open>src/include/pulselog/base\<close>, \<open>src/src/base\<close>: byte order (\<open>PL_Endian\<close>), errors and value types
      (\<open>PL_Base\<close>), number text (\<open>PL_Text\<close>), checksums (\<open>PL_Crc32c\<close>), byte buffers and their pool
      (\<open>PL_Buffer\<close>).
    \<^item> \<open>src/src/protocol\<close>: payload codec (\<open>PL_Codec\<close>), frames and operation codes (\<open>PL_Frame\<close>),
      messages (\<open>PL_Messages_Data\<close>, \<open>PL_Messages_Control\<close>, \<open>PL_Messages_Group\<close>, with their
      properties in \<open>PL_Messages_Props\<close>), records (\<open>PL_Record\<close>, \<open>PL_Record_Props\<close>).  A codec meets
      the contract \<open>wire_codec\<close> or \<open>message_codec\<close>, from which its round trip follows.
    \<^item> \<open>src/src/storage\<close>: files over a kernel that answers from a script of replies (\<open>PL_File\<close>), the
      offset and time indexes (\<open>PL_Offset_Index\<close>), segments (\<open>PL_Segment\<close>) with their invariant
      (\<open>PL_Segment_Inv\<close>, \<open>PL_Segment_Ops\<close>), reads (\<open>PL_Segment_Read\<close>) and crash recovery
      (\<open>PL_Recovery\<close>); the partition log (\<open>PL_Partition_Log\<close>): the passes over a batch
      (\<open>PL_Log_Batch\<close>), its invariant (\<open>PL_Log_Inv\<close>), appending (\<open>PL_Log_Append\<close>), reading
      (\<open>PL_Log_Read\<close>), truncation and retention (\<open>PL_Log_Maint\<close>), success without faults
      (\<open>PL_Log_Live\<close>), the states it reaches and the interface \<open>record_store\<close> that segments and logs
      share (\<open>PL_Log_Store\<close>), and its properties (\<open>PL_Log_Props\<close>).
    \<^item> \<open>src/src/metadata\<close>: topics, placement and the metadata file (\<open>PL_Metadata\<close>,
      \<open>PL_Metadata_Props\<close>).
    \<^item> \<open>src/src/broker/partition_replica.cc\<close>: the high-water mark and the requests that wait for
      durability (\<open>PL_Replica\<close>, \<open>PL_Replica_Props\<close>, with the interface \<open>majority\<close>).
    \<^item> \<open>src/src/consumer\<close>: assignment of partitions to group members (\<open>PL_Assignor\<close>), committed
      offsets (\<open>PL_Offset_Store\<close>, \<open>PL_Offset_Store_Props\<close>) and the group coordinator over both
      (\<open>PL_Group\<close>, \<open>PL_Group_Props\<close>).

  \<^bold>\<open>Conventions.\<close>  A C++ class is a record, a method a function from the old to the new record; a
  \<open>Status\<close> or \<open>Result\<close> is a sum with the error code on the left (messages are left out); machine
  integers are words, or \<open>nat\<close> and \<open>int\<close> with the wrap-around written out where it can be reached.
  The kernel is a record \<open>os\<close>: a list of replies to system calls (any of them may fail, be short or
  be interrupted), clocks and free space; \<open>quiet\<close> says that no fault is left.  A file has the
  content a reader sees and the content the disk holds.  Callbacks are numbers, and the calls an
  operation makes are part of its result.  Locks are left out: an operation is one step,
  except the commit of the group coordinator, which gives up its lock half-way and is two.

  \<^bold>\<open>What is shown.\<close>  Encoders and decoders are inverse to each other, decoders stay inside their
  input, and damage of up to four bytes is detected.  Segments and logs keep their invariant under
  every behaviour of the kernel; appends number records without gaps and never rewrite them, reads
  deliver exactly a run of the records, truncation and retention remove a suffix and a prefix, a
  flush makes records durable, and recovery keeps exactly the whole records.  A write acknowledged
  by a quorum is on a replica outside any lost minority; the high-water mark never falls; every
  waiting request is answered once.  Placement and assignment are fair; metadata and committed
  offsets survive being saved and loaded.  In every interleaving of a coordinator's steps a partition
  has one owner per generation and the check on commits refuses stale members; a commit that has
  passed the check is still written when its member leaves before the write.

  \<^bold>\<open>Bounds.\<close>  Every loop is a total function with a termination proof, except the recovery scan, which
  is a partial function: it is shown to return for records of at most one chunk (1 MiB), and not to
  return for a longer one.  File positions are not wrapped: they stay below \<open>2 ^ 63\<close>; nor are the
  generations of a group, 32-bit numbers that are taken not to overflow.

  \<^bold>\<open>Not modelled.\<close>  The request handler, partition manager, replicator and broker threads
  compose the parts above with queues, timers and sockets; they, the network layer
  (\<open>src/src/net\<close>), the lock-free queues (\<open>include/pulselog/concurrency\<close>), whose point is a memory
  model that one-step operations do not have, configuration, logging, metrics, the C++ client and the
  command-line programs are outside this development.  So are \<open>MemoryMap\<close> of \<open>file_util.cc\<close>, which
  nothing uses, and log output everywhere.
\<close>

end
